(* ===== verification/Prelude.thy ===== *)
theory Prelude
  imports Main "HOL-Library.AList" "HOL-Library.Multiset" "HOL-Library.List_Lexorder"
    "HOL-Library.Char_ord" "HOL-Library.Sublist" "HOL-Library.Word"
begin

text \<open>
  Shared vocabulary of the development: the outcome of a Go call (a value, a panic, or a call
  that blocks on a held mutex or a full channel), Go error values, Go maps as association lists
  together with the unspecified iteration order of \<^verbatim>\<open>range\<close> over a map, and the lemma
  collections the component theories add to.
\<close>

named_theorems go_simps \<open>unfolding rules for the Go outcome type\<close>
named_theorems ipam_intros \<open>calls that keep a property of the shared IPAM instance\<close>
named_theorems map_simps \<open>lookups in Go maps\<close>

section \<open>Outcomes of a Go call\<close>

datatype panic = NilDereference | NilMapWrite | IndexOutOfRange | PanicMessage string

datatype 'a go = Ret 'a | Panic panic | Block

fun go_bind :: "'a go \<Rightarrow> ('a \<Rightarrow> 'b go) \<Rightarrow> 'b go" where
  "go_bind (Ret a) f = f a"
| "go_bind (Panic p) f = Panic p"
| "go_bind Block f = Block"

lemma go_bind_eq_Ret [simp, go_simps]:
  "go_bind m f = Ret b \<longleftrightarrow> (\<exists>a. m = Ret a \<and> f a = Ret b)"
  by (cases m) auto

lemma go_bind_eq_Block [go_simps]:
  "go_bind m f = Block \<longleftrightarrow> m = Block \<or> (\<exists>a. m = Ret a \<and> f a = Block)"
  by (cases m) auto

lemma go_bind_eq_Panic [go_simps]:
  "go_bind m f = Panic p \<longleftrightarrow> m = Panic p \<or> (\<exists>a. m = Ret a \<and> f a = Panic p)"
  by (cases m) auto

lemma go_bind_assoc: "go_bind (go_bind m f) g = go_bind m (\<lambda>a. go_bind (f a) g)"
  by (cases m) auto

lemma go_bind_cong [fundef_cong]:
  "m = m' \<Longrightarrow> (\<And>a. m' = Ret a \<Longrightarrow> f a = g a) \<Longrightarrow> go_bind m f = go_bind m' g"
  by (cases m') auto

text \<open>A call that goes on only when the previous one succeeded.\<close>

lemma case_result_None [go_simps]:
  "(case r of Inl e \<Rightarrow> Ret (Some (f e), h e) | Inr x \<Rightarrow> g x) = Ret (None, st) \<longleftrightarrow>
   (\<exists>x. r = Inr x \<and> g x = Ret (None, st))"
  by (cases r) auto

lemma case_result_Inr [go_simps]:
  "(case r of Inl e \<Rightarrow> Ret (Inl (f e), h e) | Inr x \<Rightarrow> g x) = Ret (Inr y, st) \<longleftrightarrow>
   (\<exists>x. r = Inr x \<and> g x = Ret (Inr y, st))"
  by (cases r) auto

lemma case_error_None [go_simps]:
  "(case e of None \<Rightarrow> m | Some x \<Rightarrow> Ret (Some (f x), h x)) = Ret (None, st) \<longleftrightarrow> e = None \<and> m = Ret (None, st)"
  by (cases e) auto

section \<open>Error values\<close>

text \<open>
  A Go \<^verbatim>\<open>error\<close> is \<open>None\<close> (nil) or \<open>Some e\<close>.  Errors made by the libraries keep the
  distinction the program asks for (\<^verbatim>\<open>errors.Is(err, goipam.ErrNotFound)\<close>,
  \<^verbatim>\<open>apierrors.IsNotFound(err)\<close>) and their text; \<open>Errorf\<close> is a
  \<^verbatim>\<open>fmt.Errorf\<close> with its format, its string arguments and the error it wraps, and
  \<open>Joined\<close> the result of \<^verbatim>\<open>errors.Join\<close>.
\<close>

datatype goerr =
    IpamNotFound string
  | IpamError string
  | ApiNotFound string
  | ApiError string
  | LibError string
  | Errorf string "string list" "goerr option"
  | Joined "goerr list"

fun is_ipam_not_found :: "goerr \<Rightarrow> bool" where
  "is_ipam_not_found (IpamNotFound _) = True"
| "is_ipam_not_found (Errorf _ _ (Some e)) = is_ipam_not_found e"
| "is_ipam_not_found (Joined es) = list_ex is_ipam_not_found es"
| "is_ipam_not_found _ = False"

fun is_api_not_found :: "goerr \<Rightarrow> bool" where
  "is_api_not_found (ApiNotFound _) = True"
| "is_api_not_found (Errorf _ _ (Some e)) = is_api_not_found e"
| "is_api_not_found (Joined es) = list_ex is_api_not_found es"
| "is_api_not_found _ = False"

text \<open>The text \<^verbatim>\<open>err.Error()\<close> of an error.\<close>

fun error_text :: "goerr \<Rightarrow> string" where
  "error_text (IpamNotFound m) = m"
| "error_text (IpamError m) = m"
| "error_text (ApiNotFound m) = m"
| "error_text (ApiError m) = m"
| "error_text (LibError m) = m"
| "error_text (Errorf f as c) =
     f @ concat as @ (case c of None \<Rightarrow> [] | Some e \<Rightarrow> '': '' @ error_text e)"
| "error_text (Joined es) = concat (map error_text es)"

text \<open>\<^verbatim>\<open>errors.Join\<close> drops nil errors and is nil when nothing is left.\<close>

definition errors_join :: "goerr option list \<Rightarrow> goerr option" where
  "errors_join es = (case List.map_filter id es of [] \<Rightarrow> None | xs \<Rightarrow> Some (Joined xs))"

lemma errors_join_None [simp]: "errors_join es = None \<longleftrightarrow> (\<forall>e \<in> set es. e = None)"
  by (induction es) (auto simp: errors_join_def map_filter_def split: list.splits option.splits)

lemma errors_join_Nil [simp]: "errors_join [] = None"
  by simp

lemma errors_join_snoc_Some [simp]: "\<exists>j. errors_join [es, Some e] = Some j"
  by (cases "errors_join [es, Some e]") auto

section \<open>Go maps and their iteration order\<close>

text \<open>
  A \<^verbatim>\<open>map[string]V\<close> is an association list with distinct keys.  The order in which Go's
  \<^verbatim>\<open>range\<close> visits a map is unspecified and may differ from loop to loop: it is the
  parameter \<open>rng\<close>, which for every loop of the program (named by the enclosing function) may
  reorder the keys in any way.
\<close>

type_synonym 'v gomap = "(string \<times> 'v) list"
type_synonym range_order = "string \<Rightarrow> string list \<Rightarrow> string list"

definition wf_map :: "'v gomap \<Rightarrow> bool" where
  "wf_map m \<longleftrightarrow> distinct (map fst m)"

definition go_range :: "range_order \<Rightarrow> string \<Rightarrow> 'v gomap \<Rightarrow> (string \<times> 'v) list" where
  "go_range rng site m = map (\<lambda>k. (k, the (map_of m k))) (rng site (map fst m))"

definition go_keys :: "range_order \<Rightarrow> string \<Rightarrow> 'v gomap \<Rightarrow> string list" where
  "go_keys rng site m = rng site (map fst m)"

definition go_values :: "range_order \<Rightarrow> string \<Rightarrow> 'v gomap \<Rightarrow> 'v list" where
  "go_values rng site m = map snd (go_range rng site m)"

lemma wf_map_Nil [simp]: "wf_map []"
  by (simp add: wf_map_def)

lemma wf_map_update [simp]: "wf_map m \<Longrightarrow> wf_map (AList.update k v m)"
  by (simp add: wf_map_def distinct_update)

lemma map_of_update [simp, map_simps]: "map_of (AList.update k v m) = (map_of m)(k \<mapsto> v)"
  by (rule update_conv')

lemma wf_map_of_iff [map_simps]: "wf_map m \<Longrightarrow> map_of m k = Some v \<longleftrightarrow> (k, v) \<in> set m"
  by (simp add: wf_map_def)

lemma map_of_None_iff [map_simps]: "map_of m k = None \<longleftrightarrow> k \<notin> fst ` set m"
  by (rule map_of_eq_None_iff)

locale map_iteration =
  fixes rng :: range_order
  assumes rng_perm: "mset (rng site ks) = mset ks"
begin

lemma set_rng [simp]: "set (rng site ks) = set ks"
  by (rule mset_eq_setD [OF rng_perm])

lemma distinct_rng [simp]: "distinct (rng site ks) = distinct ks"
  by (rule mset_eq_imp_distinct_iff [OF rng_perm])

lemma length_rng [simp]: "length (rng site ks) = length ks"
  by (rule mset_eq_length [OF rng_perm])

lemma rng_Nil [simp]: "rng site [] = []"
  using rng_perm [of site "[]"] by simp

lemma go_range_Nil [simp]: "go_range rng site [] = []"
  by (simp add: go_range_def)

lemma mset_go_range: "wf_map m \<Longrightarrow> mset (go_range rng site m) = mset m"
proof -
  assume wf: "wf_map m"
  have "mset (go_range rng site m) = image_mset (\<lambda>k. (k, the (map_of m k))) (mset (map fst m))"
    by (simp add: go_range_def rng_perm)
  also have "\<dots> = mset (map (\<lambda>p. (fst p, the (map_of m (fst p)))) m)"
    by (simp add: image_mset.compositionality comp_def)
  also have "map (\<lambda>p. (fst p, the (map_of m (fst p)))) m = m"
    using wf by (intro map_idI) (auto simp: wf_map_def)
  finally show ?thesis .
qed

lemma set_go_range [simp]: "wf_map m \<Longrightarrow> set (go_range rng site m) = set m"
  by (rule mset_eq_setD [OF mset_go_range])

lemma keys_go_range [simp]: "map fst (go_range rng site m) = rng site (map fst m)"
  by (simp add: go_range_def comp_def)

lemma wf_go_range [simp]: "wf_map m \<Longrightarrow> wf_map (go_range rng site m)"
  by (simp add: wf_map_def)

lemma map_of_go_range [simp]: "wf_map m \<Longrightarrow> map_of (go_range rng site m) = map_of m"
  by (metis map_of_inject_set set_go_range wf_go_range wf_map_def)

lemma set_go_keys [simp]: "set (go_keys rng site m) = fst ` set m"
  by (simp add: go_keys_def)

lemma set_go_values [simp]: "wf_map m \<Longrightarrow> set (go_values rng site m) = snd ` set m"
  by (simp add: go_values_def)

lemma go_values_mem: "wf_map m \<Longrightarrow> map_of m k = Some v \<Longrightarrow> v \<in> set (go_values rng site m)"
  by (force dest: map_of_SomeD)

end

text \<open>Two concrete iteration orders: the order of insertion, and the sorted order.\<close>

definition insertion_order :: range_order where
  "insertion_order site ks = ks"

definition sorted_order :: range_order where
  "sorted_order site ks = sort ks"

interpretation insertion: map_iteration insertion_order
  by unfold_locales (simp add: insertion_order_def)

interpretation sorted_iter: map_iteration sorted_order
  by unfold_locales (simp add: sorted_order_def)

end
