(* ===== verification/Go_Strings.thy ===== *)
theory Go_Strings
  imports Prelude "HOL-Library.Product_Lexorder"
begin

text \<open>
  What the program uses of the Go packages \<^verbatim>\<open>strings\<close>, \<^verbatim>\<open>strconv\<close> and
  \<^verbatim>\<open>slices\<close>: splitting at a one-character separator, substring search, three-way
  comparison, \<^verbatim>\<open>Atoi\<close> with its 64-bit range checks, and the stable sort.
\<close>

section \<open>Package strings\<close>

fun strings_Split :: "char \<Rightarrow> string \<Rightarrow> string list" where
  "strings_Split sep [] = [[]]"
| "strings_Split sep (c # cs) =
     (if c = sep then [] # strings_Split sep cs
      else (case strings_Split sep cs of [] \<Rightarrow> [[c]] | w # ws \<Rightarrow> (c # w) # ws))"

fun strings_Contains :: "string \<Rightarrow> string \<Rightarrow> bool" where
  "strings_Contains [] pat = (pat = [])"
| "strings_Contains (c # cs) pat = (prefix pat (c # cs) \<or> strings_Contains cs pat)"

definition strings_Compare :: "string \<Rightarrow> string \<Rightarrow> int" where
  "strings_Compare a b = (if a = b then 0 else if a < b then -1 else 1)"

lemma strings_Split_nonempty [simp]: "strings_Split sep s \<noteq> []"
  by (induction s) (auto split: list.splits)

lemma strings_Split_no_sep: "sep \<notin> set s \<Longrightarrow> strings_Split sep s = [s]"
  by (induction s) auto

lemma strings_Split_append:
  "sep \<notin> set s \<Longrightarrow> strings_Split sep (s @ sep # t) = s # strings_Split sep t"
  by (induction s) auto

lemma strings_Split_single_iff: "length (strings_Split sep s) = 1 \<longleftrightarrow> sep \<notin> set s"
proof (induction s)
  case (Cons c cs)
  then show ?case
    by (cases "strings_Split sep cs") (auto dest: arg_cong [where f = length])
qed simp

lemma strings_Contains_append: "strings_Contains (s @ pat @ t) pat"
proof (induction s)
  case Nil
  have "prefix pat (pat @ t)" by simp
  then show ?case by (cases "pat @ t") auto
qed simp

section \<open>Package strconv\<close>

datatype num_error = ErrSyntax | ErrRange

definition digit_value :: "char \<Rightarrow> int option" where
  "digit_value c =
     (let n = of_char c :: int in if 48 \<le> n \<and> n \<le> 57 then Some (n - 48) else None)"

text \<open>
  \<^verbatim>\<open>strconv.ParseUint(s, 10, 64)\<close> on the digits: the accumulator is checked against
  the cutoff before it is multiplied, so an overflow is reported before later characters are
  looked at.
\<close>

fun parse_uint :: "int \<Rightarrow> string \<Rightarrow> num_error + int" where
  "parse_uint acc [] = Inr acc"
| "parse_uint acc (c # cs) =
     (case digit_value c of
        None \<Rightarrow> Inl ErrSyntax
      | Some d \<Rightarrow>
          if acc \<ge> 2 ^ 64 div 10 + 1 then Inl ErrRange
          else if acc * 10 + d > 2 ^ 64 - 1 then Inl ErrRange
          else parse_uint (acc * 10 + d) cs)"

text \<open>
  \<^verbatim>\<open>strconv.Atoi\<close> returns a value and an error: 0 on a syntax error, the nearest
  64-bit integer on a range error.
\<close>

definition strconv_Atoi :: "string \<Rightarrow> int \<times> num_error option" where
  "strconv_Atoi s =
     (let (neg, ds) = (case s of [] \<Rightarrow> (False, [])
                       | c # cs \<Rightarrow> if c = CHR ''-'' then (True, cs)
                                  else if c = CHR ''+'' then (False, cs) else (False, s))
      in if ds = [] then (0, Some ErrSyntax)
         else case parse_uint 0 ds of
           Inl ErrSyntax \<Rightarrow> (0, Some ErrSyntax)
         | Inl ErrRange \<Rightarrow> (if neg then - (2 ^ 63) else 2 ^ 63 - 1, Some ErrRange)
         | Inr un \<Rightarrow>
             if \<not> neg \<and> un \<ge> 2 ^ 63 then (2 ^ 63 - 1, Some ErrRange)
             else if neg \<and> un > 2 ^ 63 then (- (2 ^ 63), Some ErrRange)
             else (if neg then - un else un, None))"

lemma digit_value_nonneg: "digit_value c = Some d \<Longrightarrow> 0 \<le> d"
  by (auto simp: digit_value_def Let_def split: if_splits)

lemma parse_uint_nonneg: "0 \<le> acc \<Longrightarrow> parse_uint acc s = Inr n \<Longrightarrow> 0 \<le> n"
proof (induction s arbitrary: acc)
  case (Cons c s)
  then obtain d where d: "digit_value c = Some d" and r: "parse_uint (acc * 10 + d) s = Inr n"
    by (auto split: option.splits if_splits)
  have "0 \<le> acc * 10 + d" using Cons.prems(1) digit_value_nonneg [OF d] by simp
  then show ?case using r by (rule Cons.IH)
qed simp

lemma strconv_Atoi_range: "- (2 ^ 63) \<le> fst (strconv_Atoi s) \<and> fst (strconv_Atoi s) < 2 ^ 63"
proof -
  obtain neg ds where nd: "(case s of [] \<Rightarrow> (False, [])
      | c # cs \<Rightarrow> if c = CHR ''-'' then (True, cs) else if c = CHR ''+'' then (False, cs) else (False, s)) = (neg, ds)"
    by force
  have "0 \<le> n" if "parse_uint 0 ds = Inr n" for n
    using parse_uint_nonneg [OF order_refl that] .
  then show ?thesis
    unfolding strconv_Atoi_def nd Let_def
    by (cases "parse_uint 0 ds") (auto split: num_error.splits)
qed

text \<open>Decimal numerals in range are read back exactly.\<close>

definition digit_char :: "nat \<Rightarrow> char" where
  "digit_char n = char_of (48 + int n)"

fun nat_to_string :: "nat \<Rightarrow> string" where
  "nat_to_string n =
     (if n < 10 then [digit_char n] else nat_to_string (n div 10) @ [digit_char (n mod 10)])"

declare nat_to_string.simps [simp del]

lemma digit_value_digit_char [simp]: "n < 10 \<Longrightarrow> digit_value (digit_char n) = Some (int n)"
  by (simp add: digit_value_def digit_char_def Let_def)

lemma parse_uint_digit:
  assumes "d < 10" and "acc * 10 + int d < 2 ^ 64"
  shows "parse_uint acc [digit_char d] = Inr (acc * 10 + int d)"
proof -
  have "\<not> acc \<ge> 2 ^ 64 div 10 + 1" and "\<not> acc * 10 + int d > 2 ^ 64 - 1"
    using assms by simp_all
  then show ?thesis
    using assms(1) by (simp only: parse_uint.simps digit_value_digit_char option.case if_False)
qed

lemma parse_uint_append:
  "parse_uint acc (s @ t) = (case parse_uint acc s of Inl e \<Rightarrow> Inl e | Inr n \<Rightarrow> parse_uint n t)"
  by (induction s arbitrary: acc) (auto split: option.splits)

lemma parse_uint_nat_to_string: "n < 2 ^ 64 \<Longrightarrow> parse_uint 0 (nat_to_string n) = Inr (int n)"
proof (induction n rule: nat_to_string.induct)
  case (1 n)
  show ?case
  proof (cases "n < 10")
    case True
    then show ?thesis by (subst nat_to_string.simps) simp
  next
    case False
    with 1 have IH: "parse_uint 0 (nat_to_string (n div 10)) = Inr (int (n div 10))" by simp
    have n: "int (n div 10) * 10 + int (n mod 10) = int n" by presburger
    have "parse_uint (int (n div 10)) [digit_char (n mod 10)] = Inr (int n)"
      using parse_uint_digit [of "n mod 10" "int (n div 10)"] 1(2) unfolding n by simp
    then show ?thesis
      using False IH by (subst nat_to_string.simps) (simp add: parse_uint_append del: parse_uint.simps)
  qed
qed

lemma nat_to_string_digits: "c \<in> set (nat_to_string n) \<Longrightarrow> digit_value c \<noteq> None"
proof (induction n rule: nat_to_string.induct)
  case (1 n)
  then show ?case
    by (subst (asm) (2) nat_to_string.simps) (auto split: if_splits)
qed

lemma nat_to_string_nonempty [simp]: "nat_to_string n \<noteq> []"
  by (subst nat_to_string.simps) simp

lemma Atoi_nat_to_string: "n < 2 ^ 63 \<Longrightarrow> strconv_Atoi (nat_to_string n) = (int n, None)"
proof -
  assume n: "n < 2 ^ 63"
  have "digit_value (hd (nat_to_string n)) \<noteq> None"
    by (rule nat_to_string_digits [OF hd_in_set]) simp
  moreover have "digit_value (CHR ''-'') = None" "digit_value (CHR ''+'') = None"
    by (simp_all add: digit_value_def)
  ultimately show ?thesis
    using n parse_uint_nat_to_string [of n]
    by (cases "nat_to_string n") (auto simp: strconv_Atoi_def)
qed

section \<open>Package slices\<close>

text \<open>
  \<^verbatim>\<open>slices.SortStableFunc\<close> sorts blocks of twenty elements by insertion, each new
  element moving left while it compares less than its neighbour, and merges the blocks.  The
  model is that insertion sort: the reversed sorted prefix is the accumulator.  For at most
  twenty elements it is the library's algorithm; for more it agrees with it on every comparison
  that is a strict weak order, whose stable sort is unique (\<open>SortStableFunc_key\<close>).
\<close>

fun insert_left :: "('a \<Rightarrow> 'a \<Rightarrow> int) \<Rightarrow> 'a list \<Rightarrow> 'a \<Rightarrow> 'a list" where
  "insert_left cmp [] x = [x]"
| "insert_left cmp (y # ys) x = (if cmp x y < 0 then y # insert_left cmp ys x else x # y # ys)"

definition slices_SortStableFunc :: "('a \<Rightarrow> 'a \<Rightarrow> int) \<Rightarrow> 'a list \<Rightarrow> 'a list" where
  "slices_SortStableFunc cmp xs = rev (foldl (insert_left cmp) [] xs)"

lemma mset_insert_left [simp]: "mset (insert_left cmp ys x) = add_mset x (mset ys)"
  by (induction ys) auto

lemma mset_foldl_insert_left:
  "mset (foldl (insert_left cmp) acc xs) = mset acc + mset xs"
  by (induction xs arbitrary: acc) auto

lemma mset_SortStableFunc [simp]: "mset (slices_SortStableFunc cmp xs) = mset xs"
  by (simp add: slices_SortStableFunc_def mset_foldl_insert_left)

lemma set_SortStableFunc [simp]: "set (slices_SortStableFunc cmp xs) = set xs"
  by (rule mset_eq_setD) simp

lemma length_SortStableFunc [simp]: "length (slices_SortStableFunc cmp xs) = length xs"
  by (rule mset_eq_length) simp

text \<open>A comparison that comes from a key: the result is the library's \<open>sort_key\<close>.\<close>

lemma insert_left_sorted:
  fixes k :: "'a \<Rightarrow> 'k::linorder"
  assumes "\<And>y. y \<in> set ys \<Longrightarrow> cmp x y < 0 \<longleftrightarrow> k x < k y" and "sorted (map k (rev ys))"
  shows "sorted (map k (rev (insert_left cmp ys x)))"
  using assms
proof (induction ys)
  case (Cons y ys)
  have IH: "sorted (map k (rev (insert_left cmp ys x)))"
    using Cons by (auto simp: sorted_append)
  have s: "set (insert_left cmp ys x) = insert x (set ys)"
    using mset_insert_left [of cmp ys x] by (metis set_mset_mset set_mset_add_mset_insert)
  show ?case
    using Cons.prems IH by (auto simp: sorted_append s not_less intro: order_trans)
qed simp

lemma insert_left_filter:
  fixes k :: "'a \<Rightarrow> 'k::linorder"
  assumes "\<And>y. y \<in> set ys \<Longrightarrow> cmp x y < 0 \<longleftrightarrow> k x < k y"
  shows "filter (\<lambda>z. k z = v) (insert_left cmp ys x) = filter (\<lambda>z. k z = v) (x # ys)"
  using assms by (induction ys) auto

lemma foldl_insert_left_sorted:
  fixes k :: "'a \<Rightarrow> 'k::linorder"
  assumes "\<And>x y. x \<in> set xs \<Longrightarrow> y \<in> set acc \<union> set xs \<Longrightarrow> cmp x y < 0 \<longleftrightarrow> k x < k y"
    and "sorted (map k (rev acc))"
  shows "sorted (map k (rev (foldl (insert_left cmp) acc xs))) \<and>
    filter (\<lambda>z. k z = v) (foldl (insert_left cmp) acc xs) =
      filter (\<lambda>z. k z = v) (rev xs @ acc)"
  using assms
proof (induction xs arbitrary: acc)
  case (Cons x xs)
  have s: "set (insert_left cmp acc x) = insert x (set acc)"
    using mset_insert_left [of cmp acc x] by (metis set_mset_mset set_mset_add_mset_insert)
  have "sorted (map k (rev (insert_left cmp acc x)))"
    using Cons.prems by (intro insert_left_sorted) auto
  then have "sorted (map k (rev (foldl (insert_left cmp) (insert_left cmp acc x) xs))) \<and>
    filter (\<lambda>z. k z = v) (foldl (insert_left cmp) (insert_left cmp acc x) xs) =
      filter (\<lambda>z. k z = v) (rev xs @ insert_left cmp acc x)"
    using Cons.prems by (intro Cons.IH) (auto simp: s)
  moreover have "filter (\<lambda>z. k z = v) (insert_left cmp acc x) = filter (\<lambda>z. k z = v) (x # acc)"
    using Cons.prems by (intro insert_left_filter) auto
  ultimately show ?case by simp
qed simp

theorem SortStableFunc_key:
  fixes k :: "'a \<Rightarrow> 'k::linorder"
  assumes "\<And>x y. x \<in> set xs \<Longrightarrow> y \<in> set xs \<Longrightarrow> cmp x y < 0 \<longleftrightarrow> k x < k y"
  shows "slices_SortStableFunc cmp xs = sort_key k xs"
proof (rule properties_for_sort_key [symmetric])
  show "mset (slices_SortStableFunc cmp xs) = mset xs" by simp
  have *: "sorted (map k (rev (foldl (insert_left cmp) [] xs))) \<and>
      filter (\<lambda>z. k z = v) (foldl (insert_left cmp) [] xs) = filter (\<lambda>z. k z = v) (rev xs @ [])"
    for v
    using assms by (intro foldl_insert_left_sorted) auto
  show "sorted (map k (slices_SortStableFunc cmp xs))"
    using * by (simp add: slices_SortStableFunc_def)
  fix x
  assume "x \<in> set (slices_SortStableFunc cmp xs)"
  show "filter (\<lambda>y. k x = k y) (slices_SortStableFunc cmp xs) = filter (\<lambda>y. k x = k y) xs"
    using * [of "k x"]
    by (simp add: slices_SortStableFunc_def rev_filter [symmetric] eq_commute [of "k x"])
qed

end
