(* ===== verification/Go_JSON.thy ===== *)
theory Go_JSON
  imports Go_Strings
begin

text \<open>
  What the program uses of \<^verbatim>\<open>encoding/json\<close>: strings, and maps from strings to maps
  from strings to strings, in both directions.  Strings are the bytes of valid UTF-8 text, which
  is what the API server stores: multi-byte characters are copied, except U+2028 and U+2029,
  which the encoder escapes.  The decoder accepts every JSON text whose value has the asked type
  and reports an error for every other text.
\<close>

section \<open>Strings\<close>

abbreviation (input) backslash :: char where "backslash \<equiv> CHR 0x5C"
abbreviation (input) dquote :: char where "dquote \<equiv> CHR 0x22"

definition hex_digit :: "nat \<Rightarrow> char" where
  "hex_digit n = char_of (if n < 10 then 48 + n else 87 + n)"

definition hex_value :: "char \<Rightarrow> nat option" where
  "hex_value c =
     (let n = of_char c :: nat
      in if 48 \<le> n \<and> n \<le> 57 then Some (n - 48)
         else if 97 \<le> n \<and> n \<le> 102 then Some (n - 87)
         else if 65 \<le> n \<and> n \<le> 70 then Some (n - 55) else None)"

definition encode_byte :: "char \<Rightarrow> string" where
  "encode_byte c =
     (let n = of_char c :: nat
      in if c = dquote \<or> c = backslash then [backslash, c]
         else if n = 8 then backslash # ''b''
         else if n = 12 then backslash # ''f''
         else if n = 10 then backslash # ''n''
         else if n = 13 then backslash # ''r''
         else if n = 9 then backslash # ''t''
         else if n < 32 \<or> c = CHR ''<'' \<or> c = CHR ''>'' \<or> c = CHR ''&''
           then backslash # ''u00'' @ [hex_digit (n div 16), hex_digit (n mod 16)]
         else [c])"

fun encode_chars :: "string \<Rightarrow> string" where
  "encode_chars [] = []"
| "encode_chars (c # cs) =
     (if c = CHR 0xE2 \<and> take 2 cs = [CHR 0x80, CHR 0xA8]
        then backslash # ''u2028'' @ encode_chars (drop 2 cs)
      else if c = CHR 0xE2 \<and> take 2 cs = [CHR 0x80, CHR 0xA9]
        then backslash # ''u2029'' @ encode_chars (drop 2 cs)
      else encode_byte c @ encode_chars cs)"

definition json_Marshal_string :: "string \<Rightarrow> string" where
  "json_Marshal_string s = dquote # encode_chars s @ [dquote]"

definition utf8_encode :: "nat \<Rightarrow> string" where
  "utf8_encode n =
     (if n < 128 then [char_of n]
      else if n < 2048 then [char_of (192 + n div 64), char_of (128 + n mod 64)]
      else if n < 65536
        then [char_of (224 + n div 4096), char_of (128 + n div 64 mod 64), char_of (128 + n mod 64)]
      else [char_of (240 + n div 262144), char_of (128 + n div 4096 mod 64),
            char_of (128 + n div 64 mod 64), char_of (128 + n mod 64)])"

fun getu4 :: "string \<Rightarrow> nat option" where
  "getu4 (b # u # a1 # a2 # a3 # a4 # r) =
     (if b = backslash \<and> u = CHR ''u''
      then (case (hex_value a1, hex_value a2, hex_value a3, hex_value a4) of
              (Some x1, Some x2, Some x3, Some x4) \<Rightarrow> Some (4096 * x1 + 256 * x2 + 16 * x3 + x4)
            | _ \<Rightarrow> None)
      else None)"
| "getu4 _ = None"

definition simple_escape :: "char \<Rightarrow> char option" where
  "simple_escape c =
     (if c = dquote \<or> c = backslash \<or> c = CHR ''/'' then Some c
      else if c = CHR ''b'' then Some (char_of (8::nat))
      else if c = CHR ''f'' then Some (char_of (12::nat))
      else if c = CHR ''n'' then Some (char_of (10::nat))
      else if c = CHR ''r'' then Some (char_of (13::nat))
      else if c = CHR ''t'' then Some (char_of (9::nat)) else None)"

text \<open>
  Reading a string literal after its opening quote: the decoded text and what follows the
  closing quote.  A lone surrogate becomes U+FFFD, a surrogate pair one character.
\<close>

definition surrogate_pair :: "nat \<Rightarrow> string \<Rightarrow> nat option" where
  "surrogate_pair u r =
     (case getu4 r of
        None \<Rightarrow> None
      | Some v \<Rightarrow> if 0xD800 \<le> u \<and> u < 0xDC00 \<and> 0xDC00 \<le> v \<and> v < 0xE000
                  then Some (1024 * (u - 0xD800) + (v - 0xDC00) + 0x10000) else None)"

function read_string :: "string \<Rightarrow> (string \<times> string) option" where
  "read_string [] = None"
| "read_string (c # cs) =
     (if c = dquote then Some ([], cs)
      else if c = backslash then
        (case getu4 (c # cs) of
           Some u \<Rightarrow>
             if 0xD800 \<le> u \<and> u < 0xE000 then
               (case surrogate_pair u (drop 5 cs) of
                  Some v \<Rightarrow> map_option (apfst (append (utf8_encode v))) (read_string (drop 11 cs))
                | None \<Rightarrow> map_option (apfst (append (utf8_encode 0xFFFD))) (read_string (drop 5 cs)))
             else map_option (apfst (append (utf8_encode u))) (read_string (drop 5 cs))
         | None \<Rightarrow>
             (case cs of [] \<Rightarrow> None
              | e # r \<Rightarrow> (case simple_escape e of None \<Rightarrow> None
                          | Some x \<Rightarrow> map_option (apfst (Cons x)) (read_string r))))
      else if (of_char c :: nat) < 32 then None
      else map_option (apfst (Cons c)) (read_string cs))"
  by pat_completeness auto
termination
  by (relation "measure length") auto

declare read_string.simps [simp del]

lemma read_string_dquote [simp]: "read_string (dquote # r) = Some ([], r)"
  by (simp add: read_string.simps)

lemma read_string_shorter: "read_string s = Some (t, r) \<Longrightarrow> length r < length s"
proof (induction s arbitrary: t r rule: length_induct)
  case (1 s)
  show ?case
  proof (cases s)
    case Nil
    with 1(2) show ?thesis by (simp add: read_string.simps)
  next
    case (Cons c cs)
    have gen: "length r' < length s'"
      if "read_string s' = Some (t', r')" "length s' \<le> length cs" for s' t' r'
      using 1(1) [rule_format, of s' t' r'] that Cons by simp
    have len: "length r' < n \<Longrightarrow> n \<le> m \<Longrightarrow> length r' < Suc m" for r' :: string and n m by simp
    show ?thesis
      using 1(2) unfolding Cons
      by (subst (asm) read_string.simps(2))
        (auto split: if_splits option.splits list.splits dest!: gen intro: len)
  qed
qed

lemma read_string_plain:
  "c \<noteq> dquote \<Longrightarrow> c \<noteq> backslash \<Longrightarrow> 32 \<le> (of_char c :: nat) \<Longrightarrow>
   read_string (c # cs) = map_option (apfst (Cons c)) (read_string cs)"
  by (subst read_string.simps) simp

lemma getu4_not_u [simp]: "e \<noteq> CHR ''u'' \<Longrightarrow> getu4 (b # e # r) = None"
  by (cases "b # e # r" rule: getu4.cases) auto

lemma read_string_escape:
  "simple_escape e = Some x \<Longrightarrow>
   read_string (backslash # e # r) = map_option (apfst (Cons x)) (read_string r)"
proof -
  assume x: "simple_escape e = Some x"
  then have "e \<noteq> CHR ''u''" by (auto simp: simple_escape_def)
  with x show ?thesis by (subst read_string.simps) simp
qed

lemma read_string_u:
  "getu4 (backslash # cs) = Some u \<Longrightarrow> u < 0xD800 \<Longrightarrow>
   read_string (backslash # cs) = map_option (apfst (append (utf8_encode u))) (read_string (drop 5 cs))"
  by (subst read_string.simps) simp

lemma hex_value_hex_digit [simp]: "n < 16 \<Longrightarrow> hex_value (hex_digit n) = Some n"
  by (auto simp: hex_value_def hex_digit_def Let_def)

lemma read_string_u00:
  assumes "n < 128"
  shows "read_string (backslash # ''u00'' @ [hex_digit (n div 16), hex_digit (n mod 16)] @ r) =
    map_option (apfst (Cons (char_of n))) (read_string r)"
proof -
  have z: "hex_value (CHR ''0'') = Some 0" by (simp add: hex_value_def)
  have "getu4 (backslash # ''u00'' @ [hex_digit (n div 16), hex_digit (n mod 16)] @ r) = Some n"
    using assms z by simp
  from read_string_u [OF this] assms show ?thesis
    by (simp add: utf8_encode_def append_Cons [abs_def])
qed

lemma read_string_encode_byte:
  "read_string (encode_byte c @ r) = map_option (apfst (Cons c)) (read_string r)"
proof -
  define n where "n = (of_char c :: nat)"
  have c: "char_of n = c" by (simp add: n_def)
  have esc: "read_string (backslash # e # r) = map_option (apfst (Cons c)) (read_string r)"
    if "simple_escape e = Some c" for e
    using that by (rule read_string_escape)
  have e: "n = 8 \<Longrightarrow> simple_escape (CHR ''b'') = Some c" "n = 12 \<Longrightarrow> simple_escape (CHR ''f'') = Some c"
    "n = 10 \<Longrightarrow> simple_escape (CHR ''n'') = Some c" "n = 13 \<Longrightarrow> simple_escape (CHR ''r'') = Some c"
    "n = 9 \<Longrightarrow> simple_escape (CHR ''t'') = Some c"
    "c = dquote \<or> c = backslash \<Longrightarrow> simple_escape c = Some c"
    using c by (auto simp: simple_escape_def)
  have u: "read_string (backslash # ''u00'' @ [hex_digit (n div 16), hex_digit (n mod 16)] @ r) =
      map_option (apfst (Cons c)) (read_string r)"
    if "n < 32 \<or> c = CHR ''<'' \<or> c = CHR ''>'' \<or> c = CHR ''&''"
  proof -
    have "n < 128" using that by (auto simp: n_def)
    from read_string_u00 [OF this] show ?thesis by (simp add: c)
  qed
  have p: "read_string (c # r) = map_option (apfst (Cons c)) (read_string r)"
    if "c \<noteq> dquote" "c \<noteq> backslash" "\<not> n < 32"
    using that by (intro read_string_plain) (simp_all add: n_def)
  show ?thesis
    using esc e u p by (simp add: encode_byte_def Let_def n_def [symmetric])
qed

lemma read_string_u2028:
  assumes "x = CHR ''8'' \<and> y = CHR 0xA8 \<or> x = CHR ''9'' \<and> y = CHR 0xA9"
  shows "read_string (backslash # ''u202'' @ x # r) =
    map_option (apfst (append [CHR 0xE2, CHR 0x80, y])) (read_string r)"
proof -
  have u8: "utf8_encode 0x2028 = [CHR 0xE2, CHR 0x80, CHR 0xA8]"
    "utf8_encode 0x2029 = [CHR 0xE2, CHR 0x80, CHR 0xA9]"
    by (simp_all add: utf8_encode_def char_of_eq_iff)
  define u :: nat where "u = (if x = CHR ''8'' then 0x2028 else 0x2029)"
  have "getu4 (backslash # ''u202'' @ x # r) = Some u" and "utf8_encode u = [CHR 0xE2, CHR 0x80, y]"
    using assms u8 by (auto simp: hex_value_def u_def)
  from read_string_u [OF this(1)] this(2) show ?thesis by (simp add: u_def)
qed

theorem read_string_encode_chars:
  "read_string (encode_chars s @ r) = map_option (apfst (append s)) (read_string r)"
proof (induction s rule: encode_chars.induct)
  case 1
  then show ?case by (simp add: apfst_def map_prod_def option.map_ident)
next
  case (2 c cs)
  show ?case
  proof (cases "c = CHR 0xE2 \<and> (take 2 cs = [CHR 0x80, CHR 0xA8] \<or> take 2 cs = [CHR 0x80, CHR 0xA9])")
    case True
    then obtain x y where xy: "x = CHR ''8'' \<and> y = CHR 0xA8 \<or> x = CHR ''9'' \<and> y = CHR 0xA9"
        and t: "take 2 cs = [CHR 0x80, y]" by auto
    then have cs: "cs = CHR 0x80 # y # drop 2 cs"
      by (metis append_Cons append_Nil append_take_drop_id)
    have "encode_chars (c # cs) = backslash # ''u202'' @ x # encode_chars (drop 2 cs)"
      using True xy t by auto
    moreover have "read_string (encode_chars (drop 2 cs) @ r) =
        map_option (apfst (append (drop 2 cs))) (read_string r)"
      using True 2(1,2) by blast
    ultimately have "read_string (encode_chars (c # cs) @ r) =
        map_option (apfst (append (CHR 0xE2 # CHR 0x80 # y # drop 2 cs))) (read_string r)"
      using read_string_u2028 [OF xy, of "encode_chars (drop 2 cs) @ r"]
      by (simp add: option.map_comp comp_def apfst_def map_prod_def split_def)
    moreover have "CHR 0xE2 # CHR 0x80 # y # drop 2 cs = c # cs"
      using True cs by simp
    ultimately show ?thesis by (simp only:)
  next
    case False
    then have "read_string (encode_chars cs @ r) = map_option (apfst (append cs)) (read_string r)"
      using 2(3) by blast
    with False show ?thesis
      by (auto simp: read_string_encode_byte option.map_comp comp_def apfst_def map_prod_def split_def)
  qed
qed

section \<open>Texts\<close>

text \<open>
  A text is cut into tokens.  Numbers, \<^verbatim>\<open>true\<close>, \<^verbatim>\<open>false\<close> and arrays have no
  token: a text with one of them outside a string literal has no value of the two types the
  program decodes, so both a syntax error and a type error end in \<open>None\<close>.
\<close>

datatype tok = TLBrace | TRBrace | TColon | TComma | TNull | TStr string

definition json_space :: "char \<Rightarrow> bool" where
  "json_space c \<longleftrightarrow> (of_char c :: nat) \<in> {32, 9, 10, 13}"

function lex :: "string \<Rightarrow> tok list option" where
  "lex [] = Some []"
| "lex (c # cs) =
     (if json_space c then lex cs
      else if c = CHR ''{'' then map_option (Cons TLBrace) (lex cs)
      else if c = CHR ''}'' then map_option (Cons TRBrace) (lex cs)
      else if c = CHR '':'' then map_option (Cons TColon) (lex cs)
      else if c = CHR '','' then map_option (Cons TComma) (lex cs)
      else if c = dquote then
        (case read_string cs of None \<Rightarrow> None
         | Some (s, r) \<Rightarrow> map_option (Cons (TStr s)) (lex r))
      else if c = CHR ''n'' \<and> take 3 cs = ''ull'' then map_option (Cons TNull) (lex (drop 3 cs))
      else None)"
  by pat_completeness auto
termination
  by (relation "measure length") (auto dest: read_string_shorter)

declare lex.simps [simp del]

lemma lex_Nil [simp]: "lex [] = Some []"
  by (simp add: lex.simps)

lemma lex_punct [simp]:
  "lex (CHR ''{'' # r) = map_option (Cons TLBrace) (lex r)"
  "lex (CHR ''}'' # r) = map_option (Cons TRBrace) (lex r)"
  "lex (CHR '':'' # r) = map_option (Cons TColon) (lex r)"
  "lex (CHR '','' # r) = map_option (Cons TComma) (lex r)"
  by (subst lex.simps; simp add: json_space_def)+

lemma lex_null [simp]: "lex (CHR ''n'' # CHR ''u'' # CHR ''l'' # CHR ''l'' # r) = map_option (Cons TNull) (lex r)"
  by (subst lex.simps) (simp add: json_space_def)

lemma lex_string [simp]: "lex (json_Marshal_string s @ r) = map_option (Cons (TStr s)) (lex r)"
proof -
  have "read_string (encode_chars s @ dquote # r) = Some (s, r)"
    by (simp add: read_string_encode_chars)
  then show ?thesis
    unfolding json_Marshal_string_def by (simp, subst lex.simps) (simp add: json_space_def)
qed

text \<open>
  \<^verbatim>\<open>json.Unmarshal(raw, &s)\<close> for a fresh string \<^verbatim>\<open>s\<close>; \<^verbatim>\<open>null\<close>
  leaves it empty.
\<close>

definition json_Unmarshal_string :: "string \<Rightarrow> string option" where
  "json_Unmarshal_string raw =
     (case lex raw of Some [TStr s] \<Rightarrow> Some s | Some [TNull] \<Rightarrow> Some [] | _ \<Rightarrow> None)"

lemma json_string_roundtrip [simp]: "json_Unmarshal_string (json_Marshal_string s) = Some s"
  using lex_string [of s "[]"] by (simp add: json_Unmarshal_string_def)

section \<open>Maps of maps of strings\<close>

text \<open>
  \<^verbatim>\<open>map[string]map[string]string\<close>: the inner map may be nil, which is written
  \<^verbatim>\<open>null\<close>.  The encoder writes the keys in increasing order.
\<close>

type_synonym nilmap = "string gomap option"

fun json_object :: "(string \<times> string) list \<Rightarrow> string" where
  "json_object [] = ''{}''"
| "json_object ((k, v) # kvs) =
     CHR ''{'' # json_Marshal_string k @ CHR '':'' # v @
       concat (map (\<lambda>(k', v'). CHR '','' # json_Marshal_string k' @ CHR '':'' # v') kvs) @ ''}''"

definition json_Marshal_inner :: "nilmap \<Rightarrow> string" where
  "json_Marshal_inner m =
     (case m of None \<Rightarrow> ''null''
      | Some al \<Rightarrow> json_object (map (map_prod id json_Marshal_string) (sort_key fst al)))"

definition json_Marshal_outer :: "nilmap gomap \<Rightarrow> string" where
  "json_Marshal_outer m = json_object (map (map_prod id json_Marshal_inner) (sort_key fst m))"

definition string_value :: "tok \<Rightarrow> string option" where
  "string_value t = (case t of TStr s \<Rightarrow> Some s | TNull \<Rightarrow> Some [] | _ \<Rightarrow> None)"

fun inner_members :: "tok list \<Rightarrow> ((string \<times> string) list \<times> tok list) option" where
  "inner_members ts =
     (case ts of
        TStr k # TColon # t # sep # rest \<Rightarrow>
          (case string_value t of None \<Rightarrow> None
           | Some v \<Rightarrow>
               if sep = TComma then map_option (apfst (Cons (k, v))) (inner_members rest)
               else if sep = TRBrace then Some ([(k, v)], rest) else None)
      | _ \<Rightarrow> None)"

declare inner_members.simps [simp del]

text \<open>Later members overwrite earlier members of the same key.\<close>

definition of_members :: "(string \<times> 'v) list \<Rightarrow> 'v gomap" where
  "of_members kvs = foldl (\<lambda>m (k, v). AList.update k v m) [] kvs"

definition inner_value :: "tok list \<Rightarrow> (nilmap \<times> tok list) option" where
  "inner_value ts =
     (case ts of
        TNull # rest \<Rightarrow> Some (None, rest)
      | TLBrace # TRBrace # rest \<Rightarrow> Some (Some [], rest)
      | TLBrace # rest \<Rightarrow> map_option (apfst (Some \<circ> of_members)) (inner_members rest)
      | _ \<Rightarrow> None)"

lemma inner_members_shorter: "inner_members ts = Some (m, r) \<Longrightarrow> length r < length ts"
proof (induction ts arbitrary: m r rule: inner_members.induct)
  case (1 ts)
  from 1(2) show ?case
    by (subst (asm) inner_members.simps)
      (auto split: list.splits tok.splits option.splits if_splits dest!: 1(1))
qed

lemma inner_value_shorter: "inner_value ts = Some (m, r) \<Longrightarrow> length r < length ts"
  by (auto simp: inner_value_def split: list.splits tok.splits dest!: inner_members_shorter)

function outer_members :: "tok list \<Rightarrow> ((string \<times> nilmap) list \<times> tok list) option" where
  "outer_members ts =
     (case ts of
        TStr k # TColon # rest \<Rightarrow>
          (case inner_value rest of
             Some (m, TComma # rest') \<Rightarrow> map_option (apfst (Cons (k, m))) (outer_members rest')
           | Some (m, TRBrace # rest') \<Rightarrow> Some ([(k, m)], rest')
           | _ \<Rightarrow> None)
      | _ \<Rightarrow> None)"
  by pat_completeness auto
termination
  by (relation "measure length") (auto dest!: inner_value_shorter)

declare outer_members.simps [simp del]

text \<open>
  Decoding into a non-nil map.  A \<^verbatim>\<open>null\<close> text is accepted and adds nothing to it.
\<close>

definition outer_value :: "tok list \<Rightarrow> nilmap gomap option" where
  "outer_value ts =
     (if ts = [TNull] \<or> ts = [TLBrace, TRBrace] then Some []
      else case ts of
        TLBrace # rest \<Rightarrow>
          (case outer_members rest of None \<Rightarrow> None
           | Some (kvs, r) \<Rightarrow> if r = [] then Some (of_members kvs) else None)
      | _ \<Rightarrow> None)"

definition json_Unmarshal_outer :: "string \<Rightarrow> nilmap gomap option" where
  "json_Unmarshal_outer raw = (case lex raw of None \<Rightarrow> None | Some ts \<Rightarrow> outer_value ts)"

section \<open>Decoding what was encoded\<close>

lemma foldl_update_distinct:
  "distinct (map fst (acc @ kvs)) \<Longrightarrow> foldl (\<lambda>m (k, v). AList.update k v m) acc kvs = acc @ kvs"
proof (induction kvs arbitrary: acc)
  case (Cons p kvs)
  obtain k v where p: "p = (k, v)" by force
  have "AList.update k v acc = acc @ [(k, v)]"
    using Cons.prems p by (induction acc) auto
  moreover have "foldl (\<lambda>m (k, v). AList.update k v m) (acc @ [(k, v)]) kvs = (acc @ [(k, v)]) @ kvs"
    using Cons.prems p by (intro Cons.IH) simp
  ultimately show ?case using p by simp
qed simp

lemma of_members_distinct: "distinct (map fst kvs) \<Longrightarrow> of_members kvs = kvs"
  using foldl_update_distinct [of "[]" kvs] by (simp add: of_members_def)

lemma wf_foldl_update: "wf_map acc \<Longrightarrow> wf_map (foldl (\<lambda>m (k, v). AList.update k v m) acc kvs)"
  by (induction kvs arbitrary: acc) auto

lemma wf_of_members [simp]: "wf_map (of_members kvs)"
  by (simp add: of_members_def wf_foldl_update)

definition tail_tokens :: "('v \<Rightarrow> tok list) \<Rightarrow> (string \<times> 'v) list \<Rightarrow> tok list" where
  "tail_tokens tk kvs = concat (map (\<lambda>(k, v). TComma # TStr k # TColon # tk v) kvs) @ [TRBrace]"

fun object_tokens :: "('v \<Rightarrow> tok list) \<Rightarrow> (string \<times> 'v) list \<Rightarrow> tok list" where
  "object_tokens tk [] = [TLBrace, TRBrace]"
| "object_tokens tk ((k, v) # kvs) = TLBrace # TStr k # TColon # tk v @ tail_tokens tk kvs"

lemma tail_tokens_simps [simp]:
  "tail_tokens tk [] = [TRBrace]"
  "tail_tokens tk ((k, v) # kvs) = TComma # TStr k # TColon # tk v @ tail_tokens tk kvs"
  by (simp_all add: tail_tokens_def)

lemma map_option_append_comp [simp]:
  "map_option (Cons t) (map_option (append ts) x) = map_option (append (t # ts)) x"
  "map_option (append us) (map_option (append ts) x) = map_option (append (us @ ts)) x"
  "map_option (append us) (map_option (Cons t) x) = map_option (append (us @ [t])) x"
  by (cases x; simp)+

lemma lex_object_tail:
  assumes "\<And>v r. v \<in> snd ` set kvs \<Longrightarrow> lex (enc v @ r) = map_option (append (tk v)) (lex r)"
  shows "lex (concat (map (\<lambda>(k', v'). CHR '','' # json_Marshal_string k' @ CHR '':'' # v')
      (map (map_prod id enc) kvs)) @ CHR ''}'' # r) = map_option (append (tail_tokens tk kvs)) (lex r)"
  using assms
proof (induction kvs)
  case (Cons p kvs)
  obtain k v where p: "p = (k, v)" by force
  with Cons show ?case by (cases "lex r") simp_all
qed (cases "lex r"; simp)

lemma lex_object:
  assumes "\<And>v r. v \<in> snd ` set kvs \<Longrightarrow> lex (enc v @ r) = map_option (append (tk v)) (lex r)"
  shows "lex (json_object (map (map_prod id enc) kvs) @ r) = map_option (append (object_tokens tk kvs)) (lex r)"
proof (cases kvs)
  case Nil
  then show ?thesis by (cases "lex r") simp_all
next
  case (Cons p kvs')
  obtain k v where p: "p = (k, v)" by force
  have "lex (concat (map (\<lambda>(k', v'). CHR '','' # json_Marshal_string k' @ CHR '':'' # v')
      (map (map_prod id enc) kvs')) @ CHR ''}'' # r) = map_option (append (tail_tokens tk kvs')) (lex r)"
    using assms Cons by (intro lex_object_tail) auto
  moreover have "lex (enc v @ r') = map_option (append (tk v)) (lex r')" for r'
    using assms Cons p by auto
  ultimately show ?thesis
    using Cons p by (cases "lex r") simp_all
qed

definition inner_tokens :: "nilmap \<Rightarrow> tok list" where
  "inner_tokens m =
     (case m of None \<Rightarrow> [TNull] | Some al \<Rightarrow> object_tokens (\<lambda>v. [TStr v]) (sort_key fst al))"

lemma lex_inner: "lex (json_Marshal_inner m @ r) = map_option (append (inner_tokens m)) (lex r)"
proof (cases m)
  case None
  then show ?thesis by (cases "lex r") (simp_all add: json_Marshal_inner_def inner_tokens_def)
next
  case (Some al)
  have "lex (json_object (map (map_prod id json_Marshal_string) (sort_key fst al)) @ r) =
      map_option (append (object_tokens (\<lambda>v. [TStr v]) (sort_key fst al))) (lex r)"
    by (rule lex_object) (auto simp: append_Cons [abs_def])
  then show ?thesis using Some by (simp add: json_Marshal_inner_def inner_tokens_def)
qed

lemma inner_members_tokens:
  "inner_members (TStr k # TColon # TStr v # tail_tokens (\<lambda>v. [TStr v]) kvs @ r) = Some ((k, v) # kvs, r)"
proof (induction kvs arbitrary: k v)
  case Nil
  then show ?case by (subst inner_members.simps) (simp add: string_value_def)
next
  case (Cons p kvs)
  obtain k' v' where "p = (k', v')" by force
  with Cons show ?case by (subst inner_members.simps) (simp add: string_value_def)
qed

lemma inner_value_tokens:
  assumes "case m of None \<Rightarrow> True | Some al \<Rightarrow> wf_map al"
  shows "inner_value (inner_tokens m @ r) = Some (map_option (sort_key fst) m, r)"
proof (cases m)
  case None
  then show ?thesis by (simp add: inner_value_def inner_tokens_def)
next
  case (Some al)
  have d: "distinct (map fst (sort_key fst al))"
    using assms Some by (simp add: wf_map_def distinct_map inj_on_def)
  show ?thesis
  proof (cases "sort_key fst al")
    case Nil
    with Some show ?thesis by (simp add: inner_value_def inner_tokens_def)
  next
    case (Cons p kvs)
    obtain k v where p: "p = (k, v)" by force
    with Some Cons d show ?thesis
      using inner_members_tokens [of k v kvs r] of_members_distinct [OF d]
      by (simp add: inner_value_def inner_tokens_def)
  qed
qed

definition wf_outer :: "nilmap gomap \<Rightarrow> bool" where
  "wf_outer m \<longleftrightarrow> wf_map m \<and> (\<forall>(k, v) \<in> set m. case v of None \<Rightarrow> True | Some al \<Rightarrow> wf_map al)"

definition normal_outer :: "nilmap gomap \<Rightarrow> nilmap gomap" where
  "normal_outer m = map (map_prod id (map_option (sort_key fst))) (sort_key fst m)"

lemma outer_members_tokens:
  assumes "\<forall>(k, v) \<in> set ((k, m) # kvs). case v of None \<Rightarrow> True | Some al \<Rightarrow> wf_map al"
  shows "outer_members (TStr k # TColon # inner_tokens m @ tail_tokens inner_tokens kvs) =
    Some (map (map_prod id (map_option (sort_key fst))) ((k, m) # kvs), [])"
  using assms
proof (induction kvs arbitrary: k m)
  case Nil
  then show ?case by (subst outer_members.simps) (simp add: inner_value_tokens)
next
  case (Cons p kvs)
  obtain k' m' where p: "p = (k', m')" by force
  with Cons show ?case
    by (subst outer_members.simps) (simp add: inner_value_tokens id_def)
qed

theorem json_outer_roundtrip:
  assumes "wf_outer m"
  shows "json_Unmarshal_outer (json_Marshal_outer m) = Some (normal_outer m)"
proof -
  let ?s = "sort_key fst m"
  have wf: "\<forall>(k, v) \<in> set ?s. case v of None \<Rightarrow> True | Some al \<Rightarrow> wf_map al"
    using assms by (simp add: wf_outer_def)
  have "distinct (map fst ?s)"
    using assms by (simp add: wf_outer_def wf_map_def distinct_map inj_on_def)
  then have d: "distinct (map fst (normal_outer m))"
    by (simp add: normal_outer_def comp_def map_prod_def split_def)
  have l: "lex (json_Marshal_outer m) = Some (object_tokens inner_tokens ?s)"
    using lex_object [of ?s json_Marshal_inner inner_tokens "[]"]
    by (simp add: lex_inner json_Marshal_outer_def)
  show ?thesis
  proof (cases ?s)
    case Nil
    with l show ?thesis by (simp add: json_Unmarshal_outer_def outer_value_def normal_outer_def)
  next
    case (Cons p kvs)
    obtain k v where p: "p = (k, v)" by force
    have "outer_members (TStr k # TColon # inner_tokens v @ tail_tokens inner_tokens kvs) =
        Some (normal_outer m, [])"
      using outer_members_tokens [of k v kvs] wf Cons p by (simp add: normal_outer_def)
    with l Cons p show ?thesis
      using of_members_distinct [OF d] by (simp add: json_Unmarshal_outer_def outer_value_def)
  qed
qed

text \<open>Whatever is decoded has distinct keys at both levels.\<close>

lemma set_update_subset: "set (AList.update k v m) \<subseteq> insert (k, v) (set m)"
  by (induction m) auto

lemma set_foldl_update:
  "set (foldl (\<lambda>m (k, v). AList.update k v m) acc kvs) \<subseteq> set acc \<union> set kvs"
proof (induction kvs arbitrary: acc)
  case (Cons p kvs)
  then show ?case using set_update_subset [of "fst p" "snd p" acc] by (fastforce simp: split_def)
qed simp

lemma set_of_members: "set (of_members kvs) \<subseteq> set kvs"
  using set_foldl_update [of "[]" kvs] by (simp add: of_members_def)

abbreviation wf_nilmap :: "nilmap \<Rightarrow> bool" where
  "wf_nilmap v \<equiv> (case v of None \<Rightarrow> True | Some al \<Rightarrow> wf_map al)"

lemma inner_value_wf: "inner_value ts = Some (m, r) \<Longrightarrow> wf_nilmap m"
  by (auto simp: inner_value_def split: list.splits tok.splits)

lemma inner_value_wf_Some: "inner_value ts = Some (Some m, r) \<Longrightarrow> wf_map m"
  using inner_value_wf [of ts "Some m" r] by simp

lemma outer_members_wf: "outer_members ts = Some (kvs, r) \<Longrightarrow> \<forall>(k, v) \<in> set kvs. wf_nilmap v"
proof (induction ts arbitrary: kvs r rule: outer_members.induct)
  case (1 ts)
  from 1(2) show ?case
    by (subst (asm) outer_members.simps)
      (auto split: list.splits tok.splits option.splits prod.splits dest!: 1(1) dest: inner_value_wf_Some)
qed

lemma wf_Unmarshal_outer: "json_Unmarshal_outer raw = Some a \<Longrightarrow> wf_outer a"
  using set_of_members
  by (fastforce simp: json_Unmarshal_outer_def outer_value_def wf_outer_def
      split: option.splits if_splits list.splits tok.splits prod.splits dest: outer_members_wf)

lemma map_of_sort_key: "wf_map m \<Longrightarrow> map_of (sort_key fst m) = map_of m"
  by (rule map_of_inject_set [THEN iffD2]) (simp_all add: wf_map_def distinct_map inj_on_def)

end
