(* ===== verification/API_Types.thy ===== *)
theory API_Types
  imports Go_JSON
begin

text \<open>
  The data of the program: the configuration types of \<^verbatim>\<open>api/ipam/v1alpha1\<close> with their
  methods, and the parts of the Kubernetes resources \<^verbatim>\<open>Cluster\<close> and
  \<^verbatim>\<open>ClusterConfig\<close> the program reads or writes.  Go values are HOL values here;
  \<^theory_text>\<open>Deep_Copy\<close> has the same types in a memory, with the generated deep-copy functions.
\<close>

section \<open>Constants\<close>

text \<open>\<^verbatim>\<open>api/ipam/v1alpha1/constants.go\<close> and \<^verbatim>\<open>groupversion_info.go\<close>; the label
  and annotation keys shared with other operators are the ones \<^verbatim>\<open>docs/\<close> lists.\<close>

definition GroupName :: string where
  "GroupName = ''gardener.clusters.openmcp.cloud''"

definition ManagedPurposeLabelValue :: string where
  "ManagedPurposeLabelValue = ''gardener-ipam''"

definition CIDRManagementFinalizer :: string where
  "CIDRManagementFinalizer = ''ipam.'' @ GroupName @ ''/cidr-management''"

definition ClusterTargetLabel :: string where
  "ClusterTargetLabel = ''ipam.'' @ GroupName @ ''/cluster''"

definition InjectionRuleLabel :: string where
  "InjectionRuleLabel = ''ipam.'' @ GroupName @ ''/injection-rule''"

definition AppliedRulesAnnotationKey :: string where
  "AppliedRulesAnnotationKey = ''ipam.'' @ GroupName @ ''/applied-injection-rules''"

definition ManagedByLabel :: string where
  "ManagedByLabel = ''openmcp.cloud/managed-by''"

definition ManagedPurposeLabel :: string where
  "ManagedPurposeLabel = ''openmcp.cloud/managed-purpose''"

definition EnvironmentLabel :: string where
  "EnvironmentLabel = ''openmcp.cloud/environment''"

definition OperationAnnotation :: string where
  "OperationAnnotation = ''openmcp.cloud/operation''"

definition OperationAnnotationValueIgnore :: string where
  "OperationAnnotationValueIgnore = ''ignore''"

definition OperationAnnotationValueReconcile :: string where
  "OperationAnnotationValueReconcile = ''reconcile''"

lemmas label_defs = GroupName_def ClusterTargetLabel_def InjectionRuleLabel_def ManagedByLabel_def
  ManagedPurposeLabel_def EnvironmentLabel_def

section \<open>Kubernetes resources\<close>

record ownerReference =
  or_APIVersion :: string
  or_Kind :: string
  or_Name :: string
  or_UID :: string
  or_Controller :: "bool option"
  or_BlockOwnerDeletion :: "bool option"

record objectMeta =
  Name :: string
  Namespace :: string
  UID :: string
  Labels :: "string gomap"
  Annotations :: "string gomap"
  Finalizers :: "string list"
  OwnerReferences :: "ownerReference list"
  DeletionTimestamp :: "int option"

text \<open>\<open>ClusterConfigs\<close> holds the names of the referenced ClusterConfigs.\<close>

record cluster = objectMeta +
  Purposes :: "string list"
  ClusterConfigs :: "string list"

record jsonPatch =
  Op :: string
  PatchPath :: string
  PatchValue :: "string option"

definition ADD :: string where
  "ADD = ''add''"

record clusterConfig = objectMeta +
  PatchOptions :: "bool option option"
  Patches :: "jsonPatch list"

section \<open>The configuration\<close>

text \<open>
  The selector of a rule belongs to another repository; only the outcome of its
  \<^verbatim>\<open>Matches\<close> and \<^verbatim>\<open>Validate\<close> methods matters here.  Its fields are the ones
  \<^verbatim>\<open>docs/config/config.md\<close> describes.
\<close>

record selector =
  matchIdentities :: "(string \<times> string) list option"
  matchLabels :: "string gomap"
  matchExpressions :: "(string \<times> string \<times> string list) list"
  matchPurposes :: "(string \<times> string list) list"

record SingleCIDRInjection =
  inj_ID :: string
  inj_Path :: string
  inj_Paths :: "string list"
  inj_Parents :: "string list"
  inj_SubnetSize :: int

record CIDRInjection =
  rule_ID :: string
  rule_Selector :: selector
  rule_Injections :: "SingleCIDRInjection list"

record IPAMConfigSpec =
  ParentCIDRs :: "string list gomap"
  InjectionRules :: "CIDRInjection list"
  InternalStateRefreshCycleDuration :: "int option"

record IPAMConfig = objectMeta +
  Spec :: IPAMConfigSpec

record PathWithSource =
  pws_Path :: string
  pws_Index :: int

definition GetPaths :: "SingleCIDRInjection \<Rightarrow> PathWithSource list" where
  "GetPaths sci =
     (if inj_Path sci \<noteq> [] then [\<lparr>pws_Path = inj_Path sci, pws_Index = -1\<rparr>] else []) @
     map (\<lambda>(i, p). \<lparr>pws_Path = p, pws_Index = int i\<rparr>) (enumerate 0 (inj_Paths sci))"

definition Source :: "PathWithSource \<Rightarrow> string" where
  "Source pws =
     (if pws_Index pws < 0 then ''path''
      else ''paths['' @ nat_to_string (nat (pws_Index pws)) @ '']'')"

lemma GetPaths_paths:
  "map pws_Path (GetPaths sci) = (if inj_Path sci \<noteq> [] then [inj_Path sci] else []) @ inj_Paths sci"
  by (simp add: GetPaths_def comp_def split_def)

lemma GetPaths_empty_iff: "GetPaths sci = [] \<longleftrightarrow> inj_Path sci = [] \<and> inj_Paths sci = []"
  using arg_cong [OF GetPaths_paths [of sci], of "\<lambda>l. l = []"] by auto

lemma GetPaths_index:
  assumes "p \<in> set (GetPaths sci)"
  shows "(pws_Index p = -1 \<and> pws_Path p = inj_Path sci) \<or>
    (0 \<le> pws_Index p \<and> nat (pws_Index p) < length (inj_Paths sci) \<and>
      pws_Path p = inj_Paths sci ! nat (pws_Index p))"
  using assms by (auto simp: GetPaths_def in_set_enumerate_eq split: if_splits)

section \<open>The applied rules annotation\<close>

type_synonym AppliedRulesAnnotation = "nilmap gomap"

definition ToAnnotation :: "AppliedRulesAnnotation \<Rightarrow> goerr + string" where
  "ToAnnotation a = Inr (json_Marshal_outer a)"

text \<open>The receiver is cleared and filled, so its old content plays no role.\<close>

definition FromAnnotation :: "string \<Rightarrow> goerr + AppliedRulesAnnotation" where
  "FromAnnotation ann =
     (case json_Unmarshal_outer ann of
        None \<Rightarrow> Inl (Errorf ''error unmarshaling the applied rules annotation json string'' [] (Some (LibError ''json'')))
      | Some a \<Rightarrow> Inr a)"

definition injections_of :: "AppliedRulesAnnotation \<Rightarrow> string \<Rightarrow> (string \<rightharpoonup> string)" where
  "injections_of a r = (case map_of a r of Some (Some m) \<Rightarrow> map_of m | _ \<Rightarrow> Map.empty)"

lemma wf_FromAnnotation: "FromAnnotation s = Inr a \<Longrightarrow> wf_outer a"
  by (auto simp: FromAnnotation_def wf_Unmarshal_outer split: option.splits)

text \<open>Reading back a written annotation gives the same rules, paths and CIDRs.\<close>

lemma map_of_map_values: "map_of (map (map_prod id f) m) = map_option f \<circ> map_of m"
  by (induction m) auto

lemma map_of_normal_outer:
  assumes "wf_outer a"
  shows "map_of (normal_outer a) r = map_option (map_option (sort_key fst)) (map_of a r)"
  using assms by (simp add: normal_outer_def map_of_map_values map_of_sort_key wf_outer_def)

lemma injections_of_normal_outer:
  assumes "wf_outer a"
  shows "injections_of (normal_outer a) = injections_of a"
proof
  fix r
  have "map_of a r = Some (Some m) \<Longrightarrow> wf_map m" for m
    using assms by (fastforce simp: wf_outer_def dest: map_of_SomeD)
  then show "injections_of (normal_outer a) r = injections_of a r"
    by (auto simp: injections_of_def map_of_normal_outer [OF assms] map_of_sort_key
        split: option.splits)
qed

lemma keys_normal_outer: "fst ` set (normal_outer a) = fst ` set a"
  by (force simp: normal_outer_def)

lemma FromAnnotation_ToAnnotation:
  assumes "wf_outer a" and "ToAnnotation a = Inr s"
  shows "FromAnnotation s = Inr (normal_outer a)"
  using assms by (auto simp: FromAnnotation_def ToAnnotation_def json_outer_roundtrip)

end
