(* ===== verification/Interfaces.thy ===== *)
theory Interfaces
  imports API_Types
begin

text \<open>
  The code outside the repository the program calls, as records of functions: the IPAM library
  \<^verbatim>\<open>metal-stack/go-ipam\<close>, the Kubernetes client of the platform cluster, and the helper
  functions of \<^verbatim>\<open>controller-runtime\<close>, \<^verbatim>\<open>controller-utils\<close> and
  \<^verbatim>\<open>openmcp-operator\<close>.  Every definition that calls them takes the record it needs as an
  argument.  The locales state the documented behaviour the program relies on.
\<close>

section \<open>The IPAM library\<close>

record prefix =
  Cidr :: string
  ParentCidr :: string

record ipamIP =
  ip_IP :: string
  ip_ParentPrefix :: string

type_synonym 'a result = "goerr + 'a"

text \<open>The interface \<^verbatim>\<open>goipam.Ipamer\<close> over the library's own state \<open>'s\<close>.\<close>

record 's goipam =
  g_New :: 's
  g_AcquireChildPrefix :: "'s \<Rightarrow> string \<Rightarrow> 8 word \<Rightarrow> prefix result \<times> 's"
  g_AcquireIP :: "'s \<Rightarrow> string \<Rightarrow> ipamIP result \<times> 's"
  g_AcquireSpecificChildPrefix :: "'s \<Rightarrow> string \<Rightarrow> string \<Rightarrow> prefix result \<times> 's"
  g_AcquireSpecificIP :: "'s \<Rightarrow> string \<Rightarrow> string \<Rightarrow> ipamIP result \<times> 's"
  g_CreateNamespace :: "'s \<Rightarrow> string \<Rightarrow> goerr option \<times> 's"
  g_DeleteNamespace :: "'s \<Rightarrow> string \<Rightarrow> goerr option \<times> 's"
  g_DeletePrefix :: "'s \<Rightarrow> string \<Rightarrow> prefix result \<times> 's"
  g_Dump :: "'s \<Rightarrow> string result"
  g_ListNamespaces :: "'s \<Rightarrow> string list result"
  g_Load :: "'s \<Rightarrow> string \<Rightarrow> goerr option \<times> 's"
  g_NewPrefix :: "'s \<Rightarrow> string \<Rightarrow> prefix result \<times> 's"
  g_PrefixFrom :: "'s \<Rightarrow> string \<Rightarrow> prefix result"
  g_ReadAllPrefixCidrs :: "'s \<Rightarrow> string list result"
  g_ReleaseChildPrefix :: "'s \<Rightarrow> prefix \<Rightarrow> goerr option \<times> 's"
  g_ReleaseIP :: "'s \<Rightarrow> ipamIP \<Rightarrow> prefix result \<times> 's"
  g_ReleaseIPFromPrefix :: "'s \<Rightarrow> string \<Rightarrow> string \<Rightarrow> goerr option \<times> 's"

text \<open>The prefixes a state knows, that is, the CIDRs that are blocked in it.\<close>

definition known :: "'s goipam \<Rightarrow> 's \<Rightarrow> string \<rightharpoonup> prefix" where
  "known G s c = (case g_PrefixFrom G s c of Inr p \<Rightarrow> Some p | Inl _ \<Rightarrow> None)"

lemma known_Some [simp]: "known G s c = Some p \<longleftrightarrow> g_PrefixFrom G s c = Inr p"
  by (auto simp: known_def split: sum.splits)

lemma known_None: "known G s c = None \<longleftrightarrow> (\<exists>e. g_PrefixFrom G s c = Inl e)"
  by (auto simp: known_def split: sum.splits)

definition blocked :: "'s goipam \<Rightarrow> 's \<Rightarrow> string set" where
  "blocked G s = dom (known G s)"

lemma blocked_iff: "c \<in> blocked G s \<longleftrightarrow> (\<exists>p. g_PrefixFrom G s c = Inr p)"
  by (auto simp: blocked_def)

lemma blocked_upd: "known G s' = (known G s)(c \<mapsto> p) \<Longrightarrow> blocked G s' = insert c (blocked G s)"
  by (simp add: blocked_def)

text \<open>
  What the library documents of the operations the program uses: a lookup finds the prefix
  stored under the CIDR, and its only error for an unknown CIDR is \<^verbatim>\<open>ErrNotFound\<close>;
  a new or acquired prefix was unknown before and is known afterwards, a released one is unknown
  afterwards, everything else stays; a failing call changes nothing; loading a dump reproduces
  the dumped state.
\<close>

locale goipam_contract =
  fixes G :: "'s goipam"
  assumes PrefixFrom_Cidr: "g_PrefixFrom G s c = Inr p \<Longrightarrow> Cidr p = c"
    and New_known: "known G (g_New G) = Map.empty"
    and NewPrefix_ok: "g_NewPrefix G s c = (Inr p, s') \<Longrightarrow>
      Cidr p = c \<and> ParentCidr p = [] \<and> known G s' = (known G s)(c \<mapsto> p)"
    and NewPrefix_err: "g_NewPrefix G s c = (Inl e, s') \<Longrightarrow> s' = s"
    and AcquireChildPrefix_ok: "g_AcquireChildPrefix G s c n = (Inr p, s') \<Longrightarrow>
      known G s (Cidr p) = None \<and> ParentCidr p = c \<and> known G s' = (known G s)(Cidr p \<mapsto> p)"
    and AcquireChildPrefix_err: "g_AcquireChildPrefix G s c n = (Inl e, s') \<Longrightarrow> s' = s"
    and AcquireSpecificChildPrefix_ok: "g_AcquireSpecificChildPrefix G s c d = (Inr p, s') \<Longrightarrow>
      Cidr p = d \<and> known G s d = None \<and> ParentCidr p = c \<and> known G s' = (known G s)(d \<mapsto> p)"
    and AcquireSpecificChildPrefix_err:
      "g_AcquireSpecificChildPrefix G s c d = (Inl e, s') \<Longrightarrow> s' = s"
    and ReleaseChildPrefix_ok: "g_ReleaseChildPrefix G s p = (None, s') \<Longrightarrow>
      known G s' = (known G s)(Cidr p := None)"
    and ReleaseChildPrefix_err: "g_ReleaseChildPrefix G s p = (Some e, s') \<Longrightarrow>
      s' = s \<and> (known G s (Cidr p) = Some p \<longrightarrow> \<not> is_ipam_not_found e)"
    and Load_Dump: "g_Dump G s = Inr d \<Longrightarrow> g_Load G (g_New G) d = (None, s') \<Longrightarrow>
      known G s' = known G s"
begin

lemma known_Cidr: "known G s c = Some p \<Longrightarrow> Cidr p = c"
  using PrefixFrom_Cidr by simp

lemma acquire_blocks:
  "g_AcquireChildPrefix G s c n = (Inr p, s') \<Longrightarrow> known G s' (Cidr p) = Some p"
  using AcquireChildPrefix_ok [of s c n p s'] by simp

lemma acquire_keeps:
  "g_AcquireChildPrefix G s c n = (r, s') \<Longrightarrow> known G s d = Some q \<Longrightarrow> known G s' d = Some q"
  using AcquireChildPrefix_ok [of s c n _ s'] AcquireChildPrefix_err [of s c n _ s']
  by (cases r) (auto simp: fun_upd_def simp del: known_Some split: if_splits)

lemma blocked_New: "blocked G (g_New G) = {}"
  by (simp add: blocked_def New_known)

end

text \<open>
  Addresses: \<open>addrs c\<close> are the addresses of the CIDR \<open>c\<close>.  An acquired child lies in
  its parent and is disjoint from the children the parent already has.
\<close>

locale goipam_alloc = goipam_contract G for G :: "'s goipam" +
  fixes addrs :: "string \<Rightarrow> int set"
  assumes acquire_within: "g_AcquireChildPrefix G s c n = (Inr p, s') \<Longrightarrow> addrs (Cidr p) \<subseteq> addrs c"
    and acquire_disjoint: "g_AcquireChildPrefix G s c n = (Inr p, s') \<Longrightarrow>
      known G s d = Some q \<Longrightarrow> ParentCidr q = c \<Longrightarrow> addrs d \<inter> addrs (Cidr p) = {}"
    and acquire_specific_within:
      "g_AcquireSpecificChildPrefix G s c d = (Inr p, s') \<Longrightarrow> addrs d \<subseteq> addrs c"
    and acquire_specific_disjoint: "g_AcquireSpecificChildPrefix G s c d = (Inr p, s') \<Longrightarrow>
      known G s e = Some q \<Longrightarrow> ParentCidr q = c \<Longrightarrow> addrs e \<inter> addrs d = {}"

text \<open>
  A property of the library's state that every operation the program uses keeps.  What such a
  property gives for the program is proved once, for any invariant.
\<close>

locale ipam_invariant =
  fixes G :: "'s goipam" and I :: "'s \<Rightarrow> bool"
  assumes I_New: "I (g_New G)"
    and I_NewPrefix: "I s \<Longrightarrow> g_NewPrefix G s c = (r, s') \<Longrightarrow> I s'"
    and I_AcquireChildPrefix: "I s \<Longrightarrow> g_AcquireChildPrefix G s c n = (r, s') \<Longrightarrow> I s'"
    and I_AcquireSpecificChildPrefix: "I s \<Longrightarrow> g_AcquireSpecificChildPrefix G s c d = (r, s') \<Longrightarrow> I s'"
    and I_ReleaseChildPrefix: "I s \<Longrightarrow> g_ReleaseChildPrefix G s p = (e, s') \<Longrightarrow> I s'"
    and I_Load_Dump: "I s \<Longrightarrow> g_Dump G s = Inr d \<Longrightarrow> g_Load G (g_New G) d = (None, s') \<Longrightarrow> I s'"

lemma trivial_invariant: "ipam_invariant G (\<lambda>_. True)"
  by unfold_locales simp_all

text \<open>
  The invariant of address allocation: every prefix with a parent lies in it, and prefixes of the
  same parent are disjoint.
\<close>

definition well_allocated :: "'s goipam \<Rightarrow> (string \<Rightarrow> int set) \<Rightarrow> 's \<Rightarrow> bool" where
  "well_allocated G addrs s \<longleftrightarrow>
     (\<forall>c p. known G s c = Some p \<longrightarrow> ParentCidr p \<noteq> [] \<longrightarrow>
        addrs c \<subseteq> addrs (ParentCidr p) \<and>
        (\<forall>d q. known G s d = Some q \<longrightarrow> d \<noteq> c \<longrightarrow> ParentCidr q = ParentCidr p \<longrightarrow> addrs d \<inter> addrs c = {}))"

lemma well_allocated_sub:
  assumes "well_allocated G addrs s" and "known G s' \<subseteq>\<^sub>m known G s"
  shows "well_allocated G addrs s'"
proof -
  have "known G s c = Some p" if "known G s' c = Some p" for c p
    using that assms(2) by (metis domI map_le_def)
  then show ?thesis using assms(1) unfolding well_allocated_def by (simp del: known_Some)
qed

lemma well_allocated_child:
  assumes "well_allocated G addrs s" and "known G s' = (known G s)(c \<mapsto> p)" and "known G s c = None"
    and "addrs c \<subseteq> addrs (ParentCidr p)"
    and "\<And>d q. known G s d = Some q \<Longrightarrow> ParentCidr q = ParentCidr p \<Longrightarrow> addrs d \<inter> addrs c = {}"
  shows "well_allocated G addrs s'"
  unfolding well_allocated_def
proof (intro allI impI conjI)
  fix e q
  assume e: "known G s' e = Some q" "ParentCidr q \<noteq> []"
  show "addrs e \<subseteq> addrs (ParentCidr q)"
    using assms(1,2,4) e by (cases "e = c") (auto simp: well_allocated_def simp del: known_Some)
  fix d r
  assume d: "known G s' d = Some r" "d \<noteq> e" "ParentCidr r = ParentCidr q"
  consider "e = c" "d \<noteq> c" | "d = c" "e \<noteq> c" | "e \<noteq> c" "d \<noteq> c" using d by blast
  then show "addrs d \<inter> addrs e = {}"
  proof cases
    case 1
    then show ?thesis using assms(2,5) e d by (simp del: known_Some)
  next
    case 2
    then have "addrs e \<inter> addrs c = {}" using assms(2,5) e d by (simp del: known_Some)
    then show ?thesis using 2 by blast
  next
    case 3
    then show ?thesis using assms(1,2) e d by (simp add: well_allocated_def del: known_Some)
  qed
qed

lemma well_allocated_root:
  assumes "well_allocated G addrs s" and "known G s' = (known G s)(c \<mapsto> p)" and "ParentCidr p = []"
  shows "well_allocated G addrs s'"
proof -
  have "known G s e = Some q" if "known G s' e = Some q" "ParentCidr q \<noteq> []" for e q
    using that assms(2,3) by (cases "e = c") (auto simp del: known_Some)
  then show ?thesis using assms(1) unfolding well_allocated_def by (simp del: known_Some)
qed

sublocale goipam_alloc \<subseteq> ipam_invariant G "well_allocated G addrs"
proof
  show "well_allocated G addrs (g_New G)" by (simp add: well_allocated_def New_known del: known_Some)
next
  fix s c r s'
  assume "well_allocated G addrs s" "g_NewPrefix G s c = (r, s')"
  then show "well_allocated G addrs s'"
    using NewPrefix_ok [of s c _ s'] NewPrefix_err [of s c _ s']
    by (cases r) (auto intro: well_allocated_root)
next
  fix s c n r s'
  assume I: "well_allocated G addrs s" and a: "g_AcquireChildPrefix G s c n = (r, s')"
  show "well_allocated G addrs s'"
  proof (cases r)
    case (Inr p)
    with a have a: "g_AcquireChildPrefix G s c n = (Inr p, s')" by simp
    from AcquireChildPrefix_ok [OF a] show ?thesis
      using acquire_within [OF a] acquire_disjoint [OF a] by (intro well_allocated_child [OF I, of s' "Cidr p" p]) auto
  qed (use I a AcquireChildPrefix_err [of s c n _ s'] in auto)
next
  fix s c d r s'
  assume I: "well_allocated G addrs s" and a: "g_AcquireSpecificChildPrefix G s c d = (r, s')"
  show "well_allocated G addrs s'"
  proof (cases r)
    case (Inr p)
    with a have a: "g_AcquireSpecificChildPrefix G s c d = (Inr p, s')" by simp
    from AcquireSpecificChildPrefix_ok [OF a] show ?thesis
      using acquire_specific_within [OF a] acquire_specific_disjoint [OF a]
      by (intro well_allocated_child [OF I, of s' d p]) auto
  qed (use I a AcquireSpecificChildPrefix_err [of s c d _ s'] in auto)
next
  fix s p e s'
  assume I: "well_allocated G addrs s" and r: "g_ReleaseChildPrefix G s p = (e, s')"
  have "known G s' \<subseteq>\<^sub>m known G s"
    using ReleaseChildPrefix_ok [of s p s'] ReleaseChildPrefix_err [of s p _ s'] r
    by (cases e) (auto simp: map_le_def simp del: known_Some)
  then show "well_allocated G addrs s'" by (rule well_allocated_sub [OF I])
next
  fix s d s'
  assume I: "well_allocated G addrs s" and l: "g_Dump G s = Inr d" "g_Load G (g_New G) d = (None, s')"
  then show "well_allocated G addrs s'" using Load_Dump [OF l] by (intro well_allocated_sub [OF I]) simp
qed

context goipam_alloc
begin

lemma allocation_invariant: "ipam_invariant G (well_allocated G addrs)"
  by (rule ipam_invariant_axioms)

end

section \<open>The platform cluster\<close>

text \<open>
  The client over the state \<open>'w\<close> of the API server.  Reads may also change that state: other
  actors write to the API server at any time.  A call that takes an object and succeeds returns
  it as the server answered it, the way the client overwrites the passed object.
\<close>

record 'w platform_client =
  c_GetCluster :: "'w \<Rightarrow> string \<Rightarrow> string \<Rightarrow> cluster result \<times> 'w"
  c_GetConfig :: "'w \<Rightarrow> string \<Rightarrow> IPAMConfig result \<times> 'w"
  c_ListClusters :: "'w \<Rightarrow> cluster list result \<times> 'w"
  c_ListClusterConfigs :: "'w \<Rightarrow> string gomap \<Rightarrow> string option \<Rightarrow> clusterConfig list result \<times> 'w"
  c_CreateClusterConfig :: "'w \<Rightarrow> clusterConfig \<Rightarrow> clusterConfig result \<times> 'w"
  c_UpdateClusterConfig :: "'w \<Rightarrow> clusterConfig \<Rightarrow> clusterConfig result \<times> 'w"
  c_PatchClusterConfig :: "'w \<Rightarrow> clusterConfig \<Rightarrow> clusterConfig \<Rightarrow> clusterConfig result \<times> 'w"
  c_DeleteClusterConfig :: "'w \<Rightarrow> clusterConfig \<Rightarrow> goerr option \<times> 'w"
  c_PatchCluster :: "'w \<Rightarrow> cluster \<Rightarrow> cluster \<Rightarrow> cluster result \<times> 'w"
  c_RemoveClusterAnnotation :: "'w \<Rightarrow> cluster \<Rightarrow> string \<Rightarrow> cluster result \<times> 'w"
  c_RemoveConfigAnnotation :: "'w \<Rightarrow> IPAMConfig \<Rightarrow> string \<Rightarrow> IPAMConfig result \<times> 'w"

section \<open>Helper libraries\<close>

record lib =
  Matches :: "selector \<Rightarrow> cluster \<Rightarrow> bool"
  ValidateSelector :: "selector \<Rightarrow> goerr option"
  ShortenToXCharacters :: "string \<Rightarrow> nat \<Rightarrow> string result"
  K8sMaxNameLength :: nat
  ConvertPath :: "string \<Rightarrow> string result"
  AddFinalizer :: "string list \<Rightarrow> string \<Rightarrow> string list \<times> bool"
  RemoveFinalizer :: "string list \<Rightarrow> string \<Rightarrow> string list \<times> bool"
  PrefixesOverlapping :: "string list \<Rightarrow> string list \<Rightarrow> goerr option"
  ClustersGroupVersion :: string

text \<open>\<^verbatim>\<open>controllerutil\<close>: a finalizer is added once, and removed wherever it occurs.\<close>

locale finalizer_contract =
  fixes L :: lib
  assumes AddFinalizer_spec:
      "AddFinalizer L fs f = (if f \<in> set fs then (fs, False) else (fs @ [f], True))"
    and RemoveFinalizer_spec:
      "RemoveFinalizer L fs f = (filter (\<lambda>g. g \<noteq> f) fs, f \<in> set fs)"

text \<open>\<^verbatim>\<open>ctrlutils.ShortenToXCharacters\<close>: the result fits, and a string that fits is kept.\<close>

locale shorten_contract =
  fixes L :: lib
  assumes shorten_fits: "ShortenToXCharacters L s n = Inr t \<Longrightarrow> length t \<le> n"
    and shorten_short: "length s \<le> n \<Longrightarrow> ShortenToXCharacters L s n = Inr s"

end
