(* ===== verification/Ipamer.thy ===== *)
theory Ipamer
  imports Interfaces
begin

text \<open>
  \<^verbatim>\<open>internal/shared/ipam.go\<close>: the thread-safe wrapper of the IPAM library.  Every method
  takes the mutex, forwards to the wrapped instance and releases the mutex when it returns.  A
  method that is called while the mutex is held does not return (\<open>Block\<close>).
\<close>

record 's Ipamer =
  internal :: 's
  lock :: bool
  parents :: "prefix list"

definition NewIpam :: "'s goipam \<Rightarrow> 's Ipamer" where
  "NewIpam G = \<lparr>internal = g_New G, lock = False, parents = []\<rparr>"

definition with_lock :: "('s Ipamer \<Rightarrow> ('a \<times> 's Ipamer) go) \<Rightarrow> 's Ipamer \<Rightarrow> ('a \<times> 's Ipamer) go" where
  "with_lock f i =
     (if lock i then Block
      else go_bind (f (i\<lparr>lock := True\<rparr>)) (\<lambda>(a, i'). Ret (a, i'\<lparr>lock := False\<rparr>)))"

text \<open>A method body \<^verbatim>\<open>return i.internal.Op(...)\<close> under the mutex.\<close>

definition forward :: "('s \<Rightarrow> 'a \<times> 's) \<Rightarrow> 's Ipamer \<Rightarrow> ('a \<times> 's Ipamer) go" where
  "forward f = with_lock (\<lambda>i. case f (internal i) of (a, s') \<Rightarrow> Ret (a, i\<lparr>internal := s'\<rparr>))"

section \<open>Helper methods\<close>

fun register_parents :: "'s goipam \<Rightarrow> string list \<Rightarrow> prefix list \<Rightarrow> 's \<Rightarrow> prefix list result \<times> 's" where
  "register_parents G [] pfxs s = (Inr pfxs, s)"
| "register_parents G (cidr # cidrs) pfxs s =
     (case g_PrefixFrom G s cidr of
        Inr p \<Rightarrow> register_parents G cidrs (pfxs @ [p]) s
      | Inl e \<Rightarrow>
          if \<not> is_ipam_not_found e then (Inl e, s)
          else (case g_NewPrefix G s cidr of
                  (Inl e', s') \<Rightarrow> (Inl e', s')
                | (Inr p, s') \<Rightarrow> register_parents G cidrs (pfxs @ [p]) s'))"

definition AddParentPrefixesFromStrings ::
  "'s goipam \<Rightarrow> string list \<Rightarrow> 's Ipamer \<Rightarrow> (goerr option \<times> 's Ipamer) go" where
  "AddParentPrefixesFromStrings G cidrs =
     with_lock (\<lambda>i.
       case register_parents G cidrs [] (internal i) of
         (Inl e, s') \<Rightarrow> Ret (Some e, i\<lparr>internal := s'\<rparr>)
       | (Inr pfxs, s') \<Rightarrow> Ret (None, i\<lparr>internal := s', parents := parents i @ pfxs\<rparr>))"

definition AddParentPrefixes :: "prefix list \<Rightarrow> 's Ipamer \<Rightarrow> (unit \<times> 's Ipamer) go" where
  "AddParentPrefixes pfxs = with_lock (\<lambda>i. Ret ((), i\<lparr>parents := parents i @ pfxs\<rparr>))"

definition ParentPrefixes :: "'s Ipamer \<Rightarrow> (prefix list \<times> 's Ipamer) go" where
  "ParentPrefixes = with_lock (\<lambda>i. Ret (parents i, i))"

section \<open>The goipam.Ipamer methods\<close>

definition AcquireChildPrefix :: "'s goipam \<Rightarrow> string \<Rightarrow> 8 word \<Rightarrow> 's Ipamer \<Rightarrow> (prefix result \<times> 's Ipamer) go" where
  "AcquireChildPrefix G parentCidr len = forward (\<lambda>s. g_AcquireChildPrefix G s parentCidr len)"

definition AcquireIP :: "'s goipam \<Rightarrow> string \<Rightarrow> 's Ipamer \<Rightarrow> (ipamIP result \<times> 's Ipamer) go" where
  "AcquireIP G prefixCidr = forward (\<lambda>s. g_AcquireIP G s prefixCidr)"

definition AcquireSpecificChildPrefix :: "'s goipam \<Rightarrow> string \<Rightarrow> string \<Rightarrow> 's Ipamer \<Rightarrow> (prefix result \<times> 's Ipamer) go" where
  "AcquireSpecificChildPrefix G parentCidr childCidr = forward (\<lambda>s. g_AcquireSpecificChildPrefix G s parentCidr childCidr)"

definition AcquireSpecificIP :: "'s goipam \<Rightarrow> string \<Rightarrow> string \<Rightarrow> 's Ipamer \<Rightarrow> (ipamIP result \<times> 's Ipamer) go" where
  "AcquireSpecificIP G prefixCidr specificIP = forward (\<lambda>s. g_AcquireSpecificIP G s prefixCidr specificIP)"

definition CreateNamespace :: "'s goipam \<Rightarrow> string \<Rightarrow> 's Ipamer \<Rightarrow> (goerr option \<times> 's Ipamer) go" where
  "CreateNamespace G ns = forward (\<lambda>s. g_CreateNamespace G s ns)"

definition DeleteNamespace :: "'s goipam \<Rightarrow> string \<Rightarrow> 's Ipamer \<Rightarrow> (goerr option \<times> 's Ipamer) go" where
  "DeleteNamespace G ns = forward (\<lambda>s. g_DeleteNamespace G s ns)"

definition DeletePrefix :: "'s goipam \<Rightarrow> string \<Rightarrow> 's Ipamer \<Rightarrow> (prefix result \<times> 's Ipamer) go" where
  "DeletePrefix G cidr = forward (\<lambda>s. g_DeletePrefix G s cidr)"

definition Dump :: "'s goipam \<Rightarrow> 's Ipamer \<Rightarrow> (string result \<times> 's Ipamer) go" where
  "Dump G = forward (\<lambda>s. (g_Dump G s, s))"

definition ListNamespaces :: "'s goipam \<Rightarrow> 's Ipamer \<Rightarrow> (string list result \<times> 's Ipamer) go" where
  "ListNamespaces G = forward (\<lambda>s. (g_ListNamespaces G s, s))"

definition Load :: "'s goipam \<Rightarrow> string \<Rightarrow> 's Ipamer \<Rightarrow> (goerr option \<times> 's Ipamer) go" where
  "Load G dump = forward (\<lambda>s. g_Load G s dump)"

definition NewPrefix :: "'s goipam \<Rightarrow> string \<Rightarrow> 's Ipamer \<Rightarrow> (prefix result \<times> 's Ipamer) go" where
  "NewPrefix G cidr = forward (\<lambda>s. g_NewPrefix G s cidr)"

definition PrefixFrom :: "'s goipam \<Rightarrow> string \<Rightarrow> 's Ipamer \<Rightarrow> (prefix result \<times> 's Ipamer) go" where
  "PrefixFrom G cidr = forward (\<lambda>s. (g_PrefixFrom G s cidr, s))"

definition ReadAllPrefixCidrs :: "'s goipam \<Rightarrow> 's Ipamer \<Rightarrow> (string list result \<times> 's Ipamer) go" where
  "ReadAllPrefixCidrs G = forward (\<lambda>s. (g_ReadAllPrefixCidrs G s, s))"

definition ReleaseChildPrefix :: "'s goipam \<Rightarrow> prefix \<Rightarrow> 's Ipamer \<Rightarrow> (goerr option \<times> 's Ipamer) go" where
  "ReleaseChildPrefix G child = forward (\<lambda>s. g_ReleaseChildPrefix G s child)"

definition ReleaseIP :: "'s goipam \<Rightarrow> ipamIP \<Rightarrow> 's Ipamer \<Rightarrow> (prefix result \<times> 's Ipamer) go" where
  "ReleaseIP G ip = forward (\<lambda>s. g_ReleaseIP G s ip)"

definition ReleaseIPFromPrefix :: "'s goipam \<Rightarrow> string \<Rightarrow> string \<Rightarrow> 's Ipamer \<Rightarrow> (goerr option \<times> 's Ipamer) go" where
  "ReleaseIPFromPrefix G prefixCidr ip = forward (\<lambda>s. g_ReleaseIPFromPrefix G s prefixCidr ip)"

lemmas Ipamer_methods = AcquireChildPrefix_def AcquireIP_def AcquireSpecificChildPrefix_def
  AcquireSpecificIP_def CreateNamespace_def DeleteNamespace_def DeletePrefix_def Dump_def
  ListNamespaces_def Load_def NewPrefix_def PrefixFrom_def ReadAllPrefixCidrs_def
  ReleaseChildPrefix_def ReleaseIP_def ReleaseIPFromPrefix_def

section \<open>Laws of the wrapper\<close>

lemma with_lock_held [simp]: "lock i \<Longrightarrow> with_lock f i = Block"
  by (simp add: with_lock_def)

lemma with_lock_unlocks: "with_lock f i = Ret (a, i') \<Longrightarrow> \<not> lock i'"
  by (auto simp: with_lock_def split: if_splits)

lemma forward_free [simp]:
  "\<not> lock i \<Longrightarrow> forward f i = Ret (fst (f (internal i)), i\<lparr>internal := snd (f (internal i))\<rparr>)"
  by (cases i) (simp add: forward_def with_lock_def split_def)

lemma forward_eq_Ret:
  "forward f i = Ret (a, i') \<longleftrightarrow>
   \<not> lock i \<and> f (internal i) = (a, internal i') \<and> i' = i\<lparr>internal := internal i'\<rparr>"
  by (cases "lock i"; cases i; cases i')
    (auto simp: forward_def with_lock_def split: prod.splits)

text \<open>
  The wrapper as an instance of the interface it wraps: a call on a free mutex answers, a call
  on a held one does not and leaves the state alone.
\<close>

definition answer :: "'a \<Rightarrow> 's Ipamer \<Rightarrow> ('a \<times> 's Ipamer) go \<Rightarrow> 'a \<times> 's Ipamer" where
  "answer dflt i r = (case r of Ret x \<Rightarrow> x | _ \<Rightarrow> (dflt, i))"

definition wrapped :: "'s goipam \<Rightarrow> 's Ipamer goipam" where
  "wrapped G = (let err = LibError ''blocked'' in
     \<lparr>g_New = NewIpam G,
      g_AcquireChildPrefix = (\<lambda>i c n. answer (Inl err) i (AcquireChildPrefix G c n i)),
      g_AcquireIP = (\<lambda>i c. answer (Inl err) i (AcquireIP G c i)),
      g_AcquireSpecificChildPrefix = (\<lambda>i c d. answer (Inl err) i (AcquireSpecificChildPrefix G c d i)),
      g_AcquireSpecificIP = (\<lambda>i c d. answer (Inl err) i (AcquireSpecificIP G c d i)),
      g_CreateNamespace = (\<lambda>i n. answer (Some err) i (CreateNamespace G n i)),
      g_DeleteNamespace = (\<lambda>i n. answer (Some err) i (DeleteNamespace G n i)),
      g_DeletePrefix = (\<lambda>i c. answer (Inl err) i (DeletePrefix G c i)),
      g_Dump = (\<lambda>i. fst (answer (Inl err) i (Dump G i))),
      g_ListNamespaces = (\<lambda>i. fst (answer (Inl err) i (ListNamespaces G i))),
      g_Load = (\<lambda>i d. answer (Some err) i (Load G d i)),
      g_NewPrefix = (\<lambda>i c. answer (Inl err) i (NewPrefix G c i)),
      g_PrefixFrom = (\<lambda>i c. fst (answer (Inl err) i (PrefixFrom G c i))),
      g_ReadAllPrefixCidrs = (\<lambda>i. fst (answer (Inl err) i (ReadAllPrefixCidrs G i))),
      g_ReleaseChildPrefix = (\<lambda>i p. answer (Some err) i (ReleaseChildPrefix G p i)),
      g_ReleaseIP = (\<lambda>i p. answer (Inl err) i (ReleaseIP G p i)),
      g_ReleaseIPFromPrefix = (\<lambda>i c p. answer (Some err) i (ReleaseIPFromPrefix G c p i))\<rparr>)"

lemma answer_forward:
  "answer d i (forward f i) = (r, i') \<longleftrightarrow>
     (if lock i then r = d \<and> i' = i
      else f (internal i) = (r, internal i') \<and> \<not> lock i' \<and> parents i' = parents i)"
proof (cases "lock i")
  case True
  then show ?thesis by (auto simp: answer_def forward_def)
next
  case False
  then show ?thesis by (cases i; cases i') (auto simp: answer_def prod_eq_iff)
qed

lemma fst_answer_forward:
  "fst (answer d i (forward f i)) = (if lock i then d else fst (f (internal i)))"
proof (cases "lock i")
  case True
  then show ?thesis by (auto simp: answer_def forward_def)
qed (simp add: answer_def)

lemma wrapped_methods:
  "g_New (wrapped G) = NewIpam G"
  "g_AcquireChildPrefix (wrapped G) i c n = answer (Inl (LibError ''blocked'')) i (AcquireChildPrefix G c n i)"
  "g_AcquireSpecificChildPrefix (wrapped G) i c d = answer (Inl (LibError ''blocked'')) i (AcquireSpecificChildPrefix G c d i)"
  "g_NewPrefix (wrapped G) i c = answer (Inl (LibError ''blocked'')) i (NewPrefix G c i)"
  "g_PrefixFrom (wrapped G) i c = fst (answer (Inl (LibError ''blocked'')) i (PrefixFrom G c i))"
  "g_ReleaseChildPrefix (wrapped G) i p = answer (Some (LibError ''blocked'')) i (ReleaseChildPrefix G p i)"
  "g_Dump (wrapped G) i = fst (answer (Inl (LibError ''blocked'')) i (Dump G i))"
  "g_Load (wrapped G) i d = answer (Some (LibError ''blocked'')) i (Load G d i)"
  by (simp_all add: wrapped_def Let_def)

lemmas wrapped_ops = wrapped_methods Ipamer_methods answer_forward fst_answer_forward NewIpam_def

lemma known_wrapped: "known (wrapped G) i = (if lock i then Map.empty else known G (internal i))"
  by (rule ext) (simp add: known_def wrapped_ops)

text \<open>C24: the mutex wrapper still is the IPAM library. Whenever the wrapped instance keeps the
  documented contract of the library (lookups find exactly the blocked prefixes, acquired
  prefixes were free, failing calls change nothing, a loaded dump is the dumped state), the
  wrapper with its locking keeps it as well.\<close>

theorem wrapped_contract:
  assumes "goipam_contract G"
  shows "goipam_contract (wrapped G)"
proof -
  note laws = goipam_contract.PrefixFrom_Cidr [OF assms]
    goipam_contract.NewPrefix_ok [OF assms] goipam_contract.NewPrefix_err [OF assms]
    goipam_contract.AcquireChildPrefix_ok [OF assms] goipam_contract.AcquireChildPrefix_err [OF assms]
    goipam_contract.AcquireSpecificChildPrefix_ok [OF assms]
    goipam_contract.AcquireSpecificChildPrefix_err [OF assms]
    goipam_contract.ReleaseChildPrefix_ok [OF assms] goipam_contract.ReleaseChildPrefix_err [OF assms]
    goipam_contract.Load_Dump [OF assms]
  show ?thesis
    by unfold_locales
      (auto simp: known_wrapped wrapped_ops goipam_contract.New_known [OF assms]
        split: if_splits simp del: known_Some forward_free
        dest!: laws intro!: Ipamer.equality)
qed

end
