(* ===== verification/Sim_Ipam.thy ===== *)
theory Sim_Ipam
  imports Ipamer
begin

text \<open>
  A small executable IPv4 allocator.  It instantiates the library parameter in the witnesses and
  shows that the contracts of \<^theory_text>\<open>Interfaces\<close> can be met; it is not a model of
  \<^verbatim>\<open>go-ipam\<close>.  Its state lists the known CIDRs with their parents; a child prefix is
  the first aligned block of the parent that overlaps none of its children.
\<close>

section \<open>IPv4 CIDRs\<close>

definition parse_octets :: "string \<Rightarrow> int option" where
  "parse_octets s =
     (case map strconv_Atoi (strings_Split (CHR ''.'') s) of
        [(a, None), (b, None), (c, None), (d, None)] \<Rightarrow> Some (((a * 256 + b) * 256 + c) * 256 + d)
      | _ \<Rightarrow> None)"

definition parse_cidr :: "string \<Rightarrow> (int \<times> nat) option" where
  "parse_cidr s =
     (case strings_Split (CHR ''/'') s of
        [a, l] \<Rightarrow> (case (parse_octets a, strconv_Atoi l) of
                     (Some b, (n, None)) \<Rightarrow> if 0 \<le> n \<and> n \<le> 32 then Some (b, nat n) else None
                   | _ \<Rightarrow> None)
      | _ \<Rightarrow> None)"

definition digit_string :: "int \<Rightarrow> string" where
  "digit_string n = [char_of (48 + n)]"

definition octet_string :: "int \<Rightarrow> string" where
  "octet_string n =
     (if n < 10 then digit_string n
      else if n < 100 then digit_string (n div 10) @ digit_string (n mod 10)
      else digit_string (n div 100) @ digit_string (n div 10 mod 10) @ digit_string (n mod 10))"

definition print_cidr :: "int \<times> nat \<Rightarrow> string" where
  "print_cidr x =
     (case x of (b, n) \<Rightarrow>
        octet_string (b div 16777216) @ ''.'' @ octet_string (b div 65536 mod 256) @ ''.'' @
        octet_string (b div 256 mod 256) @ ''.'' @ octet_string (b mod 256) @ ''/'' @
        octet_string (int n))"

definition cidr_range :: "string \<Rightarrow> (int \<times> int) option" where
  "cidr_range c = (case parse_cidr c of None \<Rightarrow> None | Some (b, n) \<Rightarrow> Some (b, b + 2 ^ (32 - n)))"

definition cidr_addrs :: "string \<Rightarrow> int set" where
  "cidr_addrs c = (case cidr_range c of None \<Rightarrow> {} | Some (lo, hi) \<Rightarrow> {lo..<hi})"

definition cidr_disjoint :: "string \<Rightarrow> string \<Rightarrow> bool" where
  "cidr_disjoint c d =
     (case (cidr_range c, cidr_range d) of
        (Some (lo, hi), Some (lo', hi')) \<Rightarrow> hi \<le> lo' \<or> hi' \<le> lo
      | _ \<Rightarrow> True)"

definition cidr_within :: "string \<Rightarrow> string \<Rightarrow> bool" where
  "cidr_within c d =
     (case (cidr_range c, cidr_range d) of
        (Some (lo, hi), Some (lo', hi')) \<Rightarrow> lo' \<le> lo \<and> hi \<le> hi'
      | _ \<Rightarrow> False)"

lemma cidr_disjointD: "cidr_disjoint c d \<Longrightarrow> cidr_addrs c \<inter> cidr_addrs d = {}"
  by (auto simp: cidr_disjoint_def cidr_addrs_def split: option.splits prod.splits)

lemma cidr_withinD: "cidr_within c d \<Longrightarrow> cidr_addrs c \<subseteq> cidr_addrs d"
  by (auto simp: cidr_within_def cidr_addrs_def split: option.splits prod.splits)

section \<open>The allocator\<close>

type_synonym sim = "string gomap"

definition sim_prefix :: "string \<Rightarrow> string \<Rightarrow> prefix" where
  "sim_prefix c par = \<lparr>Cidr = c, ParentCidr = par\<rparr>"

definition sim_from :: "sim \<Rightarrow> string \<Rightarrow> prefix result" where
  "sim_from s c = (case map_of s c of None \<Rightarrow> Inl (IpamNotFound c) | Some par \<Rightarrow> Inr (sim_prefix c par))"

definition sim_new :: "sim \<Rightarrow> string \<Rightarrow> prefix result \<times> sim" where
  "sim_new s c =
     (if cidr_range c = None then (Inl (IpamError ''unable to parse cidr''), s)
      else if \<exists>(d, par) \<in> set s. par = [] \<and> \<not> cidr_disjoint d c
        then (Inl (IpamError ''overlaps''), s)
      else (Inr (sim_prefix c []), AList.update c [] s))"

definition sim_free :: "sim \<Rightarrow> string \<Rightarrow> string \<Rightarrow> bool" where
  "sim_free s c d \<longleftrightarrow> map_of s d = None \<and> cidr_within d c \<and>
     (\<forall>(e, par) \<in> set s. par = c \<longrightarrow> cidr_disjoint e d)"

fun sim_search :: "sim \<Rightarrow> string \<Rightarrow> int \<Rightarrow> nat \<Rightarrow> nat \<Rightarrow> string option" where
  "sim_search s c base n 0 = None"
| "sim_search s c base n (Suc k) =
     (if sim_free s c (print_cidr (base, n)) then Some (print_cidr (base, n))
      else sim_search s c (base + 2 ^ (32 - n)) n k)"

definition sim_acquire :: "sim \<Rightarrow> string \<Rightarrow> 8 word \<Rightarrow> prefix result \<times> sim" where
  "sim_acquire s c w =
     (case (map_of s c, parse_cidr c) of
        (Some _, Some (base, l)) \<Rightarrow>
          if l < unat w \<and> unat w \<le> 32 then
            (case sim_search s c base (unat w) (Suc (length s)) of
               None \<Rightarrow> (Inl (IpamError ''no prefix available''), s)
             | Some d \<Rightarrow> (Inr (sim_prefix d c), AList.update d c s))
          else (Inl (IpamError ''invalid length''), s)
      | _ \<Rightarrow> (Inl (IpamNotFound c), s))"

definition sim_acquire_specific :: "sim \<Rightarrow> string \<Rightarrow> string \<Rightarrow> prefix result \<times> sim" where
  "sim_acquire_specific s c d =
     (if map_of s c \<noteq> None \<and> sim_free s c d then (Inr (sim_prefix d c), AList.update d c s)
      else (Inl (IpamError ''not available''), s))"

definition sim_release :: "sim \<Rightarrow> prefix \<Rightarrow> goerr option \<times> sim" where
  "sim_release s p =
     (case map_of s (Cidr p) of
        None \<Rightarrow> (Some (IpamNotFound (Cidr p)), s)
      | Some par \<Rightarrow>
          if par = [] then (Some (IpamError ''no child prefix''), s)
          else if \<exists>(d, par') \<in> set s. par' = Cidr p then (Some (IpamError ''has children''), s)
          else (None, AList.delete (Cidr p) s))"

definition sim_dump :: "sim \<Rightarrow> string result" where
  "sim_dump s = (if wf_map s then Inr (json_Marshal_outer [([], Some s)]) else Inl (LibError ''dump''))"

definition sim_load :: "sim \<Rightarrow> string \<Rightarrow> goerr option \<times> sim" where
  "sim_load s d =
     (case json_Unmarshal_outer d of
        Some [(_, Some s')] \<Rightarrow> (None, s')
      | _ \<Rightarrow> (Some (LibError ''load''), s))"

definition sim_fail :: goerr where
  "sim_fail = LibError ''not implemented''"

definition sim_goipam :: "sim goipam" where
  "sim_goipam =
     \<lparr>g_New = [], g_AcquireChildPrefix = sim_acquire, g_AcquireIP = (\<lambda>s _. (Inl sim_fail, s)),
      g_AcquireSpecificChildPrefix = sim_acquire_specific,
      g_AcquireSpecificIP = (\<lambda>s _ _. (Inl sim_fail, s)),
      g_CreateNamespace = (\<lambda>s _. (Some sim_fail, s)), g_DeleteNamespace = (\<lambda>s _. (Some sim_fail, s)),
      g_DeletePrefix = (\<lambda>s _. (Inl sim_fail, s)), g_Dump = sim_dump,
      g_ListNamespaces = (\<lambda>s. Inr [''root'']), g_Load = sim_load, g_NewPrefix = sim_new,
      g_PrefixFrom = sim_from, g_ReadAllPrefixCidrs = (\<lambda>s. Inr (map fst s)),
      g_ReleaseChildPrefix = sim_release, g_ReleaseIP = (\<lambda>s _. (Inl sim_fail, s)),
      g_ReleaseIPFromPrefix = (\<lambda>s _ _. (Some sim_fail, s))\<rparr>"

lemma sim_goipam_sel [simp]:
  "g_New sim_goipam = []" "g_AcquireChildPrefix sim_goipam = sim_acquire"
  "g_AcquireSpecificChildPrefix sim_goipam = sim_acquire_specific"
  "g_Dump sim_goipam = sim_dump" "g_Load sim_goipam = sim_load" "g_NewPrefix sim_goipam = sim_new"
  "g_PrefixFrom sim_goipam = sim_from" "g_ReleaseChildPrefix sim_goipam = sim_release"
  by (simp_all add: sim_goipam_def)

lemma known_sim: "known sim_goipam s = (\<lambda>c. map_option (sim_prefix c) (map_of s c))"
  by (rule ext) (simp add: known_def sim_from_def split: option.splits)

lemma sim_prefix_sel [simp]: "Cidr (sim_prefix c par) = c" "ParentCidr (sim_prefix c par) = par"
  by (simp_all add: sim_prefix_def)

lemma sim_search_free: "sim_search s c base n k = Some d \<Longrightarrow> sim_free s c d"
  by (induction s c base n k rule: sim_search.induct) (auto split: if_splits)

lemma sim_acquire_ok:
  "sim_acquire s c w = (Inr p, s') \<Longrightarrow>
   \<exists>d. p = sim_prefix d c \<and> s' = AList.update d c s \<and> sim_free s c d"
  by (auto simp: sim_acquire_def dest: sim_search_free
      split: option.splits prod.splits if_splits simp del: sim_search.simps)

lemma sim_acquire_err: "sim_acquire s c w = (Inl e, s') \<Longrightarrow> s' = s"
  by (auto simp: sim_acquire_def split: option.splits prod.splits if_splits simp del: sim_search.simps)

lemma sim_load_dump:
  assumes "sim_dump s = Inr d" and "sim_load t d = (None, s')"
  shows "map_of s' = map_of s"
proof -
  have wf: "wf_map s" and d: "d = json_Marshal_outer [([], Some s)]"
    using assms(1) by (auto simp: sim_dump_def split: if_splits)
  have "wf_outer [([], Some s)]" using wf by (simp add: wf_outer_def wf_map_def)
  then have "json_Unmarshal_outer d = Some [([], Some (sort_key fst s))]"
    using json_outer_roundtrip [of "[([], Some s)]"] d by (simp add: normal_outer_def)
  then show ?thesis using assms(2) map_of_sort_key [OF wf] by (auto simp: sim_load_def)
qed

interpretation sim: goipam_alloc sim_goipam cidr_addrs
proof
  show "known sim_goipam (g_New sim_goipam) = Map.empty" by (simp add: known_sim)
next
  fix s d s'
  assume "g_Dump sim_goipam s = Inr d" "g_Load sim_goipam (g_New sim_goipam) d = (None, s')"
  then show "known sim_goipam s' = known sim_goipam s"
    using sim_load_dump [of s d "[]" s'] by (simp add: known_sim)
next
  fix s c n p s' d q
  assume a: "g_AcquireChildPrefix sim_goipam s c n = (Inr p, s')"
    and k: "known sim_goipam s d = Some q" "ParentCidr q = c"
  have "(d, c) \<in> set s" using k by (auto simp: known_sim simp del: known_Some dest: map_of_SomeD)
  moreover obtain e where "p = sim_prefix e c" "sim_free s c e"
    using a by (auto dest: sim_acquire_ok)
  ultimately show "cidr_addrs d \<inter> cidr_addrs (Cidr p) = {}"
    by (intro cidr_disjointD) (auto simp: sim_free_def)
next
  fix s c d p s' e q
  assume a: "g_AcquireSpecificChildPrefix sim_goipam s c d = (Inr p, s')"
    and k: "known sim_goipam s e = Some q" "ParentCidr q = c"
  have "(e, c) \<in> set s" using k by (auto simp: known_sim simp del: known_Some dest: map_of_SomeD)
  moreover have "sim_free s c d" using a by (auto simp: sim_acquire_specific_def split: if_splits)
  ultimately show "cidr_addrs e \<inter> cidr_addrs d = {}"
    by (intro cidr_disjointD) (auto simp: sim_free_def)
qed (auto simp: known_sim sim_from_def sim_new_def sim_acquire_specific_def sim_release_def
      sim_free_def delete_conv' fun_eq_iff simp del: known_Some
      split: option.splits if_splits dest!: sim_acquire_ok sim_acquire_err cidr_withinD)


theorem wrapped_contract_witness: "goipam_contract (wrapped sim_goipam)"
  by (rule wrapped_contract [OF sim.goipam_contract_axioms])

end
