(* ===== verification/Sim_Platform.thy ===== *)
theory Sim_Platform
  imports Sim_Ipam
begin

text \<open>
  An in-memory platform cluster and simple helper functions, for the witnesses: they show that
  the hypotheses on the parameters can hold together and evaluate in the kernel.
\<close>

section \<open>Helper functions\<close>

definition sim_matches :: "selector \<Rightarrow> cluster \<Rightarrow> bool" where
  "sim_matches sel cl =
     (case matchIdentities sel of
        Some ids \<Rightarrow> (Name cl, Namespace cl) \<in> set ids
      | None \<Rightarrow> list_all (\<lambda>(k, v). map_of (Labels cl) k = Some v) (matchLabels sel))"

definition sim_convert_path :: "string \<Rightarrow> string result" where
  "sim_convert_path p =
     (case p of
        [] \<Rightarrow> Inl (LibError ''empty path'')
      | c # _ \<Rightarrow> if c = CHR ''/'' then Inr p
                 else if c = CHR ''.'' then Inr (map (\<lambda>d. if d = CHR ''.'' then CHR ''/'' else d) p)
                 else Inl (LibError ''invalid path''))"

definition sim_overlapping :: "string list \<Rightarrow> string list \<Rightarrow> goerr option" where
  "sim_overlapping as bs =
     (case List.find (\<lambda>(a, b). cidr_range a = None \<or> cidr_range b = None \<or> \<not> cidr_disjoint a b)
             (List.product as bs) of
        None \<Rightarrow> None
      | Some (a, b) \<Rightarrow>
          if cidr_range a = None \<or> cidr_range b = None then Some (IpamError ''unable to parse cidr'')
          else Some (IpamError (a @ '' overlaps '' @ b)))"

definition sim_lib :: lib where
  "sim_lib =
     \<lparr>Matches = sim_matches, ValidateSelector = (\<lambda>_. None),
      ShortenToXCharacters = (\<lambda>s n. Inr (take n s)), K8sMaxNameLength = 63,
      ConvertPath = sim_convert_path,
      AddFinalizer = (\<lambda>fs f. if f \<in> set fs then (fs, False) else (fs @ [f], True)),
      RemoveFinalizer = (\<lambda>fs f. (filter (\<lambda>g. g \<noteq> f) fs, f \<in> set fs)),
      PrefixesOverlapping = sim_overlapping,
      ClustersGroupVersion = ''clusters.openmcp.cloud/v1alpha1''\<rparr>"

lemma sim_lib_sel [simp]:
  "Matches sim_lib = sim_matches" "ValidateSelector sim_lib = (\<lambda>_. None)"
  "ShortenToXCharacters sim_lib = (\<lambda>s n. Inr (take n s))" "K8sMaxNameLength sim_lib = 63"
  "ConvertPath sim_lib = sim_convert_path"
  "AddFinalizer sim_lib = (\<lambda>fs f. if f \<in> set fs then (fs, False) else (fs @ [f], True))"
  "RemoveFinalizer sim_lib = (\<lambda>fs f. (filter (\<lambda>g. g \<noteq> f) fs, f \<in> set fs))"
  "PrefixesOverlapping sim_lib = sim_overlapping"
  by (simp_all add: sim_lib_def)

interpretation sim_finalizers: finalizer_contract sim_lib
  by unfold_locales simp_all

interpretation sim_shorten: shorten_contract sim_lib
  by unfold_locales auto

section \<open>The platform cluster\<close>

record world =
  w_clusters :: "cluster list"
  w_ccs :: "clusterConfig list"
  w_config :: "IPAMConfig option"

definition same_object :: "'a objectMeta_scheme \<Rightarrow> 'b objectMeta_scheme \<Rightarrow> bool" where
  "same_object a b \<longleftrightarrow> Namespace a = Namespace b \<and> Name a = Name b"

definition sim_put_cc :: "world \<Rightarrow> clusterConfig \<Rightarrow> world" where
  "sim_put_cc w cc =
     (if Finalizers cc = [] \<and> DeletionTimestamp cc \<noteq> None
      then w\<lparr>w_ccs := filter (\<lambda>c. \<not> same_object c cc) (w_ccs w)\<rparr>
      else w\<lparr>w_ccs := map (\<lambda>c. if same_object c cc then cc else c) (w_ccs w)\<rparr>)"

definition sim_client :: "world platform_client" where
  "sim_client =
     \<lparr>c_GetCluster = (\<lambda>w ns n. (case List.find (\<lambda>c. Namespace c = ns \<and> Name c = n) (w_clusters w) of
         None \<Rightarrow> (Inl (ApiNotFound n), w) | Some c \<Rightarrow> (Inr c, w))),
      c_GetConfig = (\<lambda>w n. (case w_config w of
         None \<Rightarrow> (Inl (ApiNotFound n), w)
       | Some c \<Rightarrow> if Name c = n then (Inr c, w) else (Inl (ApiNotFound n), w))),
      c_ListClusters = (\<lambda>w. (Inr (w_clusters w), w)),
      c_ListClusterConfigs = (\<lambda>w ls ns. (Inr (filter (\<lambda>c.
         list_all (\<lambda>(k, v). map_of (Labels c) k = Some v) ls \<and>
         (case ns of None \<Rightarrow> True | Some n \<Rightarrow> Namespace c = n)) (w_ccs w)), w)),
      c_CreateClusterConfig = (\<lambda>w cc. if list_ex (same_object cc) (w_ccs w)
         then (Inl (ApiError ''already exists''), w) else (Inr cc, w\<lparr>w_ccs := w_ccs w @ [cc]\<rparr>)),
      c_UpdateClusterConfig = (\<lambda>w cc. if list_ex (same_object cc) (w_ccs w)
         then (Inr cc, sim_put_cc w cc) else (Inl (ApiNotFound (Name cc)), w)),
      c_PatchClusterConfig = (\<lambda>w old cc. case List.find (same_object cc) (w_ccs w) of
         Some stored \<Rightarrow> (let cc' = cc\<lparr>DeletionTimestamp := DeletionTimestamp stored\<rparr>
           in (Inr cc', sim_put_cc w cc'))
       | None \<Rightarrow> (Inl (ApiNotFound (Name cc)), w)),
      c_DeleteClusterConfig = (\<lambda>w cc. if list_ex (same_object cc) (w_ccs w)
         then (None, sim_put_cc w (cc\<lparr>DeletionTimestamp := Some 0\<rparr>))
         else (Some (ApiNotFound (Name cc)), w)),
      c_PatchCluster = (\<lambda>w old cl. (Inr cl,
         w\<lparr>w_clusters := map (\<lambda>c. if same_object c cl then cl else c) (w_clusters w)\<rparr>)),
      c_RemoveClusterAnnotation = (\<lambda>w cl k. (let cl' = cl\<lparr>Annotations := AList.delete k (Annotations cl)\<rparr>
         in (Inr cl', w\<lparr>w_clusters := map (\<lambda>c. if same_object c cl then cl' else c) (w_clusters w)\<rparr>))),
      c_RemoveConfigAnnotation = (\<lambda>w cfg k. (let cfg' = cfg\<lparr>Annotations := AList.delete k (Annotations cfg)\<rparr>
         in (Inr cfg', w\<lparr>w_config := Some cfg'\<rparr>)))\<rparr>"

definition sim_selector :: selector where
  "sim_selector = \<lparr>matchIdentities = None, matchLabels = [], matchExpressions = [], matchPurposes = []\<rparr>"

definition sim_cluster :: "string \<Rightarrow> cluster" where
  "sim_cluster n =
     \<lparr>Name = n, Namespace = ''test'', UID = ''u'', Labels = [], Annotations = [], Finalizers = [],
      OwnerReferences = [], DeletionTimestamp = None, Purposes = [], ClusterConfigs = []\<rparr>"

definition sim_cc :: "string \<Rightarrow> string \<Rightarrow> string list \<Rightarrow> (string \<times> string) list \<Rightarrow> clusterConfig" where
  "sim_cc cl rule fs injs =
     \<lparr>Name = cl @ ''--ipam--'' @ rule, Namespace = ''test'', UID = [],
      Labels = [(ManagedByLabel, ''p''), (ManagedPurposeLabel, ManagedPurposeLabelValue),
        (EnvironmentLabel, ''e''), (ClusterTargetLabel, cl), (InjectionRuleLabel, rule)],
      Annotations = [], Finalizers = fs, OwnerReferences = [], DeletionTimestamp = None,
      PatchOptions = Some (Some True),
      Patches = map (\<lambda>(p, c). \<lparr>Op = ADD, PatchPath = p, PatchValue = Some (json_Marshal_string c)\<rparr>) injs\<rparr>"

end
