(* ===== verification/Shared_State.thy ===== *)
theory Shared_State
  imports Sim_Platform
begin

text \<open>
  \<^verbatim>\<open>internal/shared/config.go\<close>: the package variables of \<^verbatim>\<open>shared\<close>, which every
  part of the program reads and writes, with their accessors.  The record also carries the API
  server of the platform cluster and the events the controllers have recorded.
\<close>

datatype event_type = EventNormal | EventWarning

record k8s_event =
  ev_type :: event_type
  ev_reason :: string
  ev_action :: string

text \<open>The \<^verbatim>\<open>reconcile.Result\<close> of a controller; durations are in nanoseconds.\<close>

record reconcile_Result =
  RequeueAfter :: int

text \<open>
  \<open>ClusterWatch\<close> is the buffered channel from the config controller to the cluster
  controller, as the list of clusters waiting in it.
\<close>

record ('s, 'w) shared =
  config :: "IPAMConfig option"
  IPAM :: "'s Ipamer option"
  providerName :: string
  environment :: string
  ClusterWatch :: "cluster list"
  platform :: 'w
  recorded :: "k8s_event list"

definition ClusterWatch_capacity :: nat where
  "ClusterWatch_capacity = 1024"

text \<open>The package state after its \<^verbatim>\<open>init\<close> function.\<close>

definition shared_init :: "'w \<Rightarrow> ('s, 'w) shared" where
  "shared_init w =
     \<lparr>config = None, IPAM = None, providerName = [], environment = [], ClusterWatch = [],
      platform = w, recorded = []\<rparr>"

definition GetConfig :: "('s, 'w) shared \<Rightarrow> IPAMConfig option" where
  "GetConfig st = config st"

definition SetConfig :: "IPAMConfig option \<Rightarrow> ('s, 'w) shared \<Rightarrow> ('s, 'w) shared" where
  "SetConfig cfg st = st\<lparr>config := cfg\<rparr>"

definition ProviderName :: "('s, 'w) shared \<Rightarrow> string go" where
  "ProviderName st =
     (if providerName st = [] then Panic (PanicMessage ''provider name not set'')
      else Ret (providerName st))"

definition SetProviderName :: "string \<Rightarrow> ('s, 'w) shared \<Rightarrow> ('s, 'w) shared go" where
  "SetProviderName name st =
     (if name = [] then Panic (PanicMessage ''provider name cannot be empty'')
      else if providerName st \<noteq> [] then Panic (PanicMessage ''provider name already set'')
      else Ret (st\<lparr>providerName := name\<rparr>))"

definition Environment :: "('s, 'w) shared \<Rightarrow> string go" where
  "Environment st =
     (if environment st = [] then Panic (PanicMessage ''environment not set'')
      else Ret (environment st))"

definition SetEnvironment :: "string \<Rightarrow> ('s, 'w) shared \<Rightarrow> ('s, 'w) shared go" where
  "SetEnvironment env st =
     (if env = [] then Panic (PanicMessage ''environment cannot be empty'')
      else if environment st \<noteq> [] then Panic (PanicMessage ''environment already set'')
      else Ret (st\<lparr>environment := env\<rparr>))"

text \<open>Sending a cluster into the channel; a send into a full channel waits for the receiver.\<close>

definition send_cluster :: "cluster \<Rightarrow> ('s, 'w) shared \<Rightarrow> ('s, 'w) shared go" where
  "send_cluster cl st =
     (if length (ClusterWatch st) < ClusterWatch_capacity
      then Ret (st\<lparr>ClusterWatch := ClusterWatch st @ [cl]\<rparr>) else Block)"

text \<open>A method call on the package variable \<^verbatim>\<open>IPAM\<close>, which panics while it is nil.\<close>

definition on_IPAM :: "('s Ipamer \<Rightarrow> ('a \<times> 's Ipamer) go) \<Rightarrow> ('s, 'w) shared \<Rightarrow> ('a \<times> ('s, 'w) shared) go" where
  "on_IPAM f st =
     (case IPAM st of
        None \<Rightarrow> Panic NilDereference
      | Some i \<Rightarrow> go_bind (f i) (\<lambda>(a, i'). Ret (a, st\<lparr>IPAM := Some i'\<rparr>)))"

text \<open>\<^verbatim>\<open>Eventf\<close> on the event recorder of a controller, if it has one.\<close>

definition Eventf :: "bool \<Rightarrow> event_type \<Rightarrow> string \<Rightarrow> string \<Rightarrow> ('s, 'w) shared \<Rightarrow> ('s, 'w) shared" where
  "Eventf er typ reason action st =
     (if er then st\<lparr>recorded := recorded st @ [\<lparr>ev_type = typ, ev_reason = reason, ev_action = action\<rparr>]\<rparr>
      else st)"

text \<open>A call on the client of the platform cluster.\<close>

definition on_platform :: "('w \<Rightarrow> 'a \<times> 'w) \<Rightarrow> ('s, 'w) shared \<Rightarrow> 'a \<times> ('s, 'w) shared" where
  "on_platform f st = (case f (platform st) of (a, w') \<Rightarrow> (a, st\<lparr>platform := w'\<rparr>))"

definition configured :: "('s, 'w) shared \<Rightarrow> bool" where
  "configured st \<longleftrightarrow> providerName st \<noteq> [] \<and> environment st \<noteq> []"

text \<open>The IPAM instance exists and no method of it is running.\<close>

definition ipam_ready :: "('s, 'w) shared \<Rightarrow> bool" where
  "ipam_ready st \<longleftrightarrow> (\<exists>i. IPAM st = Some i \<and> \<not> lock i)"

definition ipam_state :: "('s, 'w) shared \<Rightarrow> 's" where
  "ipam_state st = internal (the (IPAM st))"

definition set_ipam_state :: "'s \<Rightarrow> ('s, 'w) shared \<Rightarrow> ('s, 'w) shared" where
  "set_ipam_state s st = st\<lparr>IPAM := Some ((the (IPAM st))\<lparr>internal := s\<rparr>)\<rparr>"

lemma on_platform_frame [simp]:
  assumes "on_platform f st = (a, st')"
  shows "config st' = config st" "IPAM st' = IPAM st" "providerName st' = providerName st"
    "environment st' = environment st" "ClusterWatch st' = ClusterWatch st" "recorded st' = recorded st"
  using assms by (auto simp: on_platform_def split: prod.splits)

lemma ipam_ready_cong: "IPAM st' = IPAM st \<Longrightarrow> ipam_ready st' = ipam_ready st"
  by (simp add: ipam_ready_def)

lemma ipam_state_cong: "IPAM st' = IPAM st \<Longrightarrow> ipam_state st' = ipam_state st"
  by (simp add: ipam_state_def)

lemma ipam_set [simp]:
  "ipam_state (set_ipam_state s st) = s"
  "ipam_ready st \<Longrightarrow> ipam_ready (set_ipam_state s st)"
  "platform (set_ipam_state s st) = platform st" "config (set_ipam_state s st) = config st"
  "providerName (set_ipam_state s st) = providerName st"
  "environment (set_ipam_state s st) = environment st"
  "ClusterWatch (set_ipam_state s st) = ClusterWatch st"
  "recorded (set_ipam_state s st) = recorded st"
  by (auto simp: set_ipam_state_def ipam_state_def ipam_ready_def)

lemma set_ipam_same [simp]: "ipam_ready st \<Longrightarrow> set_ipam_state (ipam_state st) st = st"
  by (auto simp: set_ipam_state_def ipam_state_def ipam_ready_def)

lemma set_ipam_twice [simp]: "set_ipam_state s (set_ipam_state t st) = set_ipam_state s st"
  by (simp add: set_ipam_state_def)

text \<open>
  A forwarded method on a ready instance is the library's operation on the shared state: the
  only way the controllers touch the IPAM state.
\<close>

lemma on_IPAM_forward:
  "ipam_ready st \<Longrightarrow>
   on_IPAM (forward f) st = Ret (fst (f (ipam_state st)), set_ipam_state (snd (f (ipam_state st))) st)"
  by (auto simp: on_IPAM_def ipam_ready_def ipam_state_def set_ipam_state_def)

text \<open>
  A call that returns (it never waits for the lock or a channel) a value and a state whose IPAM
  instance satisfy \<open>Q\<close>, unless it panics.
\<close>

definition runs_to :: "('a \<Rightarrow> 's Ipamer option \<Rightarrow> bool) \<Rightarrow> ('a \<times> ('s, 'w) shared) go \<Rightarrow> bool" where
  "runs_to Q m = (case m of Ret (a, st) \<Rightarrow> Q a (IPAM st) | Panic _ \<Rightarrow> True | Block \<Rightarrow> False)"

abbreviation runs_within :: "('s Ipamer option \<Rightarrow> bool) \<Rightarrow> ('a \<times> ('s, 'w) shared) go \<Rightarrow> bool" where
  "runs_within P \<equiv> runs_to (\<lambda>_. P)"

lemma runs_to_simps [simp]:
  "runs_to Q (Ret (a, st)) = Q a (IPAM st)" "runs_to Q (Panic p)" "\<not> runs_to Q Block"
  by (simp_all add: runs_to_def)

lemma runs_within_bind [ipam_intros]:
  "runs_within P m \<Longrightarrow> (\<And>a st. P (IPAM st) \<Longrightarrow> runs_to Q (f (a, st))) \<Longrightarrow> runs_to Q (go_bind m f)"
  by (cases m) auto

lemma runs_within_bind_pure [ipam_intros]:
  "m \<noteq> Block \<Longrightarrow> (\<And>a. m = Ret a \<Longrightarrow> runs_to Q (f a)) \<Longrightarrow> runs_to Q (go_bind m f)"
  by (cases m) (auto simp: runs_to_def)

text \<open>The IPAM instance exists, its lock is held (\<open>l\<close>) or free, and its state satisfies \<open>I\<close>.\<close>

definition ipam_sat :: "bool \<Rightarrow> ('s \<Rightarrow> bool) \<Rightarrow> 's Ipamer option \<Rightarrow> bool" where
  "ipam_sat l I i \<longleftrightarrow> (\<exists>j. i = Some j \<and> lock j = l \<and> I (internal j))"

lemma ipam_sat_ready: "ipam_sat False I (IPAM st) \<longleftrightarrow> ipam_ready st \<and> I (ipam_state st)"
  by (auto simp: ipam_sat_def ipam_ready_def ipam_state_def)

lemma ipam_sat_unlock [simp]:
  "ipam_sat l' I (map_option (\<lambda>i. i\<lparr>lock := l\<rparr>) i) \<longleftrightarrow> l' = l \<and> (ipam_sat False I i \<or> ipam_sat True I i)"
  by (cases i) (auto simp: ipam_sat_def)

lemma on_IPAM_sat:
  assumes "ipam_sat False I (IPAM st)" and "\<And>s. I s \<Longrightarrow> I (snd (f s))"
  shows "runs_within (ipam_sat False I) (on_IPAM (forward f) st)"
  using assms by (auto simp: ipam_sat_ready on_IPAM_forward)

lemma names_no_Block [simp]: "ProviderName st \<noteq> Block" "Environment st \<noteq> Block"
  by (simp_all add: ProviderName_def Environment_def)

section \<open>A state for the witnesses\<close>

definition sim_state :: "sim \<Rightarrow> world \<Rightarrow> (sim, world) shared" where
  "sim_state s w =
     \<lparr>config = w_config w, IPAM = Some \<lparr>internal = s, lock = False, parents = []\<rparr>,
      providerName = ''p'', environment = ''e'', ClusterWatch = [], platform = w, recorded = []\<rparr>"

lemma sim_state_ready [simp]: "ipam_ready (sim_state s w)" "configured (sim_state s w)"
  "ipam_state (sim_state s w) = s"
  by (simp_all add: sim_state_def ipam_ready_def configured_def ipam_state_def)

end
