(* ===== verification/Utils.thy ===== *)
theory Utils
  imports Shared_State
begin

text \<open>
  \<^verbatim>\<open>internal/shared/utils.go\<close>: labels, names and content of the generated
  ClusterConfigs, the listing functions, the order of the patches, and the release of the CIDRs
  of a ClusterConfig.
\<close>

section \<open>Labels and listings\<close>

definition EmptyClusterNamePlaceholder :: string where
  "EmptyClusterNamePlaceholder = ''ipam-empty-cluster-name-placeholder''"

text \<open>Reading a missing key of a Go map of strings gives the empty string.\<close>

definition label_of :: "'a objectMeta_scheme \<Rightarrow> string \<Rightarrow> string" where
  "label_of obj k = (case map_of (Labels obj) k of None \<Rightarrow> [] | Some v \<Rightarrow> v)"

definition ClusterConfigLabels :: "('s, 'w) shared \<Rightarrow> cluster option \<Rightarrow> string \<Rightarrow> string gomap go" where
  "ClusterConfigLabels st cl ruleID =
     go_bind (ProviderName st) (\<lambda>pn.
     go_bind (Environment st) (\<lambda>env.
       let res = [(ManagedByLabel, pn), (ManagedPurposeLabel, ManagedPurposeLabelValue),
                  (EnvironmentLabel, env)];
           res = (case cl of None \<Rightarrow> res | Some c \<Rightarrow> AList.update ClusterTargetLabel (Name c) res);
           res = (if ruleID \<noteq> [] then AList.update InjectionRuleLabel ruleID res else res)
       in Ret res))"

definition FetchClusterConfigs ::
  "'w platform_client \<Rightarrow> ('s, 'w) shared \<Rightarrow> (clusterConfig list result \<times> ('s, 'w) shared) go" where
  "FetchClusterConfigs C st =
     go_bind (ClusterConfigLabels st None []) (\<lambda>labels.
       case on_platform (\<lambda>w. c_ListClusterConfigs C w labels None) st of
         (Inl e, st') \<Rightarrow> Ret (Inl (Errorf ''error listing ClusterConfigs'' [] (Some e)), st')
       | (Inr ccs, st') \<Rightarrow> Ret (Inr ccs, st'))"

text \<open>\<^verbatim>\<open>collections.ProjectSliceToMap\<close> with the rule label as key: a later entry wins.\<close>

definition by_rule :: "clusterConfig list \<Rightarrow> clusterConfig gomap" where
  "by_rule ccs = foldl (\<lambda>m cc. AList.update (label_of cc InjectionRuleLabel) cc m) [] ccs"

definition FetchClusterConfigsForCluster ::
  "'w platform_client \<Rightarrow> cluster \<Rightarrow> ('s, 'w) shared \<Rightarrow>
     (clusterConfig gomap result \<times> ('s, 'w) shared) go" where
  "FetchClusterConfigsForCluster C cl st =
     go_bind (ClusterConfigLabels st (Some cl) []) (\<lambda>labels.
       case on_platform (\<lambda>w. c_ListClusterConfigs C w labels (Some (Namespace cl))) st of
         (Inl e, st') \<Rightarrow> Ret (Inl e, st')
       | (Inr ccs, st') \<Rightarrow> Ret (Inr (by_rule ccs), st'))"

text \<open>
  The loop of \<^verbatim>\<open>FetchRelevantClusters\<close> for a nil config: \<open>tmp\<close> maps namespaces to
  names to clusters.  Errors other than ``not found'' are collected and, as in the source,
  not returned.
\<close>

fun owners_loop ::
  "'w platform_client \<Rightarrow> clusterConfig list \<Rightarrow> cluster gomap gomap \<Rightarrow> goerr option \<Rightarrow>
     ('s, 'w) shared \<Rightarrow> (cluster gomap gomap \<times> goerr option) \<times> ('s, 'w) shared" where
  "owners_loop C [] tmp errs st = ((tmp, errs), st)"
| "owners_loop C (cc # ccs) tmp errs st =
     (case map_of (Labels cc) ClusterTargetLabel of
        None \<Rightarrow> owners_loop C ccs tmp errs st
      | Some cName \<Rightarrow>
          let ns = (case map_of tmp (Namespace cc) of None \<Rightarrow> [] | Some m \<Rightarrow> m);
              tmp' = AList.update (Namespace cc) ns tmp
          in if map_of ns cName \<noteq> None then owners_loop C ccs tmp' errs st
             else (case on_platform (\<lambda>w. c_GetCluster C w (Namespace cc) cName) st of
                     (Inl e, st') \<Rightarrow>
                       owners_loop C ccs tmp'
                         (if is_api_not_found e then errs
                          else errors_join [errs, Some (Errorf ''error fetching Cluster'' [cName] (Some e))]) st'
                   | (Inr c, st') \<Rightarrow>
                       owners_loop C ccs (AList.update (Namespace cc) (AList.update cName c ns) tmp') errs st'))"

definition FetchRelevantClusters ::
  "range_order \<Rightarrow> lib \<Rightarrow> 'w platform_client \<Rightarrow> IPAMConfig option \<Rightarrow> ('s, 'w) shared \<Rightarrow>
     (cluster list result \<times> ('s, 'w) shared) go" where
  "FetchRelevantClusters rng L C cfg st =
     (case cfg of
        None \<Rightarrow>
          go_bind (FetchClusterConfigs C st) (\<lambda>(r, st1).
            case r of
              Inl e \<Rightarrow> Ret (Inl (Errorf ''error fetching ClusterConfigs'' [] (Some e)), st1)
            | Inr ccs \<Rightarrow>
                (case owners_loop C ccs [] None st1 of
                   ((tmp, errs), st2) \<Rightarrow>
                     Ret (Inr (concat (map (go_values rng ''FetchRelevantClusters/clusters'')
                                (go_values rng ''FetchRelevantClusters/namespaces'' tmp))), st2)))
      | Some c \<Rightarrow>
          (case on_platform (c_ListClusters C) st of
             (Inl e, st') \<Rightarrow> Ret (Inl (Errorf ''unable to list Cluster resources'' [] (Some e)), st')
           | (Inr cls, st') \<Rightarrow>
               Ret (Inr (filter (\<lambda>cl. list_ex (\<lambda>rule. Matches L (rule_Selector rule) cl)
                                    (InjectionRules (Spec c))) cls), st')))"

section \<open>The order of patches\<close>

definition patchToSize :: "jsonPatch \<Rightarrow> int" where
  "patchToSize patch =
     (if Op patch \<noteq> ADD then -1
      else case PatchValue patch of None \<Rightarrow> -1
      | Some raw \<Rightarrow>
          (case json_Unmarshal_string raw of None \<Rightarrow> -1
           | Some cidr \<Rightarrow>
               let split = strings_Split (CHR ''/'') cidr
               in if length split \<noteq> 2 then -1
                  else (case strconv_Atoi (split ! 1) of
                          (n, None) \<Rightarrow> n
                        | (_, Some _) \<Rightarrow> -1)))"

definition comparePatches :: "jsonPatch \<Rightarrow> jsonPatch \<Rightarrow> int" where
  "comparePatches a b =
     (let aSize = patchToSize a; bSize = patchToSize b
      in if aSize < 0 \<or> bSize < 0 then 0
         else if aSize \<noteq> bSize then aSize - bSize
         else strings_Compare (PatchPath a) (PatchPath b))"

definition SortPatches :: "clusterConfig \<Rightarrow> clusterConfig" where
  "SortPatches cc = cc\<lparr>Patches := slices_SortStableFunc comparePatches (Patches cc)\<rparr>"

section \<open>Generated ClusterConfigs\<close>

definition GenerateClusterConfigName :: "lib \<Rightarrow> cluster option \<Rightarrow> string \<Rightarrow> string result" where
  "GenerateClusterConfigName L cl ruleID =
     (case cl of
        None \<Rightarrow> Inl (Errorf ''cluster and ruleID must not be nil or empty'' [] None)
      | Some c \<Rightarrow>
          if ruleID = [] then Inl (Errorf ''cluster and ruleID must not be nil or empty'' [] None)
          else if Name c = [] then Inr EmptyClusterNamePlaceholder
          else (case ShortenToXCharacters L (Name c @ ''--ipam--'' @ ruleID) (K8sMaxNameLength L) of
                  Inl e \<Rightarrow> Inl (Errorf ''error generating name for ClusterConfig'' [] (Some e))
                | Inr ccName \<Rightarrow> Inr ccName))"

definition injection_patch :: "string \<times> string \<Rightarrow> jsonPatch" where
  "injection_patch pc =
     \<lparr>Op = ADD, PatchPath = fst pc, PatchValue = Some (json_Marshal_string (snd pc))\<rparr>"

definition GenerateClusterConfigForInjectionList ::
  "range_order \<Rightarrow> lib \<Rightarrow> ('s, 'w) shared \<Rightarrow> cluster \<Rightarrow> string \<Rightarrow> string gomap \<Rightarrow> clusterConfig result go" where
  "GenerateClusterConfigForInjectionList rng L st cl ruleID injections =
     (case GenerateClusterConfigName L (Some cl) ruleID of
        Inl e \<Rightarrow> Ret (Inl e)
      | Inr ccName \<Rightarrow>
          go_bind (ClusterConfigLabels st (Some cl) ruleID) (\<lambda>labels.
            Ret (Inr (SortPatches
              \<lparr>Name = ccName, Namespace = Namespace cl, UID = [], Labels = labels, Annotations = [],
               Finalizers = [CIDRManagementFinalizer],
               OwnerReferences =
                 [\<lparr>or_APIVersion = ClustersGroupVersion L, or_Kind = ''Cluster'', or_Name = Name cl,
                   or_UID = UID cl, or_Controller = Some True, or_BlockOwnerDeletion = Some False\<rparr>],
               DeletionTimestamp = None, PatchOptions = Some (Some True),
               Patches = map injection_patch
                 (go_range rng ''GenerateClusterConfigForInjectionList'' injections)\<rparr>))))"

section \<open>Releasing CIDRs\<close>

text \<open>The loop over the patches, on the copied library state.\<close>

fun release_patches :: "'s goipam \<Rightarrow> jsonPatch list \<Rightarrow> 's \<Rightarrow> goerr option \<times> 's" where
  "release_patches G [] s = (None, s)"
| "release_patches G (patch # patches) s =
     (case PatchValue patch of
        None \<Rightarrow> release_patches G patches s
      | Some raw \<Rightarrow>
          (case json_Unmarshal_string raw of
             None \<Rightarrow> (Some (Errorf ''error unmarshaling value of patch'' [PatchPath patch] None), s)
           | Some cidr \<Rightarrow>
               (case g_PrefixFrom G s cidr of
                  Inl e \<Rightarrow>
                    if is_ipam_not_found e then release_patches G patches s
                    else (Some (Errorf ''error fetching prefix for CIDR'' [cidr] (Some e)), s)
                | Inr p \<Rightarrow>
                    (case g_ReleaseChildPrefix G s p of
                       (None, s') \<Rightarrow> release_patches G patches s'
                     | (Some e, s') \<Rightarrow>
                         if is_ipam_not_found e then release_patches G patches s'
                         else (Some (Errorf ''unable to release child prefix'' [Cidr p] (Some e)), s')))))"

text \<open>
  The passed object loses the finalizer before the patch is sent, so a failing patch returns it
  without the finalizer.
\<close>

definition releaseCIDRsForClusterConfig_internal ::
  "'s goipam \<Rightarrow> 'w platform_client \<Rightarrow> lib \<Rightarrow> clusterConfig \<Rightarrow> ('s, 'w) shared \<Rightarrow>
     ((goerr option \<times> clusterConfig) \<times> ('s, 'w) shared) go" where
  "releaseCIDRsForClusterConfig_internal G C L cc st =
     (case IPAM st of
        None \<Rightarrow> Panic NilDereference
      | Some i \<Rightarrow>
        (case g_Dump G (internal i) of
           Inl e \<Rightarrow> Ret ((Some (Errorf ''error dumping IPAM state'' [] (Some e)), cc), st)
         | Inr ipamData \<Rightarrow>
           (case g_Load G (g_New G) ipamData of
              (Some e, _) \<Rightarrow>
                Ret ((Some (Errorf ''error loading IPAM state into new instance'' [] (Some e)), cc), st)
            | (None, newIpam) \<Rightarrow>
              (case release_patches G (Patches cc) newIpam of
                 (Some e, _) \<Rightarrow> Ret ((Some e, cc), st)
               | (None, newIpam') \<Rightarrow>
                 (case RemoveFinalizer L (Finalizers cc) CIDRManagementFinalizer of
                    (fs, removed) \<Rightarrow>
                      let cc' = cc\<lparr>Finalizers := fs\<rparr>;
                          swap = (\<lambda>st. st\<lparr>IPAM := Some (i\<lparr>internal := newIpam'\<rparr>)\<rparr>)
                      in if removed then
                           (case on_platform (\<lambda>w. c_PatchClusterConfig C w cc cc') st of
                              (Inl e, st') \<Rightarrow>
                                Ret ((Some (Errorf ''error removing CIDR management finalizer from ClusterConfig''
                                              [Namespace cc, Name cc] (Some e)), cc'), st')
                            | (Inr cc'', st') \<Rightarrow> Ret ((None, cc''), swap st'))
                         else Ret ((None, cc'), swap st))))))"

text \<open>A body between \<^verbatim>\<open>IPAM.lock.Lock()\<close> and the deferred \<^verbatim>\<open>Unlock()\<close>.\<close>

definition with_IPAM_lock ::
  "(('s, 'w) shared \<Rightarrow> ('a \<times> ('s, 'w) shared) go) \<Rightarrow> ('s, 'w) shared \<Rightarrow> ('a \<times> ('s, 'w) shared) go" where
  "with_IPAM_lock f st =
     (case IPAM st of
        None \<Rightarrow> Panic NilDereference
      | Some i \<Rightarrow>
          if lock i then Block
          else go_bind (f (st\<lparr>IPAM := Some (i\<lparr>lock := True\<rparr>)\<rparr>)) (\<lambda>(a, st').
                 Ret (a, st'\<lparr>IPAM := map_option (\<lambda>i. i\<lparr>lock := False\<rparr>) (IPAM st')\<rparr>)))"

definition ReleaseCIDRsForClusterConfig ::
  "'s goipam \<Rightarrow> 'w platform_client \<Rightarrow> lib \<Rightarrow> clusterConfig \<Rightarrow> ('s, 'w) shared \<Rightarrow>
     ((goerr option \<times> clusterConfig) \<times> ('s, 'w) shared) go" where
  "ReleaseCIDRsForClusterConfig G C L cc =
     with_IPAM_lock (releaseCIDRsForClusterConfig_internal G C L cc)"

section \<open>Laws\<close>

subsection \<open>Sorting\<close>

text \<open>The order \<^verbatim>\<open>SortPatches\<close> is meant to establish: larger networks first, then paths.\<close>

definition patch_key :: "jsonPatch \<Rightarrow> int \<times> string" where
  "patch_key p = (patchToSize p, PatchPath p)"

lemma comparePatches_key:
  "0 \<le> patchToSize a \<Longrightarrow> 0 \<le> patchToSize b \<Longrightarrow> comparePatches a b < 0 \<longleftrightarrow> patch_key a < patch_key b"
  by (auto simp: comparePatches_def patch_key_def strings_Compare_def Let_def less_prod_def)

lemma SortPatches_sort_key:
  "(\<And>p. p \<in> set (Patches cc) \<Longrightarrow> 0 \<le> patchToSize p) \<Longrightarrow>
   Patches (SortPatches cc) = sort_key patch_key (Patches cc)"
  by (simp add: SortPatches_def SortStableFunc_key comparePatches_key)

lemma SortPatches_frame [simp]:
  "Name (SortPatches cc) = Name cc" "Namespace (SortPatches cc) = Namespace cc"
  "Labels (SortPatches cc) = Labels cc" "Finalizers (SortPatches cc) = Finalizers cc"
  "OwnerReferences (SortPatches cc) = OwnerReferences cc"
  "DeletionTimestamp (SortPatches cc) = DeletionTimestamp cc"
  "set (Patches (SortPatches cc)) = set (Patches cc)"
  "mset (Patches (SortPatches cc)) = mset (Patches cc)"
  by (simp_all add: SortPatches_def)

lemma patchToSize_injection_patch:
  "patchToSize (injection_patch (p, c)) =
     (let split = strings_Split (CHR ''/'') c
      in if length split \<noteq> 2 then -1
         else (case strconv_Atoi (split ! 1) of (n, None) \<Rightarrow> n | (_, Some _) \<Rightarrow> -1))"
  by (simp add: patchToSize_def injection_patch_def)

lemma injection_patch_inj [simp]: "injection_patch a = injection_patch b \<longleftrightarrow> a = b"
proof
  assume eq: "injection_patch a = injection_patch b"
  then have "fst a = fst b" and "json_Marshal_string (snd a) = json_Marshal_string (snd b)"
    by (simp_all add: injection_patch_def)
  moreover from this(2) have "snd a = snd b"
    by (metis json_string_roundtrip option.inject)
  ultimately show "a = b" by (simp add: prod_eq_iff)
qed simp

text \<open>C28: the patches of a ClusterConfig whose values all are CIDRs are sorted by increasing prefix
  length (so a network comes before the networks inside it) and, among equal lengths, by path;
  the sort is stable and only permutes the patches.\<close>

theorem SortPatches_sorted:
  assumes "\<forall>p \<in> set (Patches cc). 0 \<le> patchToSize p"
  shows "sorted_wrt (\<lambda>p q. patchToSize p < patchToSize q \<or>
      patchToSize p = patchToSize q \<and> PatchPath p \<le> PatchPath q) (Patches (SortPatches cc)) \<and>
    mset (Patches (SortPatches cc)) = mset (Patches cc) \<and>
    Patches (SortPatches cc) = sort_key patch_key (Patches cc)"
proof -
  have eq: "Patches (SortPatches cc) = sort_key patch_key (Patches cc)"
    using assms by (simp add: SortPatches_sort_key)
  have "sorted (map patch_key (Patches (SortPatches cc)))"
    by (simp add: eq)
  then have "sorted_wrt (\<lambda>p q. patch_key p \<le> patch_key q) (Patches (SortPatches cc))"
    by (simp add: sorted_map)
  then have "sorted_wrt (\<lambda>p q. patchToSize p < patchToSize q \<or>
      patchToSize p = patchToSize q \<and> PatchPath p \<le> PatchPath q) (Patches (SortPatches cc))"
    by (rule sorted_wrt_mono_rel [rotated]) (auto simp: patch_key_def less_eq_prod_def)
  then show ?thesis using eq by simp
qed

theorem SortPatches_sorted_witness:
  "map PatchPath (Patches (SortPatches (sim_cc ''c'' ''r'' []
     [(''/b'', ''10.0.0.0/28''), (''/z'', ''10.0.0.0/24''), (''/a'', ''10.0.0.16/28'')]))) = [''/z'', ''/a'', ''/b'']"
proof -
  let ?cc = "sim_cc ''c'' ''r'' []
     [(''/b'', ''10.0.0.0/28''), (''/z'', ''10.0.0.0/24''), (''/a'', ''10.0.0.16/28'')]"
  have "\<forall>p \<in> set (Patches ?cc). 0 \<le> patchToSize p" by code_simp
  from SortPatches_sorted [OF this]
  have "Patches (SortPatches ?cc) = sort_key patch_key (Patches ?cc)" by simp
  then show ?thesis by (simp only:) code_simp
qed

subsection \<open>Generated ClusterConfigs\<close>

lemma ClusterConfigLabels_configured:
  assumes "configured st"
  shows "\<exists>m. ClusterConfigLabels st cl ruleID = Ret m \<and> wf_map m \<and>
    map_of m ManagedByLabel = Some (providerName st) \<and>
    map_of m ManagedPurposeLabel = Some ManagedPurposeLabelValue \<and>
    map_of m EnvironmentLabel = Some (environment st) \<and>
    map_of m ClusterTargetLabel = map_option Name cl \<and>
    map_of m InjectionRuleLabel = (if ruleID = [] then None else Some ruleID)"
  using assms
  by (auto simp: ClusterConfigLabels_def configured_def ProviderName_def Environment_def Let_def
      label_defs wf_map_def split: option.splits)

lemma GenerateClusterConfigName_Inr:
  "GenerateClusterConfigName L (Some cl) ruleID = Inr n \<Longrightarrow>
   ruleID \<noteq> [] \<and> (if Name cl = [] then n = EmptyClusterNamePlaceholder
     else ShortenToXCharacters L (Name cl @ ''--ipam--'' @ ruleID) (K8sMaxNameLength L) = Inr n)"
  by (auto simp: GenerateClusterConfigName_def split: if_splits sum.splits)

text \<open>What a successful generation returns.\<close>

lemma GenerateClusterConfig_fields:
  assumes "GenerateClusterConfigForInjectionList rng L st cl ruleID injs = Ret (Inr cc)"
  shows "GenerateClusterConfigName L (Some cl) ruleID = Inr (Name cc)"
    and "ClusterConfigLabels st (Some cl) ruleID = Ret (Labels cc)"
    and "Namespace cc = Namespace cl" and "Finalizers cc = [CIDRManagementFinalizer]"
    and "DeletionTimestamp cc = None"
    and "mset (Patches cc) =
      mset (map injection_patch (go_range rng ''GenerateClusterConfigForInjectionList'' injs))"
  using assms
  by (auto simp: GenerateClusterConfigForInjectionList_def split: sum.splits)

lemma GenerateClusterConfig_labels:
  assumes "configured st" and "GenerateClusterConfigForInjectionList rng L st cl ruleID injs = Ret (Inr cc)"
  shows "label_of cc ClusterTargetLabel = Name cl" and "label_of cc InjectionRuleLabel = ruleID"
  using ClusterConfigLabels_configured [OF assms(1), of "Some cl" ruleID]
    GenerateClusterConfig_fields(1,2) [OF assms(2)] GenerateClusterConfigName_Inr [of L cl ruleID "Name cc"]
  by (auto simp: label_of_def)

context map_iteration
begin

lemma GenerateClusterConfig_patches:
  assumes "GenerateClusterConfigForInjectionList rng L st cl ruleID injs = Ret (Inr cc)" and "wf_map injs"
  shows "mset (Patches cc) = mset (map injection_patch injs)"
    and "set (Patches cc) = injection_patch ` set injs"
proof -
  show *: "mset (Patches cc) = mset (map injection_patch injs)"
    using GenerateClusterConfig_fields(6) [OF assms(1)] mset_go_range [OF assms(2)] by simp
  show "set (Patches cc) = injection_patch ` set injs"
    using mset_eq_setD [OF *] by simp
qed

end

text \<open>C29: the ClusterConfig generated for a list of injections carries exactly those injections:
  it has one add-patch per path, and decoding the patches gives back the CIDR of every path.  It
  has the management finalizer, lives in the namespace of the Cluster, is labelled with the
  Cluster and the rule, and is not in deletion.\<close>

theorem generated_ClusterConfig_content:
  assumes "map_iteration rng" and "wf_map injs" and "configured st"
    and "GenerateClusterConfigForInjectionList rng L st cl ruleID injs = Ret (Inr cc)"
  shows "(\<forall>path c. map_of injs path = Some c \<longleftrightarrow>
      (\<exists>patch \<in> set (Patches cc). \<exists>raw. Op patch = ADD \<and> PatchPath patch = path \<and>
         PatchValue patch = Some raw \<and> json_Unmarshal_string raw = Some c)) \<and>
    length (Patches cc) = length injs \<and> Finalizers cc = [CIDRManagementFinalizer] \<and>
    Namespace cc = Namespace cl \<and> DeletionTimestamp cc = None \<and>
    label_of cc ClusterTargetLabel = Name cl \<and> label_of cc InjectionRuleLabel = ruleID"
proof -
  note fields = GenerateClusterConfig_fields [OF assms(4)]
  note patches = map_iteration.GenerateClusterConfig_patches [OF assms(1,4,2)]
  have "map_of injs path = Some c \<longleftrightarrow>
      (\<exists>patch \<in> set (Patches cc). \<exists>raw. Op patch = ADD \<and> PatchPath patch = path \<and>
         PatchValue patch = Some raw \<and> json_Unmarshal_string raw = Some c)" for path c
    using assms(2) by (force simp: patches(2) injection_patch_def wf_map_of_iff)
  moreover have "length (Patches cc) = length injs"
    using mset_eq_length [OF patches(1)] by simp
  ultimately show ?thesis
    using GenerateClusterConfig_labels [OF assms(3,4)] fields by auto
qed

text \<open>C30: the generated ClusterConfig does not depend on the order in which Go happens to iterate
  over the map of injections, as long as every value is a CIDR with a numeric prefix length.\<close>

theorem generated_ClusterConfig_deterministic:
  assumes "map_iteration rng" and "map_iteration rng'" and "wf_map injs"
    and "\<forall>pc \<in> set injs. 0 \<le> patchToSize (injection_patch pc)"
  shows "GenerateClusterConfigForInjectionList rng L st cl ruleID injs =
    GenerateClusterConfigForInjectionList rng' L st cl ruleID injs"
proof -
  let ?site = "''GenerateClusterConfigForInjectionList''"
  let ?ps = "map injection_patch (go_range rng ?site injs)"
  let ?qs = "map injection_patch (go_range rng' ?site injs)"
  note m = map_iteration.mset_go_range [OF assms(1,3), of ?site]
    map_iteration.mset_go_range [OF assms(2,3), of ?site]
  have sets: "set ?ps = injection_patch ` set injs" "set ?qs = injection_patch ` set injs"
    using mset_eq_setD [OF m(1)] mset_eq_setD [OF m(2)] by simp_all
  have "inj_on patch_key (injection_patch ` set injs)"
    using assms(3)
    by (auto simp: inj_on_def patch_key_def injection_patch_def wf_map_def dest: eq_key_imp_eq_value)
  then have "sort_key patch_key ?ps = sort_key patch_key ?qs"
    using m sets(1) by (intro sort_key_inj_key_eq) (simp_all add: sorted_sort_key)
  moreover have "slices_SortStableFunc comparePatches ?ps = sort_key patch_key ?ps"
    "slices_SortStableFunc comparePatches ?qs = sort_key patch_key ?qs"
    using assms(4) by (intro SortStableFunc_key; unfold sets; auto simp: comparePatches_key)+
  ultimately show ?thesis
    by (simp add: GenerateClusterConfigForInjectionList_def SortPatches_def split: sum.split)
qed

theorem generated_ClusterConfig_deterministic_witness:
  "GenerateClusterConfigForInjectionList insertion_order sim_lib (sim_state [] \<lparr>w_clusters = [], w_ccs = [], w_config = None\<rparr>)
     (sim_cluster ''c'') ''r'' [(''/b'', ''10.0.0.0/28''), (''/a'', ''10.0.0.0/24'')] =
   GenerateClusterConfigForInjectionList sorted_order sim_lib (sim_state [] \<lparr>w_clusters = [], w_ccs = [], w_config = None\<rparr>)
     (sim_cluster ''c'') ''r'' [(''/b'', ''10.0.0.0/28''), (''/a'', ''10.0.0.0/24'')]"
proof (rule generated_ClusterConfig_deterministic [OF insertion.map_iteration_axioms sorted_iter.map_iteration_axioms])
  show "wf_map [(''/b'', ''10.0.0.0/28''), (''/a'', ''10.0.0.0/24'')]" by code_simp
  show "\<forall>pc \<in> set [(''/b'', ''10.0.0.0/28''), (''/a'', ''10.0.0.0/24'')].
      0 \<le> patchToSize (injection_patch pc)" by code_simp
qed

theorem generated_ClusterConfig_content_witness:
  "\<exists>cc. GenerateClusterConfigForInjectionList insertion_order sim_lib
       (sim_state [] \<lparr>w_clusters = [], w_ccs = [], w_config = None\<rparr>) (sim_cluster ''c'') ''r'' [(''/b'', ''10.0.0.0/28'')] =
         Ret (Inr cc) \<and> length (Patches cc) = 1 \<and>
     (\<exists>patch \<in> set (Patches cc). \<exists>raw. Op patch = ADD \<and> PatchPath patch = ''/b'' \<and>
        PatchValue patch = Some raw \<and> json_Unmarshal_string raw = Some ''10.0.0.0/28'')"
proof -
  let ?st = "sim_state [] \<lparr>w_clusters = [], w_ccs = [], w_config = None\<rparr>"
  let ?injs = "[(''/b'', ''10.0.0.0/28'')]"
  obtain m where "ClusterConfigLabels ?st (Some (sim_cluster ''c'')) ''r'' = Ret m"
    using ClusterConfigLabels_configured [of ?st] by auto
  then obtain cc where cc: "GenerateClusterConfigForInjectionList insertion_order sim_lib ?st
      (sim_cluster ''c'') ''r'' ?injs = Ret (Inr cc)"
    by (simp add: GenerateClusterConfigForInjectionList_def GenerateClusterConfigName_def sim_cluster_def)
  have "wf_map ?injs" "configured ?st" by (simp_all add: wf_map_def)
  note content = generated_ClusterConfig_content [OF insertion.map_iteration_axioms this cc]
  have "length (Patches cc) = 1" using content by simp
  moreover have "map_of ?injs ''/b'' = Some ''10.0.0.0/28''" by simp
  then have "\<exists>patch \<in> set (Patches cc). \<exists>raw. Op patch = ADD \<and> PatchPath patch = ''/b'' \<and>
      PatchValue patch = Some raw \<and> json_Unmarshal_string raw = Some ''10.0.0.0/28''"
    using content by blast
  ultimately show ?thesis using cc by blast
qed

subsection \<open>Releasing CIDRs\<close>

text \<open>The CIDRs the patches of a ClusterConfig mention.\<close>

definition patch_cidrs :: "jsonPatch list \<Rightarrow> string set" where
  "patch_cidrs ps =
     {c. \<exists>p \<in> set ps. \<exists>raw. PatchValue p = Some raw \<and> json_Unmarshal_string raw = Some c}"

lemma patch_cidrs_simps [simp]:
  "patch_cidrs [] = {}"
  "patch_cidrs (p # ps) =
     (case PatchValue p of None \<Rightarrow> {} | Some raw \<Rightarrow>
        (case json_Unmarshal_string raw of None \<Rightarrow> {} | Some c \<Rightarrow> {c})) \<union> patch_cidrs ps"
  by (auto simp: patch_cidrs_def split: option.splits)

context goipam_contract
begin

lemma release_one:
  assumes "g_PrefixFrom G s c = Inr p" and "g_ReleaseChildPrefix G s p = (None, s')"
  shows "known G s' = (known G s)(c := None)"
  using ReleaseChildPrefix_ok [OF assms(2)] PrefixFrom_Cidr [OF assms(1)] by simp

lemma release_not_found:
  assumes "g_PrefixFrom G s c = Inr p" and "g_ReleaseChildPrefix G s p = (Some e, s')"
  shows "\<not> is_ipam_not_found e"
  using ReleaseChildPrefix_err [OF assms(2)] PrefixFrom_Cidr [OF assms(1)] assms(1) by auto

lemma release_patches_ok:
  "release_patches G ps s = (None, s') \<Longrightarrow>
   known G s' = (\<lambda>c. if c \<in> patch_cidrs ps then None else known G s c)"
proof (induction ps arbitrary: s)
  case (Cons patch ps)
  consider (skip) "PatchValue patch = None" "release_patches G ps s = (None, s')"
    | (absent) raw c e where "PatchValue patch = Some raw" "json_Unmarshal_string raw = Some c"
        "g_PrefixFrom G s c = Inl e" "release_patches G ps s = (None, s')"
    | (released) raw c p s1 where "PatchValue patch = Some raw" "json_Unmarshal_string raw = Some c"
        "g_PrefixFrom G s c = Inr p" "g_ReleaseChildPrefix G s p = (None, s1)"
        "release_patches G ps s1 = (None, s')"
    using Cons.prems
    by (auto split: option.splits sum.splits if_splits prod.splits dest: release_not_found)
  then show ?case
  proof cases
    case skip
    then show ?thesis using Cons.IH by simp
  next
    case absent
    then have "known G s c = None" by (auto simp: known_None)
    then show ?thesis using absent Cons.IH by auto
  next
    case released
    then show ?thesis using Cons.IH [OF released(5)] release_one [OF released(3,4)] by auto
  qed
qed simp

end

lemma with_IPAM_lock_Ret:
  "with_IPAM_lock f st = Ret (a, st') \<longleftrightarrow>
   (\<exists>i st1. IPAM st = Some i \<and> \<not> lock i \<and> f (st\<lparr>IPAM := Some (i\<lparr>lock := True\<rparr>)\<rparr>) = Ret (a, st1) \<and>
      st' = st1\<lparr>IPAM := map_option (\<lambda>i. i\<lparr>lock := False\<rparr>) (IPAM st1)\<rparr>)"
  by (auto simp: with_IPAM_lock_def split: option.splits)

text \<open>The three ways the internal release ends.\<close>

lemma release_internal_cases:
  assumes "releaseCIDRsForClusterConfig_internal G C L cc st = Ret ((e, cc'), st')"
  obtains (failed) err where "e = Some err" "IPAM st' = IPAM st"
  | (swapped) i d s0 s1 where "e = None" "IPAM st = Some i" "g_Dump G (internal i) = Inr d"
      "g_Load G (g_New G) d = (None, s0)" "release_patches G (Patches cc) s0 = (None, s1)"
      "IPAM st' = Some (i\<lparr>internal := s1\<rparr>)"
  using assms
  by (auto simp: releaseCIDRsForClusterConfig_internal_def Let_def
      split: option.splits sum.splits prod.splits if_splits)

lemma ReleaseCIDRs_outcome:
  assumes "goipam_contract G"
    and "ReleaseCIDRsForClusterConfig G C L cc st = Ret ((e, cc'), st')"
  shows "ipam_ready st' \<and>
    (e \<noteq> None \<longrightarrow> ipam_state st' = ipam_state st) \<and>
    (e = None \<longrightarrow> known G (ipam_state st') =
       (\<lambda>c. if c \<in> patch_cidrs (Patches cc) then None else known G (ipam_state st) c))"
proof -
  obtain i st1 where i: "IPAM st = Some i" "\<not> lock i"
    and r: "releaseCIDRsForClusterConfig_internal G C L cc (st\<lparr>IPAM := Some (i\<lparr>lock := True\<rparr>)\<rparr>) =
      Ret ((e, cc'), st1)"
    and st': "st' = st1\<lparr>IPAM := map_option (\<lambda>i. i\<lparr>lock := False\<rparr>) (IPAM st1)\<rparr>"
    using assms(2) by (auto simp: ReleaseCIDRsForClusterConfig_def with_IPAM_lock_Ret)
  from r show ?thesis
  proof (cases rule: release_internal_cases)
    case failed
    then show ?thesis using i st' by (simp add: ipam_ready_def ipam_state_def)
  next
    case (swapped j d s0 s1)
    have "known G s1 = (\<lambda>c. if c \<in> patch_cidrs (Patches cc) then None else known G s0 c)"
      by (rule goipam_contract.release_patches_ok [OF assms(1) swapped(5)])
    moreover have "known G s0 = known G (internal i)"
      using goipam_contract.Load_Dump [OF assms(1) swapped(3,4)] swapped(2) by auto
    moreover have "ipam_state st = internal i" "ipam_state st' = s1" "ipam_ready st'"
      using i st' swapped by (auto simp: ipam_ready_def ipam_state_def)
    ultimately show ?thesis using swapped(1) by (simp add: fun_eq_iff)
  qed
qed

text \<open>C9: releasing the CIDRs of a ClusterConfig is atomic. If it reports an error, the IPAM state
  is the one before the call. If it succeeds, every CIDR of the patches is free and every other
  CIDR is blocked exactly as before. In both cases the IPAM lock is free again.\<close>

theorem ReleaseCIDRs_atomic:
  assumes "goipam_contract G"
    and "ReleaseCIDRsForClusterConfig G C L cc st = Ret ((e, cc'), st')"
  shows "ipam_ready st' \<and>
    (e \<noteq> None \<longrightarrow> ipam_state st' = ipam_state st) \<and>
    (e = None \<longrightarrow> known G (ipam_state st') =
       (\<lambda>c. if c \<in> patch_cidrs (Patches cc) then None else known G (ipam_state st) c))"
  by (rule ReleaseCIDRs_outcome [OF assms])

definition w_release :: world where
  "w_release = \<lparr>w_clusters = [],
     w_ccs = [sim_cc ''c'' ''r'' [CIDRManagementFinalizer] [(''/a'', ''10.0.0.0/24'')]], w_config = None\<rparr>"

definition s_release :: sim where
  "s_release = [(''10.0.0.0/16'', []), (''10.0.0.0/24'', ''10.0.0.0/16'')]"

theorem ReleaseCIDRs_atomic_witness:
  "case ReleaseCIDRsForClusterConfig sim_goipam sim_client sim_lib
      (sim_cc ''c'' ''r'' [CIDRManagementFinalizer] [(''/a'', ''10.0.0.0/24'')])
      (sim_state s_release w_release) of
    Ret ((None, cc), st) \<Rightarrow> ipam_ready st \<and> known sim_goipam (ipam_state st) ''10.0.0.0/24'' = None \<and>
      known sim_goipam (ipam_state st) ''10.0.0.0/16'' \<noteq> None
  | _ \<Rightarrow> False"
proof -
  let ?cc = "sim_cc ''c'' ''r'' [CIDRManagementFinalizer] [(''/a'', ''10.0.0.0/24'')]"
  let ?r = "ReleaseCIDRsForClusterConfig sim_goipam sim_client sim_lib ?cc (sim_state s_release w_release)"
  have "(case ?r of Ret ((None, _), _) \<Rightarrow> True | _ \<Rightarrow> False)" by code_simp
  then obtain cc st where r: "?r = Ret ((None, cc), st)"
    by (auto split: go.splits prod.splits option.splits)
  have "''10.0.0.0/24'' \<in> patch_cidrs (Patches ?cc)" "''10.0.0.0/16'' \<notin> patch_cidrs (Patches ?cc)"
    by (simp_all add: sim_cc_def)
  moreover have "known sim_goipam s_release ''10.0.0.0/16'' \<noteq> None" by code_simp
  ultimately show ?thesis
    using ReleaseCIDRs_atomic [OF sim.goipam_contract_axioms r] r by (simp del: known_Some)
qed


end
