(* ===== verification/Restore.thy ===== *)
theory Restore
  imports Utils
begin

text \<open>
  \<^verbatim>\<open>internal/shared/restore.go\<close>: comparing the expected with the existing ClusterConfigs of
  a Cluster, cleaning up orphaned ClusterConfigs, and rebuilding the IPAM state from the cluster
  state.
\<close>

section \<open>Restoration instructions\<close>

record RestorationInstruction =
  ClusterConfigsToCreate :: "clusterConfig list"
  ClusterConfigsToUpdate :: "clusterConfig list"

definition RI_Size :: "RestorationInstruction option \<Rightarrow> nat \<times> nat" where
  "RI_Size ri =
     (case ri of None \<Rightarrow> (0, 0)
      | Some r \<Rightarrow> (length (ClusterConfigsToCreate r), length (ClusterConfigsToUpdate r)))"

fun apply_each ::
  "('w \<Rightarrow> clusterConfig \<Rightarrow> clusterConfig result \<times> 'w) \<Rightarrow> string \<Rightarrow> clusterConfig list \<Rightarrow> goerr option \<Rightarrow>
     ('s, 'w) shared \<Rightarrow> goerr option \<times> ('s, 'w) shared" where
  "apply_each f msg [] errs st = (errs, st)"
| "apply_each f msg (cc # ccs) errs st =
     (case on_platform (\<lambda>w. f w cc) st of
        (Inl e, st') \<Rightarrow>
          apply_each f msg ccs (errors_join [errs, Some (Errorf msg [Namespace cc, Name cc] (Some e))]) st'
      | (Inr _, st') \<Rightarrow> apply_each f msg ccs errs st')"

definition RI_Apply ::
  "'w platform_client \<Rightarrow> RestorationInstruction option \<Rightarrow> ('s, 'w) shared \<Rightarrow> goerr option \<times> ('s, 'w) shared" where
  "RI_Apply C ri st =
     (case ri of None \<Rightarrow> (None, st)
      | Some r \<Rightarrow>
          (case apply_each (c_CreateClusterConfig C) ''error creating ClusterConfig''
                  (ClusterConfigsToCreate r) None st of
             (errs, st1) \<Rightarrow>
               (case apply_each (c_UpdateClusterConfig C) ''error updating ClusterConfig''
                       (ClusterConfigsToUpdate r) errs st1 of
                  (None, st2) \<Rightarrow> (None, st2)
                | (Some e, st2) \<Rightarrow>
                    (Some (Errorf ''one or more errors occurred trying to create/update ClusterConfigs'' []
                       (Some e)), st2))))"

section \<open>CheckClusterConfigsForCluster\<close>

text \<open>Reading a possibly nil map of injections.\<close>

definition nil_to_empty :: "nilmap \<Rightarrow> string gomap" where
  "nil_to_empty m = (case m of None \<Rightarrow> [] | Some al \<Rightarrow> al)"

text \<open>The injections of one applied rule that its ClusterConfig, if any, lacks.\<close>

definition missing_for :: "clusterConfig option \<Rightarrow> nilmap \<Rightarrow> string gomap" where
  "missing_for cc injections =
     (case cc of
        None \<Rightarrow> nil_to_empty injections
      | Some c \<Rightarrow> filter (\<lambda>(path, cidr). \<not> list_ex (\<lambda>patch. PatchPath patch = path) (Patches c))
                   (nil_to_empty injections))"

definition missing_injections ::
  "range_order \<Rightarrow> AppliedRulesAnnotation \<Rightarrow> clusterConfig gomap \<Rightarrow> string gomap gomap" where
  "missing_injections rng appliedRules ccs =
     map (\<lambda>(ruleID, injections). (ruleID, missing_for (map_of ccs ruleID) injections))
       (go_range rng ''CheckClusterConfigsForCluster/appliedRules'' appliedRules)"

text \<open>
  The loop over the missing injections.  It carries the ClusterConfigs to create, the
  ClusterConfigs to update and the errors.
\<close>

fun plan_loop ::
  "range_order \<Rightarrow> lib \<Rightarrow> ('s, 'w) shared \<Rightarrow> cluster \<Rightarrow> clusterConfig gomap \<Rightarrow>
     (string \<times> string gomap) list \<Rightarrow> clusterConfig gomap \<Rightarrow> clusterConfig gomap \<Rightarrow> goerr option \<Rightarrow>
     (clusterConfig gomap \<times> clusterConfig gomap \<times> goerr option) go" where
  "plan_loop rng L st cl ccs [] newCCs updatedCCs errs = Ret (newCCs, updatedCCs, errs)"
| "plan_loop rng L st cl ccs ((ruleID, injections) # rest) newCCs updatedCCs errs =
     (if injections = [] then plan_loop rng L st cl ccs rest newCCs updatedCCs errs
      else case map_of ccs ruleID of
        None \<Rightarrow>
          go_bind (GenerateClusterConfigForInjectionList rng L st cl ruleID injections) (\<lambda>r.
            case r of
              Inl e \<Rightarrow> plan_loop rng L st cl ccs rest newCCs updatedCCs
                (errors_join [errs, Some (Errorf ''error generating ClusterConfig for rule'' [ruleID] (Some e))])
            | Inr newCC \<Rightarrow>
                plan_loop rng L st cl ccs rest
                  (if Name newCC = EmptyClusterNamePlaceholder then newCCs
                   else AList.update ruleID newCC newCCs) updatedCCs errs)
      | Some cc \<Rightarrow>
          plan_loop rng L st cl ccs rest newCCs
            (AList.update ruleID
               (cc\<lparr>Patches := Patches cc @
                  map injection_patch (go_range rng ''CheckClusterConfigsForCluster/patches'' injections)\<rparr>)
               updatedCCs) errs)"

text \<open>The loop that adds the management finalizer to ClusterConfigs which lost it.\<close>

definition finalizer_step ::
  "lib \<Rightarrow> clusterConfig gomap \<Rightarrow> string \<times> clusterConfig \<Rightarrow> clusterConfig gomap" where
  "finalizer_step L updatedCCs rc =
     (case rc of (ruleID, cc) \<Rightarrow>
        if CIDRManagementFinalizer \<notin> set (Finalizers cc) \<and> DeletionTimestamp cc = None then
          let newCC = (case map_of updatedCCs ruleID of None \<Rightarrow> cc | Some c \<Rightarrow> c)
          in (case AddFinalizer L (Finalizers newCC) CIDRManagementFinalizer of
                (fs, added) \<Rightarrow>
                  if added then AList.update ruleID (newCC\<lparr>Finalizers := fs\<rparr>) updatedCCs
                  else updatedCCs)
        else updatedCCs)"

definition CheckClusterConfigsForCluster ::
  "range_order \<Rightarrow> lib \<Rightarrow> 'w platform_client \<Rightarrow> cluster \<Rightarrow> AppliedRulesAnnotation option \<Rightarrow>
     clusterConfig gomap option \<Rightarrow> ('s, 'w) shared \<Rightarrow>
     (RestorationInstruction result \<times> ('s, 'w) shared) go" where
  "CheckClusterConfigsForCluster rng L C cl appliedRules ccs st =
     (case (case appliedRules of
              Some a \<Rightarrow> Inr a
            | None \<Rightarrow> (case map_of (Annotations cl) AppliedRulesAnnotationKey of
                         None \<Rightarrow> Inr []
                       | Some s \<Rightarrow> FromAnnotation s)) of
        Inl e \<Rightarrow> Ret (Inl (Errorf ''unable to recover applied rules'' [] (Some e)), st)
      | Inr applied \<Rightarrow>
          go_bind (case ccs of
                     Some m \<Rightarrow> Ret (Inr m, st)
                   | None \<Rightarrow> FetchClusterConfigsForCluster C cl st) (\<lambda>(r, st1).
            case r of
              Inl e \<Rightarrow> Ret (Inl (Errorf ''unable to fetch ClusterConfigs for cluster'' [] (Some e)), st1)
            | Inr ccmap \<Rightarrow>
                go_bind (plan_loop rng L st1 cl ccmap
                           (go_range rng ''CheckClusterConfigsForCluster/missing''
                              (missing_injections rng applied ccmap)) [] [] None)
                  (\<lambda>(newCCs, updatedCCs, errs).
                     case errs of
                       Some e \<Rightarrow> Ret (Inl (Errorf ''one or more errors occurred trying to generate ClusterConfigs for missing injections'' [] (Some e)), st1)
                     | None \<Rightarrow>
                         let updatedCCs' = foldl (finalizer_step L) updatedCCs
                               (go_range rng ''CheckClusterConfigsForCluster/finalizers'' ccmap)
                         in Ret (Inr \<lparr>ClusterConfigsToCreate = go_values rng ''CheckClusterConfigsForCluster/new'' newCCs,
                              ClusterConfigsToUpdate = map SortPatches
                                (go_values rng ''CheckClusterConfigsForCluster/updated'' updatedCCs')\<rparr>, st1))))"

section \<open>Building the IPAM state\<close>

definition fetchOrNewPrefix :: "'s goipam \<Rightarrow> string \<Rightarrow> 's \<Rightarrow> prefix result \<times> 's" where
  "fetchOrNewPrefix G cidr s =
     (case g_PrefixFrom G s cidr of
        Inr p \<Rightarrow> (Inr p, s)
      | Inl e \<Rightarrow>
          if \<not> is_ipam_not_found e
            then (Inl (Errorf ''error checking for existing parent prefix'' [cidr] (Some e)), s)
          else (case g_NewPrefix G s cidr of
                  (Inl e', s') \<Rightarrow> (Inl (Errorf ''error registering parent prefix'' [cidr] (Some e')), s')
                | (Inr p, s') \<Rightarrow> (Inr p, s')))"

definition reverse :: "'a list \<Rightarrow> 'a list" where
  "reverse src = rev src"

fun identify_in :: "lib \<Rightarrow> string \<Rightarrow> prefix list \<Rightarrow> prefix option result" where
  "identify_in L child [] = Inr None"
| "identify_in L child (parent # ps) =
     (case PrefixesOverlapping L [Cidr parent] [child] of
        None \<Rightarrow> identify_in L child ps
      | Some e \<Rightarrow>
          if \<not> strings_Contains (error_text e) ''overlaps''
            then Inl (Errorf ''error checking for overlapping prefixes'' [Cidr parent, child] (Some e))
          else Inr (Some parent))"

definition identifyParentPrefix :: "lib \<Rightarrow> string \<Rightarrow> prefix list list \<Rightarrow> prefix option result" where
  "identifyParentPrefix L child parentLists = identify_in L child (concat parentLists)"

fun register_config :: "'s goipam \<Rightarrow> string list \<Rightarrow> prefix list \<Rightarrow> 's \<Rightarrow> prefix list result \<times> 's" where
  "register_config G [] acc s = (Inr acc, s)"
| "register_config G (cidr # cidrs) acc s =
     (case fetchOrNewPrefix G cidr s of
        (Inl e, s') \<Rightarrow> (Inl (Errorf ''error registering parent prefix from config'' [cidr] (Some e)), s')
      | (Inr p, s') \<Rightarrow> register_config G cidrs (acc @ [p]) s')"

fun restore_patches ::
  "'s goipam \<Rightarrow> lib \<Rightarrow> prefix list \<Rightarrow> jsonPatch list \<Rightarrow> prefix list \<Rightarrow> 's \<Rightarrow> (goerr option \<times> 's) go" where
  "restore_patches G L pars [] tmpParents s = Ret (None, s)"
| "restore_patches G L pars (patch # patches) tmpParents s =
     (if Op patch \<noteq> ADD then restore_patches G L pars patches tmpParents s
      else case PatchValue patch of
        None \<Rightarrow> Panic NilDereference
      | Some raw \<Rightarrow>
        (case json_Unmarshal_string raw of
           None \<Rightarrow> Ret (Some (Errorf ''error unmarshaling CIDR from ClusterConfig'' [PatchPath patch] None), s)
         | Some cidr \<Rightarrow>
           (case identifyParentPrefix L cidr [reverse tmpParents, pars] of
              Inl e \<Rightarrow> Ret (Some (Errorf ''error identifying parent CIDR'' [cidr] (Some e)), s)
            | Inr None \<Rightarrow>
                (case fetchOrNewPrefix G cidr s of
                   (Inl e, s') \<Rightarrow> Ret (Some (Errorf ''error registering parentless prefix'' [cidr] (Some e)), s')
                 | (Inr _, s') \<Rightarrow> restore_patches G L pars patches tmpParents s')
            | Inr (Some parent) \<Rightarrow>
                if Cidr parent = cidr then restore_patches G L pars patches tmpParents s
                else (case g_AcquireSpecificChildPrefix G s (Cidr parent) cidr of
                        (Inl e, s') \<Rightarrow> Ret (Some (Errorf ''error registering child prefix'' [cidr, Cidr parent] (Some e)), s')
                      | (Inr child, s') \<Rightarrow>
                          restore_patches G L pars patches (tmpParents @ [child]) s'))))"

fun restore_ccs ::
  "'s goipam \<Rightarrow> lib \<Rightarrow> prefix list \<Rightarrow> clusterConfig list \<Rightarrow> 's \<Rightarrow> (goerr option \<times> 's) go" where
  "restore_ccs G L pars [] s = Ret (None, s)"
| "restore_ccs G L pars (cc # ccs) s =
     go_bind (restore_patches G L pars (Patches cc) [] s) (\<lambda>(e, s').
       case e of Some _ \<Rightarrow> Ret (e, s') | None \<Rightarrow> restore_ccs G L pars ccs s')"

definition ipamFromClusterConfigs ::
  "range_order \<Rightarrow> 's goipam \<Rightarrow> lib \<Rightarrow> IPAMConfig \<Rightarrow> clusterConfig list \<Rightarrow> 's result go" where
  "ipamFromClusterConfigs rng G L cfg ccs =
     (case register_config G
             (concat (map snd (go_range rng ''ipamFromClusterConfigs'' (ParentCIDRs (Spec cfg))))) [] (g_New G) of
        (Inl e, _) \<Rightarrow> Ret (Inl e)
      | (Inr pars, s) \<Rightarrow>
          go_bind (restore_ccs G L pars ccs s) (\<lambda>(e, s').
            case e of Some err \<Rightarrow> Ret (Inl err) | None \<Rightarrow> Ret (Inr s')))"

section \<open>Orphaned ClusterConfigs\<close>

text \<open>
  The cache of checked Clusters is never filled, so the Cluster is fetched for every
  ClusterConfig.  An error other than ``not found'' leaves the Cluster nil like a missing one.
\<close>

definition orphan_finish ::
  "'s goipam \<Rightarrow> 'w platform_client \<Rightarrow> lib \<Rightarrow> clusterConfig \<Rightarrow> clusterConfig list \<Rightarrow> goerr option \<Rightarrow>
     ('s, 'w) shared \<Rightarrow> ((clusterConfig list \<times> goerr option) \<times> ('s, 'w) shared) go" where
  "orphan_finish G C L cc remaining errs st =
     (if CIDRManagementFinalizer \<in> set (Finalizers cc) then
        go_bind (releaseCIDRsForClusterConfig_internal G C L cc st) (\<lambda>((e, cc'), st').
          case e of
            Some err \<Rightarrow>
              Ret ((remaining @ [cc'],
                errors_join [errs, Some (Errorf ''error releasing CIDRs for orphaned ClusterConfig''
                  [Namespace cc, Name cc] (Some err))]), st')
          | None \<Rightarrow> Ret ((if Finalizers cc' = [] then remaining else remaining @ [cc'], errs), st'))
      else Ret ((if Finalizers cc = [] then remaining else remaining @ [cc], errs), st))"

definition orphan_step ::
  "'s goipam \<Rightarrow> 'w platform_client \<Rightarrow> lib \<Rightarrow> clusterConfig \<Rightarrow> clusterConfig list \<Rightarrow> goerr option \<Rightarrow>
     ('s, 'w) shared \<Rightarrow> ((clusterConfig list \<times> goerr option) \<times> ('s, 'w) shared) go" where
  "orphan_step G C L cc remaining errs st =
     (let cName = label_of cc ClusterTargetLabel
      in if cName = [] then
           Ret ((remaining,
             errors_join [errs, Some (Errorf ''ClusterConfig is missing the cluster target label''
                [Namespace cc, Name cc] None)]), st)
         else case on_platform (\<lambda>w. c_GetCluster C w (Namespace cc) cName) st of
           (Inr _, st1) \<Rightarrow> Ret ((remaining @ [cc], errs), st1)
         | (Inl e, st1) \<Rightarrow>
             let errs1 = (if is_api_not_found e then errs
                          else errors_join [errs, Some (Errorf ''error checking existence of Cluster''
                                 [Namespace cc, cName] (Some e))])
             in case (if DeletionTimestamp cc = None
                      then on_platform (\<lambda>w. c_DeleteClusterConfig C w cc) st1 else (None, st1)) of
                  (Some e', st2) \<Rightarrow>
                    if \<not> is_api_not_found e' then
                      Ret ((remaining @ [cc],
                        errors_join [errs1, Some (Errorf ''error deleting orphaned ClusterConfig''
                          [Namespace cc, Name cc] (Some e'))]), st2)
                    else orphan_finish G C L cc remaining errs1 st2
                | (None, st2) \<Rightarrow> orphan_finish G C L cc remaining errs1 st2)"

fun orphan_loop ::
  "'s goipam \<Rightarrow> 'w platform_client \<Rightarrow> lib \<Rightarrow> clusterConfig list \<Rightarrow> clusterConfig list \<Rightarrow> goerr option \<Rightarrow>
     ('s, 'w) shared \<Rightarrow> ((clusterConfig list \<times> goerr option) \<times> ('s, 'w) shared) go" where
  "orphan_loop G C L [] remaining errs st = Ret ((remaining, errs), st)"
| "orphan_loop G C L (cc # ccs) remaining errs st =
     go_bind (orphan_step G C L cc remaining errs st) (\<lambda>((remaining', errs'), st').
       orphan_loop G C L ccs remaining' errs' st')"

definition handleOrphanedClusterConfigs_internal ::
  "'s goipam \<Rightarrow> 'w platform_client \<Rightarrow> lib \<Rightarrow> clusterConfig list \<Rightarrow> ('s, 'w) shared \<Rightarrow>
     ((clusterConfig list \<times> goerr option) \<times> ('s, 'w) shared) go" where
  "handleOrphanedClusterConfigs_internal G C L ccs st =
     go_bind (orphan_loop G C L ccs [] None st) (\<lambda>((remaining, errs), st').
       case errs of
         None \<Rightarrow> Ret ((remaining, None), st')
       | Some e \<Rightarrow>
           Ret ((remaining, Some (Errorf ''one or more errors occurred during handling of orphaned ClusterConfigs''
              [] (Some e))), st'))"

definition HandleOrphanedClusterConfigs ::
  "'s goipam \<Rightarrow> 'w platform_client \<Rightarrow> lib \<Rightarrow> clusterConfig list \<Rightarrow> ('s, 'w) shared \<Rightarrow>
     ((clusterConfig list \<times> goerr option) \<times> ('s, 'w) shared) go" where
  "HandleOrphanedClusterConfigs G C L ccs = with_IPAM_lock (handleOrphanedClusterConfigs_internal G C L ccs)"

section \<open>RestoreIPAMFromClusterState\<close>

definition objectKeyFromStrings :: "string \<Rightarrow> string \<Rightarrow> string" where
  "objectKeyFromStrings namespace name = namespace @ ''/'' @ name"

definition objectKey :: "'a objectMeta_scheme \<Rightarrow> string" where
  "objectKey obj = objectKeyFromStrings (Namespace obj) (Name obj)"

definition put_handled :: "clusterConfig gomap \<Rightarrow> clusterConfig \<Rightarrow> clusterConfig gomap" where
  "put_handled handled cc = AList.update (objectKey cc) cc handled"

definition belongs_to :: "cluster \<Rightarrow> clusterConfig \<Rightarrow> bool" where
  "belongs_to cl cc \<longleftrightarrow> Namespace cc = Namespace cl \<and> label_of cc ClusterTargetLabel = Name cl"

text \<open>
  One round of the loop over the Clusters.  It returns the ClusterConfigs not yet assigned to a
  Cluster, the handled ClusterConfigs and the errors.
\<close>

definition restore_cluster ::
  "range_order \<Rightarrow> lib \<Rightarrow> 'w platform_client \<Rightarrow> cluster \<Rightarrow> clusterConfig list \<Rightarrow> clusterConfig gomap \<Rightarrow>
     goerr option \<Rightarrow> ('s, 'w) shared \<Rightarrow>
     ((clusterConfig list \<times> clusterConfig gomap \<times> goerr option) \<times> ('s, 'w) shared) go" where
  "restore_cluster rng L C cl ccs handled errs st =
     (let newCCs = filter (\<lambda>cc. \<not> belongs_to cl cc) ccs;
          clusterCCs = by_rule (filter (belongs_to cl) ccs);
          handled1 = foldl put_handled handled (filter (belongs_to cl) ccs);
          failed = (\<lambda>msg e. errors_join [errs, Some (Errorf msg [Namespace cl, Name cl] (Some e))])
      in go_bind (CheckClusterConfigsForCluster rng L C cl None (Some clusterCCs) st) (\<lambda>(r, st1).
           case r of
             Inl e \<Rightarrow> Ret ((newCCs, handled1, failed ''error checking ClusterConfigs for Cluster'' e), st1)
           | Inr ir \<Rightarrow>
               if 0 < fst (RI_Size (Some ir)) \<or> 0 < snd (RI_Size (Some ir)) then
                 (case RI_Apply C (Some ir) st1 of
                    (Some e, st2) \<Rightarrow>
                      Ret ((newCCs, handled1, failed ''error restoring ClusterConfigs for Cluster'' e), st2)
                  | (None, st2) \<Rightarrow>
                      go_bind (FetchClusterConfigsForCluster C cl st2) (\<lambda>(r', st3).
                        case r' of
                          Inl e \<Rightarrow> Ret ((newCCs, handled1, failed ''error fetching ClusterConfigs for Cluster after update'' e), st3)
                        | Inr updated \<Rightarrow>
                            Ret ((newCCs, foldl put_handled handled1
                                   (go_values rng ''RestoreIPAMFromClusterState/updated'' updated), errs), st3)))
               else Ret ((newCCs, handled1, errs), st1)))"

fun restore_clusters ::
  "range_order \<Rightarrow> lib \<Rightarrow> 'w platform_client \<Rightarrow> cluster list \<Rightarrow> clusterConfig list \<Rightarrow> clusterConfig gomap \<Rightarrow>
     goerr option \<Rightarrow> ('s, 'w) shared \<Rightarrow>
     ((clusterConfig list \<times> clusterConfig gomap \<times> goerr option) \<times> ('s, 'w) shared) go" where
  "restore_clusters rng L C [] ccs handled errs st = Ret ((ccs, handled, errs), st)"
| "restore_clusters rng L C (cl # cls) ccs handled errs st =
     go_bind (restore_cluster rng L C cl ccs handled errs st) (\<lambda>((ccs', handled', errs'), st').
       restore_clusters rng L C cls ccs' handled' errs' st')"

text \<open>The handling of the ClusterConfigs no listed Cluster owns.\<close>

definition restore_orphans ::
  "'s goipam \<Rightarrow> lib \<Rightarrow> 'w platform_client \<Rightarrow> clusterConfig list \<Rightarrow> clusterConfig gomap \<Rightarrow> ('s, 'w) shared \<Rightarrow>
     (clusterConfig gomap result \<times> ('s, 'w) shared) go" where
  "restore_orphans G L C ccs handled st =
     (if ccs = [] then Ret (Inr handled, st)
      else go_bind (handleOrphanedClusterConfigs_internal G C L ccs st) (\<lambda>((remaining, e), st').
        case e of
          Some err \<Rightarrow> Ret (Inl (Errorf ''error handling orphaned ClusterConfigs'' [] (Some err)), st')
        | None \<Rightarrow> Ret (Inr (foldl put_handled handled
                    (filter (\<lambda>cc. CIDRManagementFinalizer \<in> set (Finalizers cc)) remaining)), st')))"

text \<open>Everything between fetching the config and the swap, under the lock.\<close>

definition restore_body ::
  "range_order \<Rightarrow> 's goipam \<Rightarrow> lib \<Rightarrow> 'w platform_client \<Rightarrow> IPAMConfig \<Rightarrow> ('s, 'w) shared \<Rightarrow>
     (goerr option \<times> ('s, 'w) shared) go" where
  "restore_body rng G L C cfg st =
     go_bind (FetchRelevantClusters rng L C (Some cfg) st) (\<lambda>(r, st1).
       case r of
         Inl e \<Rightarrow> Ret (Some (Errorf ''error fetching Cluster resources for IPAM state restoration'' [] (Some e)), st1)
       | Inr clusters \<Rightarrow>
     go_bind (FetchClusterConfigs C st1) (\<lambda>(r', st2).
       case r' of
         Inl e \<Rightarrow> Ret (Some (Errorf ''error fetching ClusterConfig resources for IPAM state restoration'' [] (Some e)), st2)
       | Inr ccs \<Rightarrow>
     go_bind (restore_clusters rng L C clusters ccs [] None st2) (\<lambda>((ccs', handled, errs), st3).
       case errs of
         Some e \<Rightarrow> Ret (Some (Errorf ''one or more errors occurred during integrity check of ClusterConfigs'' [] (Some e)), st3)
       | None \<Rightarrow>
     go_bind (restore_orphans G L C ccs' handled st3) (\<lambda>(r'', st4).
       case r'' of
         Inl e \<Rightarrow> Ret (Some e, st4)
       | Inr handled' \<Rightarrow>
     go_bind (ipamFromClusterConfigs rng G L cfg
                (go_values rng ''RestoreIPAMFromClusterState/handled'' handled')) (\<lambda>r3.
       case r3 of
         Inl e \<Rightarrow> Ret (Some (Errorf ''error building IPAM state from ClusterConfigs'' [] (Some e)), st4)
       | Inr ipam \<Rightarrow> Ret (None, st4\<lparr>IPAM := map_option (\<lambda>i. i\<lparr>internal := ipam\<rparr>) (IPAM st4)\<rparr>))))))"

text \<open>The part that runs under the lock: a config that is not loaded yet is fetched first.\<close>

definition restore_locked ::
  "range_order \<Rightarrow> 's goipam \<Rightarrow> lib \<Rightarrow> 'w platform_client \<Rightarrow> ('s, 'w) shared \<Rightarrow>
     (goerr option \<times> ('s, 'w) shared) go" where
  "restore_locked rng G L C st =
     (case config st of
         Some cfg \<Rightarrow> restore_body rng G L C cfg st
       | None \<Rightarrow>
           go_bind (ProviderName st) (\<lambda>pn.
             case on_platform (\<lambda>w. c_GetConfig C w pn) st of
               (Inl e, st') \<Rightarrow> Ret (Some (Errorf ''error loading config'' [] (Some e)), st')
             | (Inr cfg, st') \<Rightarrow> restore_body rng G L C cfg st'))"

definition RestoreIPAMFromClusterState ::
  "range_order \<Rightarrow> 's goipam \<Rightarrow> lib \<Rightarrow> 'w platform_client \<Rightarrow> ('s, 'w) shared \<Rightarrow>
     (goerr option \<times> ('s, 'w) shared) go" where
  "RestoreIPAMFromClusterState rng G L C st =
     with_IPAM_lock (restore_locked rng G L C)
       (if IPAM st = None then st\<lparr>IPAM := Some (NewIpam G)\<rparr> else st)"

section \<open>Laws: the rebuilt IPAM state\<close>

text \<open>The CIDRs a list of patches, respectively of ClusterConfigs, has allocated.\<close>

definition add_cidrs :: "jsonPatch list \<Rightarrow> string set" where
  "add_cidrs ps = patch_cidrs (filter (\<lambda>p. Op p = ADD) ps)"

definition allocated :: "clusterConfig list \<Rightarrow> string set" where
  "allocated ccs = (\<Union>cc \<in> set ccs. add_cidrs (Patches cc))"

definition parent_cidrs :: "IPAMConfig \<Rightarrow> string set" where
  "parent_cidrs cfg = (\<Union>l \<in> snd ` set (ParentCIDRs (Spec cfg)). set l)"

lemma add_cidrs_simps [simp]:
  "add_cidrs [] = {}"
  "Op p \<noteq> ADD \<Longrightarrow> add_cidrs (p # ps) = add_cidrs ps"
  "Op p = ADD \<Longrightarrow> PatchValue p = Some raw \<Longrightarrow> json_Unmarshal_string raw = Some c \<Longrightarrow>
     add_cidrs (p # ps) = insert c (add_cidrs ps)"
  by (simp_all add: add_cidrs_def)

lemma allocated_simps [simp]:
  "allocated [] = {}" "allocated (cc # ccs) = add_cidrs (Patches cc) \<union> allocated ccs"
  by (simp_all add: allocated_def)

lemma identify_in_member: "identify_in L c ps = Inr (Some p) \<Longrightarrow> p \<in> set ps"
  by (induction ps) (auto split: option.splits if_splits)

lemma identifyParentPrefix_member:
  "identifyParentPrefix L c [reverse tmp, pars] = Inr (Some p) \<Longrightarrow> p \<in> set tmp \<union> set pars"
  using identify_in_member [of L c "rev tmp @ pars" p] by (simp add: identifyParentPrefix_def reverse_def)

context goipam_contract
begin

lemma fetchOrNew_ok:
  assumes "fetchOrNewPrefix G c s = (Inr p, s')"
  shows "Cidr p = c" and "blocked G s' = insert c (blocked G s)"
proof -
  consider (found) "g_PrefixFrom G s c = Inr p" "s' = s" | (new) "g_NewPrefix G s c = (Inr p, s')"
    using assms by (auto simp: fetchOrNewPrefix_def split: sum.splits prod.splits if_splits)
  then have "Cidr p = c \<and> blocked G s' = insert c (blocked G s)"
  proof cases
    case found
    then have "c \<in> blocked G s" by (auto simp: blocked_iff)
    then show ?thesis using found PrefixFrom_Cidr [OF found(1)] by (simp add: insert_absorb)
  next
    case new
    then show ?thesis using NewPrefix_ok [OF new] by (simp add: blocked_upd)
  qed
  then show "Cidr p = c" and "blocked G s' = insert c (blocked G s)" by simp_all
qed

lemma register_config_ok:
  "register_config G cs acc s = (Inr ps, s') \<Longrightarrow> Cidr ` set acc \<subseteq> blocked G s \<Longrightarrow>
   blocked G s' = set cs \<union> blocked G s \<and> Cidr ` set ps \<subseteq> blocked G s'"
proof (induction cs arbitrary: acc s)
  case (Cons c cs)
  then obtain p s1 where f: "fetchOrNewPrefix G c s = (Inr p, s1)"
    and r: "register_config G cs (acc @ [p]) s1 = (Inr ps, s')"
    by (auto split: sum.splits prod.splits)
  show ?case
    using Cons.IH [OF r] fetchOrNew_ok [OF f] Cons.prems(2) by auto
qed simp

lemma restore_patches_ok:
  "restore_patches G L pars ps tmp s = Ret (None, s') \<Longrightarrow>
   Cidr ` (set tmp \<union> set pars) \<subseteq> blocked G s \<Longrightarrow>
   blocked G s' = add_cidrs ps \<union> blocked G s"
proof (induction ps arbitrary: tmp s)
  case (Cons patch ps)
  show ?case
  proof (cases "Op patch = ADD")
    case False
    then show ?thesis using Cons by simp
  next
    case True
    then obtain raw c where v: "PatchValue patch = Some raw" "json_Unmarshal_string raw = Some c"
      using Cons.prems(1) by (auto split: option.splits)
    consider (parentless) p s1 where "fetchOrNewPrefix G c s = (Inr p, s1)"
        "restore_patches G L pars ps tmp s1 = Ret (None, s')"
      | (same) p where "p \<in> set tmp \<union> set pars" "Cidr p = c"
        "restore_patches G L pars ps tmp s = Ret (None, s')"
      | (child) p :: prefix and d s1 where "g_AcquireSpecificChildPrefix G s (Cidr p) c = (Inr d, s1)"
        "restore_patches G L pars ps (tmp @ [d]) s1 = Ret (None, s')"
    proof (cases "identifyParentPrefix L c [reverse tmp, pars]")
      case (Inr r)
      show ?thesis
      proof (cases r)
        case None
        then show ?thesis using Cons.prems(1) True v Inr
          by (auto intro: parentless split: sum.splits prod.splits)
      next
        case (Some p)
        then show ?thesis using Cons.prems(1) True v Inr identifyParentPrefix_member [of L c tmp pars p]
          by (auto intro: same child split: sum.splits prod.splits if_splits)
      qed
    qed (use Cons.prems(1) True v in simp)
    then show ?thesis
    proof cases
      case parentless
      then show ?thesis
        using Cons.IH [OF parentless(2)] fetchOrNew_ok [OF parentless(1)] Cons.prems(2) True v by auto
    next
      case same
      then have "c \<in> blocked G s" using Cons.prems(2) by blast
      then show ?thesis using Cons.IH [OF same(3) Cons.prems(2)] True v by auto
    next
      case child
      note a = AcquireSpecificChildPrefix_ok [OF child(1)]
      then have d: "blocked G s1 = insert c (blocked G s)" "Cidr d = c" by (auto simp: blocked_upd)
      have "blocked G s' = add_cidrs ps \<union> blocked G s1"
        using Cons.prems(2) d by (intro Cons.IH [OF child(2)]) auto
      then show ?thesis using d True v by auto
    qed
  qed
qed simp

lemma restore_ccs_ok:
  "restore_ccs G L pars ccs s = Ret (None, s') \<Longrightarrow> Cidr ` set pars \<subseteq> blocked G s \<Longrightarrow>
   blocked G s' = allocated ccs \<union> blocked G s"
proof (induction ccs arbitrary: s)
  case (Cons cc ccs)
  then obtain s1 where p: "restore_patches G L pars (Patches cc) [] s = Ret (None, s1)"
    and r: "restore_ccs G L pars ccs s1 = Ret (None, s')"
    by (auto split: option.splits)
  have d: "blocked G s1 = add_cidrs (Patches cc) \<union> blocked G s"
    using Cons.prems(2) by (intro restore_patches_ok [OF p]) simp
  then show ?case using Cons.IH [OF r] Cons.prems(2) by auto
qed simp

end


lemma register_config_cidrs:
  assumes "map_iteration rng" and "wf_map (ParentCIDRs (Spec cfg))"
  shows "set (concat (map snd (go_range rng site (ParentCIDRs (Spec cfg))))) = parent_cidrs cfg"
  using map_iteration.set_go_range [OF assms] by (simp add: parent_cidrs_def)

lemma ipamFromClusterConfigs_exact:
  assumes "goipam_contract G" and "map_iteration rng" and "wf_map (ParentCIDRs (Spec cfg))"
    and "ipamFromClusterConfigs rng G L cfg ccs = Ret (Inr s)"
  shows "blocked G s = parent_cidrs cfg \<union> allocated ccs"
proof -
  let ?cidrs = "concat (map snd (go_range rng ''ipamFromClusterConfigs'' (ParentCIDRs (Spec cfg))))"
  obtain pars s1 where reg: "register_config G ?cidrs [] (g_New G) = (Inr pars, s1)"
    and ccs: "restore_ccs G L pars ccs s1 = Ret (None, s)"
    using assms(4) by (auto simp: ipamFromClusterConfigs_def split: sum.splits prod.splits option.splits)
  have "blocked G s1 = parent_cidrs cfg \<and> Cidr ` set pars \<subseteq> blocked G s1"
    using goipam_contract.register_config_ok [OF assms(1) reg]
      goipam_contract.blocked_New [OF assms(1)] register_config_cidrs [OF assms(2,3)]
    by (metis empty_subsetI image_empty list.set(1) sup_bot_right)
  then show ?thesis
    using goipam_contract.restore_ccs_ok [OF assms(1) ccs] by auto
qed

text \<open>C6: the IPAM state rebuilt from the ClusterConfigs blocks exactly the CIDRs it should: the
  parent CIDRs of the config, and every CIDR an add-patch of one of the ClusterConfigs injects,
  whatever its parent, including CIDRs whose parent is no longer configured and CIDRs injected
  at several paths. No other CIDR is blocked.\<close>

theorem ipamFromClusterConfigs_blocked:
  assumes "goipam_contract G" and "map_iteration rng" and "wf_map (ParentCIDRs (Spec cfg))"
    and "ipamFromClusterConfigs rng G L cfg ccs = Ret (Inr s)"
  shows "blocked G s = parent_cidrs cfg \<union> allocated ccs"
  by (rule ipamFromClusterConfigs_exact [OF assms])

definition cfg_restore :: IPAMConfig where
  "cfg_restore = \<lparr>Name = ''p'', Namespace = [], UID = [], Labels = [], Annotations = [], Finalizers = [],
     OwnerReferences = [], DeletionTimestamp = None,
     Spec = \<lparr>ParentCIDRs = [(''a'', [''10.0.0.0/16''])],
       InjectionRules = [\<lparr>rule_ID = ''r'', rule_Selector = sim_selector, rule_Injections = []\<rparr>],
       InternalStateRefreshCycleDuration = None\<rparr>\<rparr>"

definition ccs_restore :: "clusterConfig list" where
  "ccs_restore = [sim_cc ''c'' ''r'' [CIDRManagementFinalizer]
     [(''/a'', ''10.0.0.0/24''), (''/b'', ''10.0.0.0/28''), (''/c'', ''10.0.0.0/28''), (''/d'', ''192.168.0.0/24'')]]"

theorem ipamFromClusterConfigs_blocked_witness:
  "case ipamFromClusterConfigs insertion_order sim_goipam sim_lib cfg_restore ccs_restore of
     Ret (Inr s) \<Rightarrow>
       blocked sim_goipam s = {''10.0.0.0/16'', ''10.0.0.0/24'', ''10.0.0.0/28'', ''192.168.0.0/24''}
   | _ \<Rightarrow> False"
proof -
  let ?r = "ipamFromClusterConfigs insertion_order sim_goipam sim_lib cfg_restore ccs_restore"
  have "(case ?r of Ret (Inr _) \<Rightarrow> True | _ \<Rightarrow> False)" by code_simp
  then obtain s where r: "?r = Ret (Inr s)" by (auto split: go.splits sum.splits)
  have "wf_map (ParentCIDRs (Spec cfg_restore))" by code_simp
  from ipamFromClusterConfigs_blocked [OF sim.goipam_contract_axioms insertion.map_iteration_axioms this r]
  have "blocked sim_goipam s = parent_cidrs cfg_restore \<union> allocated ccs_restore" .
  moreover have "parent_cidrs cfg_restore = {''10.0.0.0/16''}"
    by (simp add: parent_cidrs_def cfg_restore_def)
  moreover have "allocated ccs_restore = {''10.0.0.0/24'', ''10.0.0.0/28'', ''192.168.0.0/24''}"
    by (simp add: ccs_restore_def sim_cc_def add_cidrs_def insert_commute)
  ultimately show ?thesis using r by auto
qed


section \<open>Laws: calls that keep the IPAM instance\<close>
lemma ClusterConfigLabels_no_Block [simp]: "ClusterConfigLabels st cl r \<noteq> Block"
  by (simp add: ClusterConfigLabels_def go_bind_eq_Block Let_def)

lemma Fetch_runs [ipam_intros]:
  "P (IPAM st) \<Longrightarrow> runs_within P (FetchClusterConfigs C st)"
  "P (IPAM st) \<Longrightarrow> runs_within P (FetchClusterConfigsForCluster C cl st)"
  unfolding FetchClusterConfigs_def FetchClusterConfigsForCluster_def
  by (auto intro!: runs_within_bind_pure split: prod.splits sum.splits)

lemma owners_loop_frame: "owners_loop C ccs tmp errs st = (r, st') \<Longrightarrow> IPAM st' = IPAM st"
  by (induction C ccs tmp errs st rule: owners_loop.induct)
     (auto simp: Let_def split: option.splits prod.splits sum.splits if_splits)

lemma FetchRelevantClusters_runs [ipam_intros]:
  "P (IPAM st) \<Longrightarrow> runs_within P (FetchRelevantClusters rng L C cfg st)"
  unfolding FetchRelevantClusters_def
  by (auto intro!: runs_within_bind [OF Fetch_runs(1)] split: option.splits prod.splits sum.splits
     dest!: owners_loop_frame)

lemma Generate_no_Block [simp]: "GenerateClusterConfigForInjectionList rng L st cl r injs \<noteq> Block"
  by (simp add: GenerateClusterConfigForInjectionList_def go_bind_eq_Block split: sum.splits)

lemma plan_loop_no_Block [simp]: "plan_loop rng L st cl ccs ms n u errs \<noteq> Block"
  by (induction rng L st cl ccs ms n u errs rule: plan_loop.induct)
     (auto simp: go_bind_eq_Block split: option.splits sum.splits)

lemma Check_runs [ipam_intros]:
  assumes "P (IPAM st)"
  shows "runs_within P (CheckClusterConfigsForCluster rng L C cl a ccs st)"
proof -
  have "runs_within P (case ccs of Some m \<Rightarrow> Ret (Inr m, st) | None \<Rightarrow> FetchClusterConfigsForCluster C cl st)"
    using assms by (auto intro: Fetch_runs split: option.split)
  note fetched = runs_within_bind [OF this]
  show ?thesis
    unfolding CheckClusterConfigsForCluster_def
    by (split sum.split, intro conjI allI impI fetched)
       (auto simp: assms Let_def intro!: runs_within_bind_pure split: sum.split option.split)
qed

lemma apply_each_frame: "apply_each f msg ccs errs st = (r, st') \<Longrightarrow> IPAM st' = IPAM st"
  by (induction f msg ccs errs st rule: apply_each.induct)
     (auto split: prod.splits sum.splits)

lemma RI_Apply_frame: "RI_Apply C ri st = (r, st') \<Longrightarrow> IPAM st' = IPAM st"
  by (auto simp: RI_Apply_def split: option.splits prod.splits dest!: apply_each_frame)

lemma restore_cluster_runs [ipam_intros]:
  assumes "P (IPAM st)"
  shows "runs_within P (restore_cluster rng L C cl ccs handled errs st)"
  unfolding restore_cluster_def Let_def
  by (rule runs_within_bind [OF Check_runs, of P, OF assms])
     (auto intro!: runs_within_bind [OF Fetch_runs(2), of P] dest!: RI_Apply_frame
        split: sum.split option.split prod.split)

lemma restore_clusters_runs [ipam_intros]:
  "P (IPAM st) \<Longrightarrow> runs_within P (restore_clusters rng L C cls ccs handled errs st)"
proof (induction cls arbitrary: ccs handled errs st)
  case (Cons cl cls)
  then show ?case
    by (auto intro!: runs_within_bind [OF restore_cluster_runs, of P])
qed simp

lemma restore_patches_no_Block [simp]: "restore_patches G L pars ps tmp s \<noteq> Block"
  by (induction G L pars ps tmp s rule: restore_patches.induct)
     (auto split: option.splits sum.splits prod.splits)

lemma restore_ccs_no_Block [simp]: "restore_ccs G L pars ccs s \<noteq> Block"
  by (induction ccs arbitrary: s) (auto simp: go_bind_eq_Block split: option.splits)

lemma ipamFromClusterConfigs_no_Block [simp]: "ipamFromClusterConfigs rng G L cfg ccs \<noteq> Block"
  by (auto simp: ipamFromClusterConfigs_def go_bind_eq_Block split: sum.splits prod.splits option.splits)



text \<open>The lock is held and no CIDR is blocked that was not blocked in the state \<open>s\<close>.\<close>

definition held_below :: "'s goipam \<Rightarrow> 's \<Rightarrow> 's Ipamer option \<Rightarrow> bool" where
  "held_below G s i \<longleftrightarrow> (\<exists>j. i = Some j \<and> lock j \<and> known G (internal j) \<subseteq>\<^sub>m known G s)"

context goipam_contract
begin

lemma release_internal_runs:
  assumes "held_below G s (IPAM st)"
  shows "runs_within (held_below G s) (releaseCIDRsForClusterConfig_internal G C L cc st)"
proof (cases "releaseCIDRsForClusterConfig_internal G C L cc st")
  case (Ret x)
  obtain e cc' st' where x: "x = ((e, cc'), st')" by (metis surj_pair)
  from Ret x have "releaseCIDRsForClusterConfig_internal G C L cc st = Ret ((e, cc'), st')" by simp
  then have "held_below G s (IPAM st')"
  proof (cases rule: release_internal_cases)
    case failed
    then show ?thesis using assms by simp
  next
    case (swapped i d s0 s1)
    have "known G s1 \<subseteq>\<^sub>m known G (internal i)"
      using release_patches_ok [OF swapped(5)] Load_Dump [OF swapped(3,4)]
      by (auto simp: map_le_def dom_def simp del: known_Some split: if_splits)
    then show ?thesis
      using assms swapped by (auto simp: held_below_def intro: map_le_trans)
  qed
  then show ?thesis using Ret x by simp
qed (auto simp: releaseCIDRsForClusterConfig_internal_def Let_def
      split: option.splits sum.splits prod.splits if_splits)

lemma orphan_finish_runs:
  assumes "held_below G s (IPAM st)"
  shows "runs_within (held_below G s) (orphan_finish G C L cc remaining errs st)"
  unfolding orphan_finish_def
  by (auto simp: assms intro!: runs_within_bind [OF release_internal_runs [OF assms]] split: option.split)

lemma orphan_step_runs:
  assumes "held_below G s (IPAM st)"
  shows "runs_within (held_below G s) (orphan_step G C L cc remaining errs st)"
  using assms unfolding orphan_step_def Let_def
  by (auto intro!: orphan_finish_runs split: prod.split sum.split option.split)

lemma orphan_loop_runs:
  "held_below G s (IPAM st) \<Longrightarrow> runs_within (held_below G s) (orphan_loop G C L ccs remaining errs st)"
  by (induction ccs arbitrary: remaining errs st)
     (auto intro!: runs_within_bind [OF orphan_step_runs])

lemma restore_orphans_runs:
  assumes "held_below G s (IPAM st)"
  shows "runs_within (held_below G s) (restore_orphans G L C ccs handled st)"
  using assms unfolding restore_orphans_def handleOrphanedClusterConfigs_internal_def go_bind_assoc
  by (auto intro!: runs_within_bind [OF orphan_loop_runs] simp: go_bind_assoc split: option.split)

end


text \<open>Invariants of the library's state also survive the release of the CIDRs of a ClusterConfig and the
  handling of orphans, which run under the lock, and hold in a rebuilt state.\<close>

context ipam_invariant
begin

lemma release_patches_sat: "I s \<Longrightarrow> release_patches G ps s = (e, s') \<Longrightarrow> I s'"
  by (induction ps arbitrary: s)
     (auto split: option.splits sum.splits prod.splits if_splits dest: I_ReleaseChildPrefix)

lemma release_internal_sat:
  assumes "ipam_sat True I (IPAM st)"
  shows "runs_within (ipam_sat True I) (releaseCIDRsForClusterConfig_internal G C L cc st)"
proof (cases "releaseCIDRsForClusterConfig_internal G C L cc st")
  case (Ret x)
  obtain e cc' st' where x: "x = ((e, cc'), st')" by (metis surj_pair)
  from Ret x have "releaseCIDRsForClusterConfig_internal G C L cc st = Ret ((e, cc'), st')" by simp
  then have "ipam_sat True I (IPAM st')"
  proof (cases rule: release_internal_cases)
    case failed
    then show ?thesis using assms by simp
  next
    case (swapped i d s0 s1)
    then have "I s1" using assms I_Load_Dump [OF _ swapped(3,4)] release_patches_sat [OF _ swapped(5)]
      by (auto simp: ipam_sat_def)
    then show ?thesis using assms swapped by (auto simp: ipam_sat_def)
  qed
  then show ?thesis using Ret x by simp
qed (auto simp: releaseCIDRsForClusterConfig_internal_def Let_def
      split: option.splits sum.splits prod.splits if_splits)

lemma orphan_step_sat:
  assumes "ipam_sat True I (IPAM st)"
  shows "runs_within (ipam_sat True I) (orphan_step G C L cc remaining errs st)"
  using assms unfolding orphan_step_def orphan_finish_def Let_def
  by (auto intro!: runs_within_bind [OF release_internal_sat] split: prod.split sum.split option.split)

lemma orphan_loop_sat:
  "ipam_sat True I (IPAM st) \<Longrightarrow> runs_within (ipam_sat True I) (orphan_loop G C L ccs remaining errs st)"
  by (induction ccs arbitrary: remaining errs st) (auto intro!: runs_within_bind [OF orphan_step_sat])

lemma restore_orphans_sat:
  assumes "ipam_sat True I (IPAM st)"
  shows "runs_within (ipam_sat True I) (restore_orphans G L C ccs handled st)"
  using assms unfolding restore_orphans_def handleOrphanedClusterConfigs_internal_def go_bind_assoc
  by (auto intro!: runs_within_bind [OF orphan_loop_sat] simp: go_bind_assoc split: option.split)

lemma fetchOrNew_sat: "I s \<Longrightarrow> fetchOrNewPrefix G c s = (r, s') \<Longrightarrow> I s'"
  by (auto simp: fetchOrNewPrefix_def split: sum.splits prod.splits if_splits dest: I_NewPrefix)

lemma register_config_sat: "I s \<Longrightarrow> register_config G cs acc s = (r, s') \<Longrightarrow> I s'"
  by (induction cs arbitrary: acc s) (auto split: sum.splits prod.splits dest: fetchOrNew_sat)

lemma restore_patches_sat: "I s \<Longrightarrow> restore_patches G L pars ps tmp s = Ret (e, s') \<Longrightarrow> I s'"
  by (induction ps arbitrary: tmp s)
     (auto split: option.splits sum.splits prod.splits if_splits dest: fetchOrNew_sat I_AcquireSpecificChildPrefix)

lemma restore_ccs_sat: "I s \<Longrightarrow> restore_ccs G L pars ccs s = Ret (e, s') \<Longrightarrow> I s'"
proof (induction ccs arbitrary: s)
  case (Cons cc ccs)
  obtain x s1 where p: "restore_patches G L pars (Patches cc) [] s = Ret (x, s1)" using Cons.prems(2) by auto
  then have "I s1" using restore_patches_sat [OF Cons.prems(1)] by blast
  then show ?case using Cons.prems(2) p Cons.IH by (cases x) auto
qed simp

lemma ipamFromClusterConfigs_sat: "ipamFromClusterConfigs rng G L cfg ccs = Ret (Inr s) \<Longrightarrow> I s"
  by (auto simp: ipamFromClusterConfigs_def split: sum.splits prod.splits option.splits
      dest!: restore_ccs_sat [OF register_config_sat [OF I_New]])

lemma restore_body_sat:
  assumes "ipam_sat True I (IPAM st)"
  shows "runs_within (ipam_sat True I) (restore_body rng G L C cfg st)"
proof -
  note runs = FetchRelevantClusters_runs [of "ipam_sat True I"] Fetch_runs(1) [of "ipam_sat True I"]
    restore_clusters_runs [of "ipam_sat True I"] restore_orphans_sat
  show ?thesis
    unfolding restore_body_def
    by (rule runs_within_bind [OF runs(1) [OF assms]])
       (auto intro!: runs_within_bind [OF runs(2)] runs_within_bind [OF runs(3)]
         runs_within_bind [OF runs(4)] runs_within_bind_pure [OF ipamFromClusterConfigs_no_Block]
         split: sum.split option.split dest!: ipamFromClusterConfigs_sat, auto simp: ipam_sat_def)
qed

lemma restore_locked_sat:
  "ipam_sat True I (IPAM st) \<Longrightarrow> runs_within (ipam_sat True I) (restore_locked rng G L C st)"
  unfolding restore_locked_def
  by (auto intro!: restore_body_sat runs_within_bind_pure split: option.split prod.split sum.split)

end

section \<open>Laws: RestoreIPAMFromClusterState\<close>

definition handled_keys :: "clusterConfig gomap \<Rightarrow> string set" where
  "handled_keys h = fst ` set h"

lemma keys_put_handled [simp]: "handled_keys (put_handled h cc) = insert (objectKey cc) (handled_keys h)"
  by (simp add: handled_keys_def put_handled_def dom_update)

lemma keys_foldl_put_handled [simp]:
  "handled_keys (foldl put_handled h ccs) = objectKey ` set ccs \<union> handled_keys h"
  by (induction ccs arbitrary: h) auto

lemma wf_put_handled [simp]: "wf_map h \<Longrightarrow> wf_map (foldl put_handled h ccs)"
  by (induction ccs arbitrary: h) (simp_all add: put_handled_def)

lemma key_value_handled: "\<forall>kv \<in> set h. fst kv = objectKey (snd kv) \<Longrightarrow>
   \<forall>kv \<in> set (foldl put_handled h ccs). fst kv = objectKey (snd kv)"
proof (induction ccs arbitrary: h)
  case (Cons cc ccs)
  have "set (put_handled h cc) \<subseteq> insert (objectKey cc, cc) (set h)"
    unfolding put_handled_def by (induction h) auto
  then have "\<forall>kv \<in> set (put_handled h cc). fst kv = objectKey (snd kv)"
    using Cons.prems by auto
  then show ?case using Cons.IH by simp
qed simp

text \<open>What every step of the loops keeps of the handled ClusterConfigs.\<close>

definition handled_ok :: "clusterConfig gomap \<Rightarrow> bool" where
  "handled_ok h \<longleftrightarrow> wf_map h \<and> (\<forall>kv \<in> set h. fst kv = objectKey (snd kv))"

lemma handled_ok_foldl [simp]: "handled_ok h \<Longrightarrow> handled_ok (foldl put_handled h ccs)"
  by (auto simp: handled_ok_def dest: key_value_handled)

lemma restore_cluster_handled:
  assumes "restore_cluster rng L C cl ccs handled errs st = Ret ((ccs', handled', errs'), st')"
  shows "ccs' = filter (\<lambda>cc. \<not> belongs_to cl cc) ccs \<and>
    objectKey ` set (filter (belongs_to cl) ccs) \<union> handled_keys handled \<subseteq> handled_keys handled' \<and>
    (handled_ok handled \<longrightarrow> handled_ok handled')"
proof -
  let ?own = "filter (belongs_to cl) ccs"
  let ?h = "foldl put_handled handled ?own"
  obtain r st1 where check: "CheckClusterConfigsForCluster rng L C cl None (Some (by_rule ?own)) st = Ret (r, st1)"
    using assms by (auto simp: restore_cluster_def Let_def)
  have "ccs' = filter (\<lambda>cc. \<not> belongs_to cl cc) ccs \<and> (\<exists>more. handled' = foldl put_handled ?h more)"
  proof (cases r)
    case (Inl e)
    then show ?thesis using assms check
      by (auto simp: restore_cluster_def Let_def intro: exI [of _ "[]"])
  next
    case (Inr ir)
    obtain e st2 where appl: "RI_Apply C (Some ir) st1 = (e, st2)" by fastforce
    consider (plain) "foldl put_handled ?h [] = handled'" "ccs' = filter (\<lambda>cc. \<not> belongs_to cl cc) ccs"
      | (fetched) r' st3 where "FetchClusterConfigsForCluster C cl st2 = Ret (r', st3)" "e = None"
        "0 < fst (RI_Size (Some ir)) \<or> 0 < snd (RI_Size (Some ir))"
      using assms check appl Inr
      by (auto simp: restore_cluster_def Let_def split: if_splits option.split_asm)
    then show ?thesis
    proof cases
      case fetched
      then show ?thesis using assms check appl Inr
        by (cases r') (auto simp: restore_cluster_def Let_def intro: exI [of _ "[]"])
    qed blast
  qed
  then show ?thesis by auto
qed

lemma restore_clusters_handled:
  assumes "restore_clusters rng L C cls ccs handled errs st = Ret ((ccs', handled', errs'), st')"
  shows "(\<forall>cc \<in> set ccs. (\<exists>cl \<in> set cls. belongs_to cl cc) \<longrightarrow> objectKey cc \<in> handled_keys handled') \<and>
    handled_keys handled \<subseteq> handled_keys handled' \<and> (handled_ok handled \<longrightarrow> handled_ok handled')"
  using assms
proof (induction cls arbitrary: ccs handled errs st)
  case (Cons cl cls)
  then obtain ccs1 handled1 errs1 st1
    where step: "restore_cluster rng L C cl ccs handled errs st = Ret ((ccs1, handled1, errs1), st1)"
      and rest: "restore_clusters rng L C cls ccs1 handled1 errs1 st1 = Ret ((ccs', handled', errs'), st')"
    by auto
  show ?case
    using restore_cluster_handled [OF step] Cons.IH [OF rest] by (auto simp: subset_iff image_iff)
qed simp

lemma restore_orphans_handled:
  assumes "restore_orphans G L C ccs handled st = Ret (Inr handled', st')"
  shows "handled_keys handled \<subseteq> handled_keys handled' \<and> (handled_ok handled \<longrightarrow> handled_ok handled')"
  using assms by (auto simp: restore_orphans_def split: option.splits if_splits)

definition held :: "'s Ipamer option \<Rightarrow> bool" where
  "held i \<longleftrightarrow> (\<exists>j. i = Some j \<and> lock j)"

lemma held_swap [simp]: "held (map_option (internal_update f) i) = held i"
  by (cases i) (simp_all add: held_def)

lemma held_below_held: "held_below G s i \<Longrightarrow> held i"
  by (auto simp: held_def held_below_def)

text \<open>How the body under the lock ends.\<close>

definition restore_post :: "'s goipam \<Rightarrow> 's \<Rightarrow> goerr option \<Rightarrow> 's Ipamer option \<Rightarrow> bool" where
  "restore_post G s e i = (if e = None then held i else held_below G s i)"

lemma restore_post_simps [simp]:
  "restore_post G s (Some e) i = held_below G s i" "restore_post G s None i = held i"
  by (simp_all add: restore_post_def)

lemma restore_body_runs:
  assumes "goipam_contract G" and "held_below G s (IPAM st)"
  shows "runs_to (restore_post G s) (restore_body rng G L C cfg st)"
proof -
  note runs = FetchRelevantClusters_runs [of "held_below G s"] Fetch_runs(1) [of "held_below G s"]
    restore_clusters_runs [of "held_below G s"] goipam_contract.restore_orphans_runs [OF assms(1), where s = s]
  show ?thesis
    unfolding restore_body_def
    by (rule runs_within_bind [OF runs(1) [OF assms(2)]])
       (auto intro!: runs_within_bind [OF runs(2)] runs_within_bind [OF runs(3)]
         runs_within_bind [OF runs(4)] runs_within_bind_pure [OF ipamFromClusterConfigs_no_Block]
         split: sum.split option.split, rule held_below_held)
qed


lemma restore_body_success:
  assumes "goipam_contract G" and "map_iteration rng" and "wf_map (ParentCIDRs (Spec cfg))"
    and "restore_body rng G L C cfg st = Ret (None, st')"
  obtains clusters st1 ccs st2 s handled where
    "FetchRelevantClusters rng L C (Some cfg) st = Ret (Inr clusters, st1)"
    and "FetchClusterConfigs C st1 = Ret (Inr ccs, st2)"
    and "IPAM st' \<noteq> None \<longrightarrow> internal (the (IPAM st')) = s"
    and "blocked G s = parent_cidrs cfg \<union> allocated handled"
    and "\<forall>cc \<in> set ccs. (\<exists>cl \<in> set clusters. belongs_to cl cc) \<longrightarrow>
      (\<exists>cc' \<in> set handled. objectKey cc' = objectKey cc)"
proof -
  obtain clusters st1 ccs st2 ccs' h st3 h' st4 s where
    f: "FetchRelevantClusters rng L C (Some cfg) st = Ret (Inr clusters, st1)"
      "FetchClusterConfigs C st1 = Ret (Inr ccs, st2)"
    and c: "restore_clusters rng L C clusters ccs [] None st2 = Ret ((ccs', h, None), st3)"
    and o: "restore_orphans G L C ccs' h st3 = Ret (Inr h', st4)"
    and i: "ipamFromClusterConfigs rng G L cfg (go_values rng ''RestoreIPAMFromClusterState/handled'' h') = Ret (Inr s)"
    and st': "st' = st4\<lparr>IPAM := map_option (\<lambda>i. i\<lparr>internal := s\<rparr>) (IPAM st4)\<rparr>"
    using assms(4) unfolding restore_body_def by (auto simp: go_simps)
  have ok: "handled_ok h'" and keys: "handled_keys h \<subseteq> handled_keys h'"
    using restore_clusters_handled [OF c] restore_orphans_handled [OF o] by (auto simp: handled_ok_def)
  let ?vs = "go_values rng ''RestoreIPAMFromClusterState/handled'' h'"
  have vs: "set ?vs = snd ` set h'"
    using ok by (simp add: handled_ok_def map_iteration.set_go_values [OF assms(2)])
  have "\<exists>cc' \<in> set ?vs. objectKey cc' = k" if "k \<in> handled_keys h'" for k
    using that ok unfolding vs by (force simp: handled_ok_def handled_keys_def)
  then have "\<forall>cc \<in> set ccs. (\<exists>cl \<in> set clusters. belongs_to cl cc) \<longrightarrow>
      (\<exists>cc' \<in> set ?vs. objectKey cc' = objectKey cc)"
    using restore_clusters_handled [OF c] keys by blast
  moreover have "IPAM st' \<noteq> None \<longrightarrow> internal (the (IPAM st')) = s"
    using st' by (cases "IPAM st4") simp_all
  ultimately show thesis
    using that f ipamFromClusterConfigs_exact [OF assms(1,2,3) i] by blast
qed



text \<open>The IPAM instance, which restoring creates when it does not exist yet, is not in use.\<close>

definition ipam_idle :: "('s, 'w) shared \<Rightarrow> bool" where
  "ipam_idle st \<longleftrightarrow> (\<forall>i. IPAM st = Some i \<longrightarrow> \<not> lock i)"

definition ipam_or_new :: "'s goipam \<Rightarrow> ('s, 'w) shared \<Rightarrow> 's Ipamer" where
  "ipam_or_new G st = (case IPAM st of None \<Rightarrow> NewIpam G | Some i \<Rightarrow> i)"

definition locked_start :: "'s goipam \<Rightarrow> ('s, 'w) shared \<Rightarrow> ('s, 'w) shared" where
  "locked_start G st = st\<lparr>IPAM := Some ((ipam_or_new G st)\<lparr>lock := True\<rparr>)\<rparr>"

lemma held_below_start [simp]: "held_below G (internal (ipam_or_new G st)) (IPAM (locked_start G st))"
  by (simp add: held_below_def locked_start_def)

lemma Restore_locked:
  assumes "ipam_idle st"
  shows "RestoreIPAMFromClusterState rng G L C st =
    go_bind (restore_locked rng G L C (locked_start G st)) (\<lambda>(e, st').
      Ret (e, st'\<lparr>IPAM := map_option (\<lambda>i. i\<lparr>lock := False\<rparr>) (IPAM st')\<rparr>))"
  using assms
  by (cases "IPAM st") (simp_all add: RestoreIPAMFromClusterState_def with_IPAM_lock_def
      locked_start_def ipam_or_new_def NewIpam_def ipam_idle_def)

context ipam_invariant
begin

lemma Restore_sat:
  assumes "ipam_sat False I (IPAM st) \<or> IPAM st = None"
  shows "runs_within (ipam_sat False I) (RestoreIPAMFromClusterState rng G L C st)"
proof -
  have "ipam_idle st" and "ipam_sat True I (IPAM (locked_start G st))"
    using assms I_New by (auto simp: ipam_idle_def ipam_sat_def locked_start_def ipam_or_new_def NewIpam_def)
  then show ?thesis
    by (auto simp: Restore_locked intro!: runs_within_bind [OF restore_locked_sat])
qed

end

lemma restore_locked_runs:
  assumes "goipam_contract G" and "held_below G s (IPAM st)"
  shows "runs_to (restore_post G s) (restore_locked rng G L C st)"
  using assms(2) unfolding restore_locked_def
  by (auto intro!: restore_body_runs [OF assms(1)] runs_within_bind_pure split: option.split prod.split sum.split)

text \<open>C12: restoring the IPAM state never waits for the IPAM lock it holds itself (it uses the
  internal variants of the release and orphan functions), and releases the lock on every path.
  When it fails, the shared state is not replaced: nothing is blocked that was not blocked
  before, and what is missing was released together with an orphaned ClusterConfig.\<close>

theorem Restore_failure_safe:
  assumes "goipam_contract G" and "ipam_idle st"
  shows "RestoreIPAMFromClusterState rng G L C st \<noteq> Block \<and>
    (\<forall>e st'. RestoreIPAMFromClusterState rng G L C st = Ret (e, st') \<longrightarrow> ipam_ready st' \<and>
       (e \<noteq> None \<longrightarrow> known G (ipam_state st') \<subseteq>\<^sub>m known G (internal (ipam_or_new G st))))"
proof -
  have r: "runs_to (restore_post G (internal (ipam_or_new G st)))
      (restore_locked rng G L C (locked_start G st))"
    using restore_locked_runs [OF assms(1) held_below_start] .
  show ?thesis
  proof (intro conjI allI impI)
    show "RestoreIPAMFromClusterState rng G L C st \<noteq> Block"
      using r by (auto simp: Restore_locked [OF assms(2)] go_bind_eq_Block)
    fix e st'
    assume "RestoreIPAMFromClusterState rng G L C st = Ret (e, st')"
    then obtain st1 where "restore_locked rng G L C (locked_start G st) = Ret (e, st1)"
      and st': "st' = st1\<lparr>IPAM := map_option (\<lambda>i. i\<lparr>lock := False\<rparr>) (IPAM st1)\<rparr>"
      by (auto simp: Restore_locked [OF assms(2)])
    then have q: "restore_post G (internal (ipam_or_new G st)) e (IPAM st1)"
      using r by simp
    show "ipam_ready st'"
      using q st' by (auto simp: restore_post_def held_def held_below_def ipam_ready_def split: if_splits)
    show "known G (ipam_state st') \<subseteq>\<^sub>m known G (internal (ipam_or_new G st))" if "e \<noteq> None"
      using that q st' by (auto simp: held_below_def ipam_state_def)
  qed
qed


lemma Restore_success_blocked:
  assumes "goipam_contract G" and "map_iteration rng" and "ipam_idle st" and "config st = Some cfg"
    and "wf_map (ParentCIDRs (Spec cfg))"
    and "RestoreIPAMFromClusterState rng G L C st = Ret (None, st')"
  shows "\<exists>clusters st1 ccs st2 handled.
    FetchRelevantClusters rng L C (Some cfg) (locked_start G st) = Ret (Inr clusters, st1) \<and>
    FetchClusterConfigs C st1 = Ret (Inr ccs, st2) \<and>
    blocked G (ipam_state st') = parent_cidrs cfg \<union> allocated handled \<and>
    (\<forall>cc \<in> set ccs. (\<exists>cl \<in> set clusters. belongs_to cl cc) \<longrightarrow>
      (\<exists>cc' \<in> set handled. objectKey cc' = objectKey cc))"
proof -
  obtain st1 where r: "restore_locked rng G L C (locked_start G st) = Ret (None, st1)"
    and st': "st' = st1\<lparr>IPAM := map_option (\<lambda>i. i\<lparr>lock := False\<rparr>) (IPAM st1)\<rparr>"
    using assms(6) by (auto simp: Restore_locked [OF assms(3)])
  then have body: "restore_body rng G L C cfg (locked_start G st) = Ret (None, st1)"
    using assms(4) by (simp add: restore_locked_def locked_start_def)
  have "held (IPAM st1)"
    using restore_locked_runs [OF assms(1) held_below_start, of st rng L C] r by simp
  then have s: "ipam_state st' = internal (the (IPAM st1))" "IPAM st1 \<noteq> None"
    using st' by (auto simp: held_def ipam_state_def)
  show ?thesis
    by (rule restore_body_success [OF assms(1,2,5) body]) (use s in auto)
qed


definition w_restore :: world where
  "w_restore = \<lparr>w_clusters = [sim_cluster ''c''], w_ccs = ccs_restore, w_config = Some cfg_restore\<rparr>"

theorem Restore_failure_safe_witness:
  "ipam_ready (sim_state s_release w_restore) \<and>
   RestoreIPAMFromClusterState insertion_order sim_goipam sim_lib sim_client (sim_state s_release w_restore) \<noteq> Block"
proof -
  have "ipam_idle (sim_state s_release w_restore)" by (simp add: ipam_idle_def sim_state_def)
  from Restore_failure_safe [OF sim.goipam_contract_axioms this] show ?thesis by simp
qed




section \<open>Laws: CheckClusterConfigsForCluster\<close>

text \<open>A ClusterConfig with the missing injections appended.\<close>

definition extended :: "range_order \<Rightarrow> clusterConfig \<Rightarrow> string gomap \<Rightarrow> clusterConfig" where
  "extended rng cc injs =
     cc\<lparr>Patches := Patches cc @ map injection_patch (go_range rng ''CheckClusterConfigsForCluster/patches'' injs)\<rparr>"

lemma plan_loop_ok:
  assumes "plan_loop rng L st cl ccs ms new upd errs = Ret (new', upd', None)"
    and "wf_map ms" and "wf_map new" and "wf_map upd"
  shows "errs = None \<and> wf_map new' \<and> wf_map upd' \<and>
    (\<forall>r. map_of upd' r = (case (map_of ms r, map_of ccs r) of
       (Some injs, Some cc) \<Rightarrow> if injs = [] then map_of upd r else Some (extended rng cc injs)
     | _ \<Rightarrow> map_of upd r)) \<and>
    (\<forall>r. map_of ms r = None \<longrightarrow> map_of new' r = map_of new r) \<and>
    (\<forall>r injs. map_of ms r = Some injs \<longrightarrow> injs \<noteq> [] \<longrightarrow> map_of ccs r = None \<longrightarrow>
       (\<exists>cc. GenerateClusterConfigForInjectionList rng L st cl r injs = Ret (Inr cc) \<and>
          (Name cc = EmptyClusterNamePlaceholder \<or> map_of new' r = Some cc)))"
  using assms
proof (induction ms arbitrary: new upd errs)
  case (Cons m ms)
  obtain r injs where m: "m = (r, injs)" by force
  have wf: "wf_map ms" and fresh: "map_of ms r = None"
    using Cons.prems(2) m by (auto simp: wf_map_def map_of_eq_None_iff)
  show ?case
  proof (cases "injs = []")
    case True
    then show ?thesis
      using Cons.IH [OF _ wf Cons.prems(3,4)] Cons.prems(1) m fresh by (auto split: option.splits)
  next
    case False
    show ?thesis
    proof (cases "map_of ccs r")
      case None
      obtain x where g: "GenerateClusterConfigForInjectionList rng L st cl r injs = Ret x"
        using Cons.prems(1) m False None by auto
      then show ?thesis
      proof (cases x)
        case (Inl e)
        then have "plan_loop rng L st cl ccs ms new upd
            (errors_join [errs, Some (Errorf ''error generating ClusterConfig for rule'' [r] (Some e))]) =
            Ret (new', upd', None)"
          using Cons.prems(1) m False None g by simp
        from Cons.IH [OF this wf Cons.prems(3,4)] show ?thesis by simp
      next
        case (Inr cc)
        let ?new = "if Name cc = EmptyClusterNamePlaceholder then new else AList.update r cc new"
        have "plan_loop rng L st cl ccs ms ?new upd errs = Ret (new', upd', None)"
          using Cons.prems(1) m False None g Inr by simp
        moreover have "wf_map ?new" using Cons.prems(3) by simp
        ultimately show ?thesis
          using Cons.IH [OF _ wf _ Cons.prems(4), of ?new errs] m False None g Inr fresh
          by (auto split: option.splits)
      qed
    next
      case (Some cc)
      have "plan_loop rng L st cl ccs ms new (AList.update r (extended rng cc injs) upd) errs = Ret (new', upd', None)"
        using Cons.prems(1) m False Some by (simp add: extended_def)
      from Cons.IH [OF this wf Cons.prems(3)] show ?thesis
        using m False Some fresh Cons.prems(4) by (auto split: option.splits)
    qed
  qed
qed simp



text \<open>A version of a ClusterConfig that differs from it in its finalizers only, and has them all.\<close>

definition refinalized :: "clusterConfig \<Rightarrow> clusterConfig \<Rightarrow> bool" where
  "refinalized c c' \<longleftrightarrow> (\<exists>fs. c' = c\<lparr>Finalizers := Finalizers c @ fs\<rparr>)"

lemma refinalized_refl [simp]: "refinalized c c"
  by (auto simp: refinalized_def intro: exI [of _ "[]"])

lemma refinalized_trans: "refinalized a b \<Longrightarrow> refinalized b c \<Longrightarrow> refinalized a c"
  by (auto simp: refinalized_def)

lemma refinalized_add [simp]: "refinalized c (c\<lparr>Finalizers := Finalizers c @ fs\<rparr>)"
  by (auto simp: refinalized_def)

definition lacks_finalizer :: "clusterConfig \<Rightarrow> bool" where
  "lacks_finalizer cc \<longleftrightarrow> CIDRManagementFinalizer \<notin> set (Finalizers cc) \<and> DeletionTimestamp cc = None"

lemma finalizer_step_idle: "\<not> lacks_finalizer cc \<Longrightarrow> finalizer_step L upd (r, cc) = upd"
  by (auto simp: finalizer_step_def lacks_finalizer_def)

lemma finalizer_fold_idle:
  "\<forall>rc \<in> set xs. \<not> lacks_finalizer (snd rc) \<Longrightarrow> foldl (finalizer_step L) upd xs = upd"
  by (induction xs) (auto simp: finalizer_step_idle)

context finalizer_contract
begin

lemma finalizer_step_wf [simp]: "wf_map upd \<Longrightarrow> wf_map (finalizer_step L upd rc)"
  by (auto simp: finalizer_step_def AddFinalizer_spec Let_def split: prod.split)

lemma finalizer_fold_wf: "wf_map upd \<Longrightarrow> wf_map (foldl (finalizer_step L) upd xs)"
  by (induction xs arbitrary: upd) simp_all

lemma finalizer_step_keeps:
  "map_of upd r = Some u \<Longrightarrow> \<exists>u'. map_of (finalizer_step L upd rc) r = Some u' \<and> refinalized u u'"
  by (cases rc) (auto simp: finalizer_step_def AddFinalizer_spec Let_def)

lemma finalizer_fold_keeps:
  "map_of upd r = Some u \<Longrightarrow> \<exists>u'. map_of (foldl (finalizer_step L) upd xs) r = Some u' \<and> refinalized u u'"
proof (induction xs arbitrary: upd u)
  case (Cons x xs)
  obtain v where "map_of (finalizer_step L upd x) r = Some v" "refinalized u v"
    using finalizer_step_keeps [OF Cons.prems] by blast
  with Cons.IH show ?case by (fastforce intro: refinalized_trans)
qed auto

lemma finalizer_step_adds:
  assumes "lacks_finalizer cc"
  shows "\<exists>u. map_of (finalizer_step L upd (r, cc)) r = Some u \<and> CIDRManagementFinalizer \<in> set (Finalizers u) \<and>
    (map_of upd r = None \<longrightarrow> refinalized cc u)"
  using assms by (auto simp: finalizer_step_def lacks_finalizer_def AddFinalizer_spec Let_def split: option.split)

lemma refinalized_finalizers: "refinalized u v \<Longrightarrow> f \<in> set (Finalizers u) \<Longrightarrow> f \<in> set (Finalizers v)"
  by (auto simp: refinalized_def)

lemma finalizer_fold_adds:
  assumes "lacks_finalizer cc" and "(r, cc) \<in> set xs"
  shows "\<exists>u. map_of (foldl (finalizer_step L) upd xs) r = Some u \<and> CIDRManagementFinalizer \<in> set (Finalizers u)"
proof -
  obtain ys zs where xs: "xs = ys @ (r, cc) # zs" using assms(2) by (auto dest: split_list)
  obtain u where "map_of (foldl (finalizer_step L) upd (ys @ [(r, cc)])) r = Some u"
      "CIDRManagementFinalizer \<in> set (Finalizers u)"
    using finalizer_step_adds [OF assms(1), of "foldl (finalizer_step L) upd ys" r] by auto
  with finalizer_fold_keeps [of "foldl (finalizer_step L) upd (ys @ [(r, cc)])" r u zs] refinalized_finalizers
  show ?thesis using xs by fastforce
qed

end

context map_iteration
begin

lemma missing_injections_keys: "map fst (missing_injections rng a ccs) = rng ''CheckClusterConfigsForCluster/appliedRules'' (map fst a)"
  by (simp add: missing_injections_def split_def comp_def flip: keys_go_range)

lemma map_of_missing:
  assumes "wf_map a"
  shows "wf_map (missing_injections rng a ccs)"
    and "map_of (missing_injections rng a ccs) r = map_option (missing_for (map_of ccs r)) (map_of a r)"
proof -
  show "wf_map (missing_injections rng a ccs)"
    using assms missing_injections_keys by (simp add: wf_map_def)
  have "map_of (map (\<lambda>(k, v). (k, f k v)) m) r = map_option (f r) (map_of m r)"
    for m :: "AppliedRulesAnnotation" and f :: "string \<Rightarrow> nilmap \<Rightarrow> string gomap"
    by (induction m) auto
  then show "map_of (missing_injections rng a ccs) r = map_option (missing_for (map_of ccs r)) (map_of a r)"
    using assms by (simp add: missing_injections_def)
qed

end


lemma missing_for_mem:
  assumes "wf_outer a" and "injections_of a r p = Some c"
    and "\<And>cc. map_of ccs r = Some cc \<Longrightarrow> \<not> list_ex (\<lambda>patch. PatchPath patch = p) (Patches cc)"
  obtains inner where "map_of a r = Some (Some inner)" and "wf_map inner"
    and "wf_map (missing_for (map_of ccs r) (Some inner))"
    and "(p, c) \<in> set (missing_for (map_of ccs r) (Some inner))"
proof -
  obtain inner where i: "map_of a r = Some (Some inner)" "map_of inner p = Some c"
    using assms(2) by (auto simp: injections_of_def split: option.splits)
  then have wf: "wf_map inner"
    using assms(1) by (fastforce simp: wf_outer_def dest: map_of_SomeD)
  then have "wf_map (missing_for (map_of ccs r) (Some inner))"
    by (auto simp: missing_for_def nil_to_empty_def wf_map_def distinct_map_filter split: option.split)
  moreover have "(p, c) \<in> set (missing_for (map_of ccs r) (Some inner))"
    using i(2) assms(3) by (auto simp: missing_for_def nil_to_empty_def dest: map_of_SomeD split: option.split)
  ultimately show thesis using that i wf by blast
qed

text \<open>What a successful check has planned.\<close>

lemma Check_Ret:
  assumes "CheckClusterConfigsForCluster rng L C cl (Some a) (Some ccs) st = Ret (Inr ir, st')"
  obtains new upd where
    "plan_loop rng L st cl ccs (go_range rng ''CheckClusterConfigsForCluster/missing''
       (missing_injections rng a ccs)) [] [] None = Ret (new, upd, None)"
    and "ir = \<lparr>ClusterConfigsToCreate = go_values rng ''CheckClusterConfigsForCluster/new'' new,
      ClusterConfigsToUpdate = map SortPatches (go_values rng ''CheckClusterConfigsForCluster/updated''
        (foldl (finalizer_step L) upd (go_range rng ''CheckClusterConfigsForCluster/finalizers'' ccs)))\<rparr>"
    and "st' = st"
proof -
  let ?plan = "plan_loop rng L st cl ccs (go_range rng ''CheckClusterConfigsForCluster/missing''
       (missing_injections rng a ccs)) [] [] None"
  obtain new upd errs where plan: "?plan = Ret (new, upd, errs)"
    using assms by (cases ?plan) (auto simp: CheckClusterConfigsForCluster_def)
  then have none: "errs = None"
    using assms plan by (cases errs) (simp_all add: CheckClusterConfigsForCluster_def)
  show thesis
  proof (rule that)
    show "?plan = Ret (new, upd, None)" using plan none by simp
  qed (use assms plan none in \<open>simp_all add: CheckClusterConfigsForCluster_def Let_def\<close>)
qed


text \<open>The updated ClusterConfigs are versions of existing ones.\<close>

definition versions_of :: "clusterConfig gomap \<Rightarrow> clusterConfig gomap \<Rightarrow> bool" where
  "versions_of ccs upd \<longleftrightarrow> (\<forall>r u. map_of upd r = Some u \<longrightarrow>
     (\<exists>cc. map_of ccs r = Some cc \<and> objectKey u = objectKey cc))"

lemma versions_of_key:
  assumes "versions_of ccs upd" and "map_of upd r = Some u" and "map_of ccs r = Some cc"
  shows "objectKey u = objectKey cc"
proof -
  obtain c where "map_of ccs r = Some c" "objectKey u = objectKey c"
    using assms(1,2) unfolding versions_of_def by blast
  then show ?thesis using assms(3) by simp
qed

lemma objectKey_SortPatches [simp]: "objectKey (SortPatches cc) = objectKey cc"
  by (simp add: objectKey_def)

context finalizer_contract
begin

lemma finalizer_fold_versions:
  "versions_of ccs upd \<Longrightarrow> \<forall>(r, cc) \<in> set xs. map_of ccs r = Some cc \<Longrightarrow>
   versions_of ccs (foldl (finalizer_step L) upd xs)"
proof (induction xs arbitrary: upd)
  case (Cons x xs)
  have "versions_of ccs (finalizer_step L upd x)"
    using Cons.prems
    by (auto simp: versions_of_def finalizer_step_def AddFinalizer_spec Let_def objectKey_def
        split: option.splits prod.splits if_splits)
  then show ?case using Cons by simp
qed simp

end

lemma Check_plan:
  assumes rng: "map_iteration rng" and L: "finalizer_contract L" and wfa: "wf_map a" and wfc: "wf_map ccs"
    and check: "CheckClusterConfigsForCluster rng L C cl (Some a) (Some ccs) st = Ret (Inr ir, st')"
  shows "map_of a r = Some z \<Longrightarrow> missing_for (map_of ccs r) z \<noteq> [] \<Longrightarrow> map_of ccs r = None \<Longrightarrow>
      \<exists>cc. GenerateClusterConfigForInjectionList rng L st cl r (missing_for (map_of ccs r) z) = Ret (Inr cc) \<and>
        (Name cc = EmptyClusterNamePlaceholder \<or> cc \<in> set (ClusterConfigsToCreate ir))"
    and "map_of a r = Some z \<Longrightarrow> missing_for (map_of ccs r) z \<noteq> [] \<Longrightarrow> map_of ccs r = Some cc \<Longrightarrow>
      \<exists>u \<in> set (ClusterConfigsToUpdate ir). objectKey u = objectKey cc \<and>
        set (Patches u) = set (Patches (extended rng cc (missing_for (map_of ccs r) z)))"
    and "map_of ccs r = Some cc \<Longrightarrow> lacks_finalizer cc \<Longrightarrow>
      \<exists>u \<in> set (ClusterConfigsToUpdate ir). objectKey u = objectKey cc \<and>
        CIDRManagementFinalizer \<in> set (Finalizers u)"
proof -
  let ?ms = "go_range rng ''CheckClusterConfigsForCluster/missing'' (missing_injections rng a ccs)"
  let ?xs = "go_range rng ''CheckClusterConfigsForCluster/finalizers'' ccs"
  obtain new upd where plan: "plan_loop rng L st cl ccs ?ms [] [] None = Ret (new, upd, None)"
    and ir: "ir = \<lparr>ClusterConfigsToCreate = go_values rng ''CheckClusterConfigsForCluster/new'' new,
      ClusterConfigsToUpdate = map SortPatches (go_values rng ''CheckClusterConfigsForCluster/updated''
        (foldl (finalizer_step L) upd ?xs))\<rparr>"
    using Check_Ret [OF check] by blast
  let ?upd = "foldl (finalizer_step L) upd ?xs"
  have ms: "wf_map ?ms" "map_of ?ms r' = map_option (missing_for (map_of ccs r')) (map_of a r')" for r'
    using map_iteration.map_of_missing [OF rng wfa]
    by (simp_all add: map_iteration.wf_go_range [OF rng] map_iteration.map_of_go_range [OF rng])
  note p = plan_loop_ok [OF plan ms(1) wf_map_Nil wf_map_Nil]
  have wfs: "wf_map new" "wf_map upd" "wf_map ?upd"
    using p finalizer_contract.finalizer_fold_wf [OF L] by blast+
  have create: "c \<in> set (ClusterConfigsToCreate ir)" if "map_of new k = Some c" for k c
    using map_iteration.go_values_mem [OF rng wfs(1) that] by (simp add: ir)
  have update: "SortPatches c \<in> set (ClusterConfigsToUpdate ir)" if "map_of ?upd k = Some c" for k c
    using map_iteration.go_values_mem [OF rng wfs(3) that] by (simp add: ir)
  have xs: "set ?xs = set ccs" by (rule map_iteration.set_go_range [OF rng wfc])
  note pu = p [THEN conjunct2, THEN conjunct2, THEN conjunct2, THEN conjunct1, rule_format]
  have "versions_of ccs upd"
    unfolding versions_of_def
  proof (intro allI impI)
    fix k u assume "map_of upd k = Some u"
    then show "\<exists>cc. map_of ccs k = Some cc \<and> objectKey u = objectKey cc"
      unfolding pu
      by (cases "map_of ?ms k"; cases "map_of ccs k")
         (simp_all add: extended_def objectKey_def split: if_split_asm, force)
  qed
  then have versions: "versions_of ccs ?upd"
    by (rule finalizer_contract.finalizer_fold_versions [OF L]) (use wfc xs in \<open>auto simp: wf_map_def\<close>)
  show "\<exists>cc. GenerateClusterConfigForInjectionList rng L st cl r (missing_for (map_of ccs r) z) = Ret (Inr cc) \<and>
        (Name cc = EmptyClusterNamePlaceholder \<or> cc \<in> set (ClusterConfigsToCreate ir))"
    if h: "map_of a r = Some z" "missing_for (map_of ccs r) z \<noteq> []" "map_of ccs r = None"
  proof -
    have "map_of ?ms r = Some (missing_for (map_of ccs r) z)" using ms(2) h(1) by simp
    note pn = p [THEN conjunct2, THEN conjunct2, THEN conjunct2, THEN conjunct2, THEN conjunct2,
        rule_format, OF this h(2,3)]
    then show ?thesis using create by blast
  qed
  show "\<exists>u \<in> set (ClusterConfigsToUpdate ir). objectKey u = objectKey cc \<and>
        set (Patches u) = set (Patches (extended rng cc (missing_for (map_of ccs r) z)))"
    if h: "map_of a r = Some z" "missing_for (map_of ccs r) z \<noteq> []" "map_of ccs r = Some cc"
  proof -
    have "map_of upd r = Some (extended rng cc (missing_for (map_of ccs r) z))"
      using p h ms(2) [of r] by simp
    then obtain u where u: "map_of ?upd r = Some u" "refinalized (extended rng cc (missing_for (map_of ccs r) z)) u"
      using finalizer_contract.finalizer_fold_keeps [OF L] by blast
    moreover have "objectKey u = objectKey cc" by (rule versions_of_key [OF versions u(1) h(3)])
    ultimately show ?thesis
      using update [OF u(1)] by (intro bexI [of _ "SortPatches u"]) (auto simp: refinalized_def)
  qed
  show "\<exists>u \<in> set (ClusterConfigsToUpdate ir). objectKey u = objectKey cc \<and>
      CIDRManagementFinalizer \<in> set (Finalizers u)" if cc: "map_of ccs r = Some cc" "lacks_finalizer cc"
  proof -
    obtain u where u: "map_of ?upd r = Some u" "CIDRManagementFinalizer \<in> set (Finalizers u)"
      using finalizer_contract.finalizer_fold_adds [OF L cc(2)] map_of_SomeD [OF cc(1)] xs by blast
    moreover have "objectKey u = objectKey cc" by (rule versions_of_key [OF versions u(1) cc(1)])
    ultimately show ?thesis using update [OF u(1)] by (intro bexI [of _ "SortPatches u"]) simp_all
  qed
qed


lemma plan_loop_idle:
  "\<forall>m \<in> set ms. snd m = [] \<Longrightarrow> plan_loop rng L st cl ccs ms new upd errs = Ret (new, upd, errs)"
  by (induction ms) auto

lemma Check_quiet:
  assumes "map_iteration rng" and "wf_outer a" and "wf_map ccs"
    and "\<forall>r p. injections_of a r p \<noteq> None \<longrightarrow>
      (\<exists>cc patch. map_of ccs r = Some cc \<and> patch \<in> set (Patches cc) \<and> PatchPath patch = p)"
    and "\<forall>cc \<in> snd ` set ccs. \<not> lacks_finalizer cc"
  shows "CheckClusterConfigsForCluster rng L C cl (Some a) (Some ccs) st =
    Ret (Inr \<lparr>ClusterConfigsToCreate = [], ClusterConfigsToUpdate = []\<rparr>, st)"
proof -
  have wfa: "wf_map a" using assms(2) by (simp add: wf_outer_def)
  have nil: "missing_for (map_of ccs r) z = []" if z: "map_of a r = Some z" for r z
  proof (rule ccontr)
    assume ne: "missing_for (map_of ccs r) z \<noteq> []"
    then obtain inner where inner: "z = Some inner"
      by (cases z) (auto simp: missing_for_def nil_to_empty_def split: option.splits)
    then have "wf_map inner"
      using assms(2) map_of_SomeD [OF z] by (auto simp: wf_outer_def)
    obtain p c where pc: "(p, c) \<in> set (missing_for (map_of ccs r) z)"
      using ne by (cases "missing_for (map_of ccs r) z") auto
    then have "(p, c) \<in> set inner"
      by (auto simp: inner missing_for_def nil_to_empty_def split: option.splits)
    then have "injections_of a r p \<noteq> None"
      using z inner \<open>wf_map inner\<close> by (simp add: injections_of_def wf_map_def)
    then obtain cc patch where "map_of ccs r = Some cc" "patch \<in> set (Patches cc)" "PatchPath patch = p"
      using assms(4) by blast
    then show False using pc by (auto simp: missing_for_def list_ex_iff)
  qed
  let ?ms = "go_range rng ''CheckClusterConfigsForCluster/missing'' (missing_injections rng a ccs)"
  have "wf_map (missing_injections rng a ccs)"
    by (rule map_iteration.map_of_missing(1) [OF assms(1) wfa])
  then have "set ?ms = set (missing_injections rng a ccs)"
    by (rule map_iteration.set_go_range [OF assms(1)])
  moreover have "snd m = []" if "m \<in> set (missing_injections rng a ccs)" for m
  proof -
    have "map_of (missing_injections rng a ccs) (fst m) = Some (snd m)"
      using that \<open>wf_map (missing_injections rng a ccs)\<close> by (simp add: wf_map_of_iff)
    then show ?thesis
      using nil [of "fst m"] by (auto simp: map_iteration.map_of_missing(2) [OF assms(1) wfa])
  qed
  ultimately have "plan_loop rng L st cl ccs ?ms [] [] None = Ret ([], [], None)"
    by (intro plan_loop_idle) simp
  moreover have "foldl (finalizer_step L) [] (go_range rng ''CheckClusterConfigsForCluster/finalizers'' ccs) = []"
    using assms(5) by (intro finalizer_fold_idle) (simp add: map_iteration.set_go_range [OF assms(1,3)])
  ultimately show ?thesis
    by (simp add: CheckClusterConfigsForCluster_def go_values_def map_iteration.go_range_Nil [OF assms(1)])
qed

text \<open>The check is quiet when there is nothing to do. If every injection of the annotation is
  at its path in the ClusterConfig of its rule and every ClusterConfig has the management
  finalizer or is in deletion, then the instruction is empty, so nothing is created or updated.\<close>

theorem Check_idle:
  assumes "map_iteration rng" and "wf_outer a" and "wf_map ccs"
    and "\<forall>r p. injections_of a r p \<noteq> None \<longrightarrow>
      (\<exists>cc patch. map_of ccs r = Some cc \<and> patch \<in> set (Patches cc) \<and> PatchPath patch = p)"
    and "\<forall>cc \<in> snd ` set ccs. \<not> lacks_finalizer cc"
  shows "CheckClusterConfigsForCluster rng L C cl (Some a) (Some ccs) st =
    Ret (Inr \<lparr>ClusterConfigsToCreate = [], ClusterConfigsToUpdate = []\<rparr>, st)"
  by (rule Check_quiet [OF assms])

definition ann_check :: AppliedRulesAnnotation where
  "ann_check = [(''r'', Some [(''/a'', ''10.0.0.0/24''), (''/b'', ''10.0.0.0/28'')]), (''q'', Some [(''/d'', ''10.0.1.0/24'')])]"

theorem Check_idle_witness:
  "CheckClusterConfigsForCluster insertion_order sim_lib sim_client (sim_cluster ''c'')
     (Some [(''r'', Some [(''/a'', ''10.0.0.0/24'')])])
     (Some [(''r'', sim_cc ''c'' ''r'' [CIDRManagementFinalizer] [(''/a'', ''10.0.0.0/24'')])]) (sim_state [] w_restore) =
   Ret (Inr \<lparr>ClusterConfigsToCreate = [], ClusterConfigsToUpdate = []\<rparr>, sim_state [] w_restore)"
  by (rule Check_idle [OF insertion.map_iteration_axioms])
     (auto simp: wf_outer_def wf_map_def injections_of_def sim_cc_def lacks_finalizer_def split: if_splits)


section \<open>Laws: orphaned ClusterConfigs\<close>



text \<open>A platform cluster whose API server fails to answer reads of Clusters.\<close>

definition flaky_client :: "world platform_client" where
  "flaky_client = sim_client\<lparr>c_GetCluster := (\<lambda>w ns n. (Inl (ApiError ''timeout''), w))\<rparr>"

definition st_flaky :: "(sim, world) shared" where
  "st_flaky = sim_state s_release \<lparr>w_clusters = [sim_cluster ''c''], w_ccs = w_ccs w_release, w_config = None\<rparr>"


end
