(* ===== verification/Cluster_Controller.thy ===== *)
theory Cluster_Controller
  imports Restore
begin

text \<open>
  \<^verbatim>\<open>internal/controllers/cluster/controller.go\<close>: the reconciliation of a Cluster, with the
  core logic that decides which CIDRs are injected where, acquires them from the shared IPAM
  instance, and records them in the annotation of the Cluster and in ClusterConfigs.  The flag
  \<open>er\<close> says whether the controller has an event recorder.
\<close>

section \<open>Constants and results\<close>

definition EventReasonCIDRManagementError :: string where
  "EventReasonCIDRManagementError = ''CIDRManagementError''"

definition EventActionFetchingCluster :: string where
  "EventActionFetchingCluster = ''FetchingCluster''"

definition EventActionHandlingOperationAnnotation :: string where
  "EventActionHandlingOperationAnnotation = ''HandlingOperationAnnotation''"

definition EventActionParsingAppliedRules :: string where
  "EventActionParsingAppliedRules = ''ParsingAppliedRules''"

definition EventActionEvaluatingExistingClusterConfigs :: string where
  "EventActionEvaluatingExistingClusterConfigs = ''EvaluatingExistingClusterConfigs''"

definition EventActionEvaluatingMissingInjections :: string where
  "EventActionEvaluatingMissingInjections = ''EvaluatingMissingInjections''"

definition EventActionEvaluatingRulesToApply :: string where
  "EventActionEvaluatingRulesToApply = ''EvaluatingRulesToApply''"

definition EventActionCIDRGeneration :: string where
  "EventActionCIDRGeneration = ''CIDRGeneration''"

definition EventActionApplyingChanges :: string where
  "EventActionApplyingChanges = ''ApplyingChanges''"

definition EventActionReleasingCIDRs :: string where
  "EventActionReleasingCIDRs = ''ReleasingCIDRs''"

record ReconcileResult =
  rr_Cluster :: "cluster option"
  rr_EventAction :: string
  rr_Result :: reconcile_Result
  rr_Error :: "goerr option"

definition rr_empty :: ReconcileResult where
  "rr_empty = \<lparr>rr_Cluster = None, rr_EventAction = [], rr_Result = \<lparr>RequeueAfter = 0\<rparr>, rr_Error = None\<rparr>"

definition defaultedEventAction :: "ReconcileResult \<Rightarrow> string" where
  "defaultedEventAction rr = (if rr_EventAction rr \<noteq> [] then rr_EventAction rr else ''Reconcile'')"

text \<open>The set of skipped rules is a list without duplicates.\<close>

record InjectionManagementResult =
  Instruction :: RestorationInstruction
  AnnotationToApply :: AppliedRulesAnnotation
  RulesWithIssues :: "goerr gomap"
  SkippedBecauseAlreadyAppliedRules :: "string list"

section \<open>Generating the CIDRs of a rule\<close>

text \<open>The CIDRs of a parent that the shared IPAM instance knows.\<close>

fun parent_prefixes ::
  "'s goipam \<Rightarrow> string list \<Rightarrow> prefix list \<Rightarrow> ('s, 'w) shared \<Rightarrow> (prefix list \<times> ('s, 'w) shared) go" where
  "parent_prefixes G [] acc st = Ret (acc, st)"
| "parent_prefixes G (cidr # cidrs) acc st =
     go_bind (on_IPAM (PrefixFrom G cidr) st) (\<lambda>(r, st').
       case r of
         Inl _ \<Rightarrow> parent_prefixes G cidrs acc st'
       | Inr p \<Rightarrow> parent_prefixes G cidrs (acc @ [p]) st')"

text \<open>The first prefix from which a child of the wanted length can be acquired.\<close>

fun acquire_from ::
  "'s goipam \<Rightarrow> 8 word \<Rightarrow> prefix list \<Rightarrow> ('s, 'w) shared \<Rightarrow> (prefix option \<times> ('s, 'w) shared) go" where
  "acquire_from G len [] st = Ret (None, st)"
| "acquire_from G len (p # ps) st =
     go_bind (on_IPAM (AcquireChildPrefix G (Cidr p) len) st) (\<lambda>(r, st').
       case r of
         Inl _ \<Rightarrow> acquire_from G len ps st'
       | Inr c \<Rightarrow> Ret (Some c, st'))"

text \<open>The loop over the selected parents of one injection.\<close>

fun acquire_child ::
  "'s goipam \<Rightarrow> string list gomap \<Rightarrow> prefix list gomap \<Rightarrow> 8 word \<Rightarrow> string list \<Rightarrow> ('s, 'w) shared \<Rightarrow>
     (prefix option \<times> ('s, 'w) shared) go" where
  "acquire_child G parentCIDRs tmpParents len [] st = Ret (None, st)"
| "acquire_child G parentCIDRs tmpParents len (parentID # parentIDs) st =
     go_bind
       (case map_of tmpParents parentID of
          Some ps \<Rightarrow> Ret (Some ps, st)
        | None \<Rightarrow>
            (case map_of parentCIDRs parentID of
               None \<Rightarrow> Ret (None, st)
             | Some cidrs \<Rightarrow>
                 go_bind (parent_prefixes G cidrs [] st) (\<lambda>(ps, st'). Ret (Some ps, st'))))
       (\<lambda>(candidates, st1).
          case candidates of
            None \<Rightarrow> acquire_child G parentCIDRs tmpParents len parentIDs st1
          | Some ps \<Rightarrow>
              go_bind (acquire_from G len ps st1) (\<lambda>(c, st2).
                case c of
                  None \<Rightarrow> acquire_child G parentCIDRs tmpParents len parentIDs st2
                | Some child \<Rightarrow> Ret (Some child, st2)))"

text \<open>Giving back what a failed rule has acquired; errors are only logged.\<close>

fun release_all :: "'s goipam \<Rightarrow> prefix list \<Rightarrow> ('s, 'w) shared \<Rightarrow> (unit \<times> ('s, 'w) shared) go" where
  "release_all G [] st = Ret ((), st)"
| "release_all G (p # ps) st =
     go_bind (on_IPAM (ReleaseChildPrefix G p) st) (\<lambda>(_, st'). release_all G ps st')"

definition selected_parents ::
  "range_order \<Rightarrow> string list gomap \<Rightarrow> SingleCIDRInjection \<Rightarrow> string list" where
  "selected_parents rng parentCIDRs injection =
     (if inj_Parents injection = [] then go_keys rng ''generateCIDRsForInjectionRule/parents'' parentCIDRs
      else inj_Parents injection)"

definition put_paths :: "SingleCIDRInjection \<Rightarrow> prefix \<Rightarrow> prefix gomap \<Rightarrow> prefix gomap" where
  "put_paths injection c raw =
     foldl (\<lambda>m pws. AList.update (pws_Path pws) c m) raw (GetPaths injection)"

fun generate_loop ::
  "range_order \<Rightarrow> 's goipam \<Rightarrow> string \<Rightarrow> string list gomap \<Rightarrow> SingleCIDRInjection list \<Rightarrow> nat \<Rightarrow>
     prefix gomap \<Rightarrow> prefix list gomap \<Rightarrow> ('s, 'w) shared \<Rightarrow>
     (prefix gomap result \<times> ('s, 'w) shared) go" where
  "generate_loop rng G rid parentCIDRs [] idx raw tmpParents st = Ret (Inr raw, st)"
| "generate_loop rng G rid parentCIDRs (injection # injections) idx raw tmpParents st =
     go_bind (acquire_child G parentCIDRs tmpParents (word_of_int (inj_SubnetSize injection))
                (selected_parents rng parentCIDRs injection) st) (\<lambda>(c, st1).
       case c of
         None \<Rightarrow>
           go_bind (release_all G (go_values rng ''generateCIDRsForInjectionRule/release'' raw) st1)
             (\<lambda>(_, st2).
                Ret (Inl (Errorf ''unable to generate CIDR for injection'' [nat_to_string idx, rid] None), st2))
       | Some child \<Rightarrow>
           generate_loop rng G rid parentCIDRs injections (Suc idx) (put_paths injection child raw)
             (if inj_ID injection \<noteq> [] then AList.update (inj_ID injection) [child] tmpParents else tmpParents)
             st1)"

definition generateCIDRsForInjectionRule ::
  "range_order \<Rightarrow> 's goipam \<Rightarrow> CIDRInjection \<Rightarrow> string list gomap \<Rightarrow> ('s, 'w) shared \<Rightarrow>
     (string gomap result \<times> ('s, 'w) shared) go" where
  "generateCIDRsForInjectionRule rng G rule parentCIDRs st =
     go_bind (generate_loop rng G (rule_ID rule) parentCIDRs (rule_Injections rule) 0 [] [] st) (\<lambda>(r, st').
       case r of
         Inl e \<Rightarrow> Ret (Inl e, st')
       | Inr raw \<Rightarrow> Ret (Inr (map (map_prod id Cidr) raw), st'))"

section \<open>ManageInjections\<close>

text \<open>Adding the patches of an existing ClusterConfig to the recorded injections of its rule.\<close>

fun record_patches ::
  "clusterConfig \<Rightarrow> jsonPatch list \<Rightarrow> nilmap \<Rightarrow> goerr list \<Rightarrow> (nilmap \<times> goerr list) go" where
  "record_patches cc [] injected errs = Ret (injected, errs)"
| "record_patches cc (patch # patches) injected errs =
     (if map_of (nil_to_empty injected) (PatchPath patch) \<noteq> None then record_patches cc patches injected errs
      else case PatchValue patch of
        None \<Rightarrow> Panic NilDereference
      | Some raw \<Rightarrow>
          (case json_Unmarshal_string raw of
             None \<Rightarrow> record_patches cc patches injected
               (errs @ [Errorf ''error unmarshaling value for path'' [PatchPath patch, Namespace cc, Name cc] None])
           | Some pval \<Rightarrow>
               (case injected of
                  None \<Rightarrow> Panic NilMapWrite
                | Some m \<Rightarrow> record_patches cc patches (Some (AList.update (PatchPath patch) pval m)) errs)))"

fun record_ccs ::
  "(string \<times> clusterConfig) list \<Rightarrow> AppliedRulesAnnotation \<Rightarrow> goerr list \<Rightarrow>
     (AppliedRulesAnnotation \<times> goerr list) go" where
  "record_ccs [] applied errs = Ret (applied, errs)"
| "record_ccs ((ruleID, cc) # ccs) applied errs =
     go_bind (record_patches cc (Patches cc)
                (case map_of applied ruleID of None \<Rightarrow> Some [] | Some m \<Rightarrow> m) errs) (\<lambda>(m, errs').
       record_ccs ccs (AList.update ruleID m applied) errs')"

definition injected_paths :: "AppliedRulesAnnotation \<Rightarrow> string list" where
  "injected_paths applied = concat (map (\<lambda>(_, m). map fst (nil_to_empty m)) applied)"

text \<open>
  Normalizing the paths of one injection.  A conflict ends the loop over the paths of this
  injection only; a path that cannot be converted is reported and stays as it is.
\<close>

type_synonym norm_state = "SingleCIDRInjection \<times> string list \<times> goerr gomap \<times> goerr list"

fun norm_paths :: "lib \<Rightarrow> string \<Rightarrow> string list \<Rightarrow> PathWithSource list \<Rightarrow> norm_state \<Rightarrow> norm_state" where
  "norm_paths L rid injectedPaths [] x = x"
| "norm_paths L rid injectedPaths (pws # rest) (ij, seen, issues, errs) =
     (case ConvertPath L (pws_Path pws) of
        Inl e \<Rightarrow> norm_paths L rid injectedPaths rest
          (ij, seen, issues, errs @ [Errorf ''error converting path'' [pws_Path pws, Source pws, rid] (Some e)])
      | Inr path \<Rightarrow>
          let ij' = (if pws_Index pws < 0 then ij\<lparr>inj_Path := path\<rparr>
                      else ij\<lparr>inj_Paths := (inj_Paths ij)[nat (pws_Index pws) := path]\<rparr>)
          in if path \<in> set seen then
               (ij', seen, AList.update rid
                  (Errorf ''rule contains multiple injections for the same path'' [rid, path] None) issues, errs)
             else if path \<in> set injectedPaths then
               (ij', path # seen, AList.update rid
                  (Errorf ''rule tries to inject into a path which has already been used by another injection rule''
                     [rid, path] None) issues, errs)
             else norm_paths L rid injectedPaths rest (ij', path # seen, issues, errs))"

fun norm_injections ::
  "lib \<Rightarrow> string \<Rightarrow> string list \<Rightarrow> SingleCIDRInjection list \<Rightarrow> string list \<Rightarrow> goerr gomap \<Rightarrow> goerr list \<Rightarrow>
     SingleCIDRInjection list \<times> goerr gomap \<times> goerr list" where
  "norm_injections L rid injectedPaths [] seen issues errs = ([], issues, errs)"
| "norm_injections L rid injectedPaths (ij # injs) seen issues errs =
     (case norm_paths L rid injectedPaths (GetPaths ij) (ij, seen, issues, errs) of
        (ij', seen', issues', errs') \<Rightarrow>
          (case norm_injections L rid injectedPaths injs seen' issues' errs' of
             (injs', issues'', errs'') \<Rightarrow> (ij' # injs', issues'', errs'')))"

text \<open>One round of the loop over the applicable rules.\<close>

definition apply_rule ::
  "range_order \<Rightarrow> 's goipam \<Rightarrow> lib \<Rightarrow> cluster \<Rightarrow> IPAMConfig option \<Rightarrow> AppliedRulesAnnotation \<Rightarrow> CIDRInjection \<Rightarrow>
     InjectionManagementResult \<Rightarrow> goerr list \<Rightarrow> ('s, 'w) shared \<Rightarrow>
     ((InjectionManagementResult \<times> goerr list) \<times> ('s, 'w) shared) go" where
  "apply_rule rng G L cl cfg applied rule res errs st =
     (if map_of applied (rule_ID rule) \<noteq> None then
        Ret ((res\<lparr>SkippedBecauseAlreadyAppliedRules :=
                    List.insert (rule_ID rule) (SkippedBecauseAlreadyAppliedRules res)\<rparr>, errs), st)
      else case norm_injections L (rule_ID rule) (injected_paths applied) (rule_Injections rule) []
                  (RulesWithIssues res) errs of
        (injs, issues, errs1) \<Rightarrow>
          let res1 = res\<lparr>RulesWithIssues := issues\<rparr>
          in if map_of issues (rule_ID rule) \<noteq> None then Ret ((res1, errs1), st)
             else case cfg of None \<Rightarrow> Panic NilDereference | Some conf \<Rightarrow>
               go_bind (generateCIDRsForInjectionRule rng G (rule\<lparr>rule_Injections := injs\<rparr>)
                          (ParentCIDRs (Spec conf)) st) (\<lambda>(r, st1).
                 case r of
                   Inl e \<Rightarrow> Ret ((res1, errs1 @ [Errorf ''error generating CIDRs for injection rule''
                                                   [rule_ID rule] (Some e)]), st1)
                 | Inr injections \<Rightarrow>
                     let res2 = res1\<lparr>AnnotationToApply :=
                           AList.update (rule_ID rule) (Some injections) (AnnotationToApply res1)\<rparr>
                     in go_bind (GenerateClusterConfigForInjectionList rng L st1 cl (rule_ID rule) injections)
                          (\<lambda>r'.
                             case r' of
                               Inl e \<Rightarrow> Ret ((res2, errs1 @ [Errorf ''error generating ClusterConfig for injection rule''
                                                               [rule_ID rule] (Some e)]), st1)
                             | Inr newCC \<Rightarrow>
                                 Ret ((if Name newCC = EmptyClusterNamePlaceholder then res2
                                       else res2\<lparr>Instruction := (Instruction res2)\<lparr>ClusterConfigsToCreate :=
                                              ClusterConfigsToCreate (Instruction res2) @ [newCC]\<rparr>\<rparr>, errs1), st1))))"

fun apply_rules ::
  "range_order \<Rightarrow> 's goipam \<Rightarrow> lib \<Rightarrow> cluster \<Rightarrow> IPAMConfig option \<Rightarrow> AppliedRulesAnnotation \<Rightarrow> CIDRInjection list \<Rightarrow>
     InjectionManagementResult \<Rightarrow> goerr list \<Rightarrow> ('s, 'w) shared \<Rightarrow>
     ((InjectionManagementResult \<times> goerr list) \<times> ('s, 'w) shared) go" where
  "apply_rules rng G L cl cfg applied [] res errs st = Ret ((res, errs), st)"
| "apply_rules rng G L cl cfg applied (rule # rules) res errs st =
     go_bind (apply_rule rng G L cl cfg applied rule res errs st) (\<lambda>((res', errs'), st').
       apply_rules rng G L cl cfg applied rules res' errs' st')"

definition ManageInjections ::
  "range_order \<Rightarrow> 's goipam \<Rightarrow> lib \<Rightarrow> 'w platform_client \<Rightarrow> cluster \<Rightarrow> IPAMConfig option \<Rightarrow> CIDRInjection list \<Rightarrow>
     clusterConfig gomap \<Rightarrow> ('s, 'w) shared \<Rightarrow>
     ((InjectionManagementResult option \<times> string \<times> goerr option) \<times> ('s, 'w) shared) go" where
  "ManageInjections rng G L C cl cfg applicableRules ccs st =
     (case (case map_of (Annotations cl) AppliedRulesAnnotationKey of
              None \<Rightarrow> Inr [] | Some s \<Rightarrow> FromAnnotation s) of
        Inl e \<Rightarrow> Ret ((None, EventActionParsingAppliedRules,
                   Some (Errorf ''unable to recover applied rules'' [] (Some e))), st)
      | Inr before \<Rightarrow>
          go_bind (record_ccs (go_range rng ''ManageInjections/ccs'' ccs) before []) (\<lambda>(applied, errs).
            case errors_join (map Some errs) of
              Some e \<Rightarrow> Ret ((None, EventActionEvaluatingExistingClusterConfigs,
                         Some (Errorf ''errors occurred while evaluating existing ClusterConfigs'' [] (Some e))), st)
            | None \<Rightarrow>
                go_bind (CheckClusterConfigsForCluster rng L C cl (Some applied) (Some ccs) st) (\<lambda>(r, st1).
                  case r of
                    Inl e \<Rightarrow> Ret ((None, EventActionEvaluatingMissingInjections,
                               Some (Errorf ''errors occurred while evaluating missing injections'' [] (Some e))), st1)
                  | Inr instruction \<Rightarrow>
                      go_bind (apply_rules rng G L cl cfg applied applicableRules
                                 \<lparr>Instruction = instruction, AnnotationToApply = applied,
                                  RulesWithIssues = [], SkippedBecauseAlreadyAppliedRules = []\<rparr> errs st1)
                        (\<lambda>((res, errs'), st2).
                           Ret ((Some res, EventActionCIDRGeneration, errors_join (map Some errs')), st2)))))"


section \<open>Reconciling\<close>

text \<open>Applying the new annotation to the Cluster, if it changed.\<close>

definition apply_annotation ::
  "'w platform_client \<Rightarrow> bool \<Rightarrow> cluster \<Rightarrow> AppliedRulesAnnotation \<Rightarrow> goerr option \<Rightarrow> ('s, 'w) shared \<Rightarrow>
     (cluster \<times> goerr option) \<times> ('s, 'w) shared" where
  "apply_annotation C er cl ann errs st =
     (if ann = [] then ((cl, errs), st)
      else
        let failed = (\<lambda>errs msg e st. (errors_join [errs, Some (Errorf msg [] (Some e))],
              Eventf er EventWarning EventReasonCIDRManagementError EventActionApplyingChanges st));
            (annotationValue, errs1, st1) =
              (case ToAnnotation ann of
                 Inr v \<Rightarrow> (v, errs, st)
               | Inl e \<Rightarrow> ([], failed errs ''unable to serialize the applied rules annotation'' e st));
            oldAnnotation = (case map_of (Annotations cl) AppliedRulesAnnotationKey of None \<Rightarrow> [] | Some v \<Rightarrow> v)
        in if annotationValue = oldAnnotation then ((cl, errs1), st1)
           else
             let cl' = cl\<lparr>Annotations := AList.update AppliedRulesAnnotationKey annotationValue (Annotations cl)\<rparr>
             in (case on_platform (\<lambda>w. c_PatchCluster C w cl cl') st1 of
                   (Inl e, st2) \<Rightarrow>
                     (case failed errs1 ''unable to update Cluster with the applied rules annotation'' e st2 of
                        (errs2, st3) \<Rightarrow> ((cl', errs2), st3))
                 | (Inr cl'', st2) \<Rightarrow> ((cl'', errs1), st2)))"

text \<open>Reporting the rules that were skipped because of issues.\<close>

fun report_issues ::
  "bool \<Rightarrow> (string \<times> goerr) list \<Rightarrow> goerr option \<Rightarrow> ('s, 'w) shared \<Rightarrow> goerr option \<times> ('s, 'w) shared" where
  "report_issues er [] errs st = (errs, st)"
| "report_issues er ((ruleID, issue) # rest) errs st =
     report_issues er rest
       (errors_join [errs, Some (Errorf ''problem with injection rule'' [ruleID] (Some issue))])
       (Eventf er EventWarning EventReasonCIDRManagementError EventActionEvaluatingRulesToApply st)"

fun report_skipped :: "bool \<Rightarrow> string list \<Rightarrow> ('s, 'w) shared \<Rightarrow> ('s, 'w) shared" where
  "report_skipped er [] st = st"
| "report_skipped er (ruleID # rest) st =
     report_skipped er rest
       (Eventf er EventNormal EventReasonCIDRManagementError EventActionEvaluatingRulesToApply st)"

text \<open>
  After the result has been applied, the skipped rules are reported.  The fields of a nil result
  are read there as well, which panics.
\<close>

definition handleCreateOrUpdate ::
  "range_order \<Rightarrow> 's goipam \<Rightarrow> lib \<Rightarrow> 'w platform_client \<Rightarrow> bool \<Rightarrow> cluster \<Rightarrow>
     CIDRInjection list \<Rightarrow> ('s, 'w) shared \<Rightarrow> (ReconcileResult \<times> ('s, 'w) shared) go" where
  "handleCreateOrUpdate rng G L C er cl applicableRules st =
     (let cfg = GetConfig st in
     go_bind (FetchClusterConfigsForCluster C cl st) (\<lambda>(r, st1).
       case r of
         Inl e \<Rightarrow> Ret (rr_empty\<lparr>rr_Cluster := Some cl,
                    rr_EventAction := EventActionEvaluatingExistingClusterConfigs,
                    rr_Error := Some (Errorf ''error fetching ClusterConfigs for Cluster'' [] (Some e))\<rparr>, st1)
       | Inr ccs \<Rightarrow>
           (go_bind (ManageInjections rng G L C cl cfg applicableRules ccs st1) (\<lambda>((ir, eventAction, err), st2).
              let st3 = (if err = None then st2
                         else Eventf er EventWarning EventReasonCIDRManagementError eventAction st2)
              in case ir of
                   None \<Rightarrow> Panic NilDereference
                 | Some res \<Rightarrow>
                     (case apply_annotation C er cl (AnnotationToApply res) err st3 of
                        ((cl', errs), st4) \<Rightarrow>
                          (case RI_Apply C (Some (Instruction res)) st4 of
                             (e, st5) \<Rightarrow>
                               (case report_issues er
                                       (go_range rng ''handleCreateOrUpdate/issues'' (RulesWithIssues res))
                                       (if e = None then errs else errors_join [errs, e]) st5 of
                                  (errs', st6) \<Rightarrow>
                                    Ret (rr_empty\<lparr>rr_Cluster := Some cl', rr_Error := errs'\<rparr>,
                                      report_skipped er
                                        (rng ''handleCreateOrUpdate/skipped'' (SkippedBecauseAlreadyAppliedRules res))
                                        st6))))))))"

definition cluster_stub :: "string \<Rightarrow> string \<Rightarrow> cluster" where
  "cluster_stub ns name =
     \<lparr>Name = name, Namespace = ns, UID = [], Labels = [], Annotations = [], Finalizers = [],
      OwnerReferences = [], DeletionTimestamp = None, Purposes = [], ClusterConfigs = []\<rparr>"

fun delete_ccs ::
  "'s goipam \<Rightarrow> 'w platform_client \<Rightarrow> lib \<Rightarrow> clusterConfig list \<Rightarrow> goerr option \<Rightarrow> ('s, 'w) shared \<Rightarrow>
     (goerr option \<times> ('s, 'w) shared) go" where
  "delete_ccs G C L [] errs st = Ret (errs, st)"
| "delete_ccs G C L (cc # ccs) errs st =
     go_bind (ReleaseCIDRsForClusterConfig G C L cc st) (\<lambda>((e, cc'), st1).
       let errs1 = (case e of None \<Rightarrow> errs | Some err \<Rightarrow>
             errors_join [errs, Some (Errorf ''error trying to release CIDRs from ClusterConfig''
                                        [Namespace cc, Name cc] (Some err))])
       in case on_platform (\<lambda>w. c_DeleteClusterConfig C w cc') st1 of
            (d, st2) \<Rightarrow>
              delete_ccs G C L ccs
                (case d of
                   None \<Rightarrow> errs1
                 | Some err \<Rightarrow> if is_api_not_found err then errs1
                               else errors_join [errs1, Some (Errorf ''error trying to delete ClusterConfig''
                                      [Namespace cc, Name cc] (Some err))]) st2)"

definition handleDelete ::
  "range_order \<Rightarrow> 's goipam \<Rightarrow> lib \<Rightarrow> 'w platform_client \<Rightarrow> string \<Rightarrow> string \<Rightarrow> ('s, 'w) shared \<Rightarrow>
     (goerr option \<times> ('s, 'w) shared) go" where
  "handleDelete rng G L C ns name st =
     go_bind (FetchClusterConfigsForCluster C (cluster_stub ns name) st) (\<lambda>(r, st1).
       case r of
         Inl e \<Rightarrow> Ret (Some (Errorf ''error fetching ClusterConfigs for deleted Cluster'' [] (Some e)), st1)
       | Inr ccs \<Rightarrow> delete_ccs G C L (go_values rng ''handleDelete'' ccs) None st1)"

text \<open>The part after the operation annotation has been handled.\<close>

definition reconcile_rules ::
  "range_order \<Rightarrow> 's goipam \<Rightarrow> lib \<Rightarrow> 'w platform_client \<Rightarrow> bool \<Rightarrow> cluster \<Rightarrow> ('s, 'w) shared \<Rightarrow>
     (ReconcileResult \<times> ('s, 'w) shared) go" where
  "reconcile_rules rng G L C er cl st =
     (case GetConfig st of
        None \<Rightarrow> Ret (rr_empty, st)
      | Some cfg \<Rightarrow>
          let applicableRules = filter (\<lambda>rule. Matches L (rule_Selector rule) cl) (InjectionRules (Spec cfg))
          in if applicableRules = [] then Ret (rr_empty, st)
             else handleCreateOrUpdate rng G L C er cl applicableRules st)"

definition reconcile ::
  "range_order \<Rightarrow> 's goipam \<Rightarrow> lib \<Rightarrow> 'w platform_client \<Rightarrow> bool \<Rightarrow> string \<Rightarrow> string \<Rightarrow> ('s, 'w) shared \<Rightarrow>
     (ReconcileResult \<times> ('s, 'w) shared) go" where
  "reconcile rng G L C er ns name st =
     (case on_platform (\<lambda>w. c_GetCluster C w ns name) st of
        (Inl e, st1) \<Rightarrow>
          if is_api_not_found e then
            go_bind (handleDelete rng G L C ns name st1) (\<lambda>(err, st2).
              Ret (rr_empty\<lparr>rr_EventAction := EventActionReleasingCIDRs, rr_Error := err\<rparr>, st2))
          else Ret (rr_empty\<lparr>rr_EventAction := EventActionFetchingCluster,
                 rr_Error := Some (Errorf ''error fetching Cluster'' [ns, name] (Some e))\<rparr>, st1)
      | (Inr cl, st1) \<Rightarrow>
          (case map_of (Annotations cl) OperationAnnotation of
             None \<Rightarrow> reconcile_rules rng G L C er cl st1
           | Some op \<Rightarrow>
               if op = OperationAnnotationValueIgnore then Ret (rr_empty, st1)
               else if op = OperationAnnotationValueReconcile then
                 (case on_platform (\<lambda>w. c_RemoveClusterAnnotation C w cl OperationAnnotation) st1 of
                    (Inl e, st2) \<Rightarrow>
                      Ret (rr_empty\<lparr>rr_EventAction := EventActionHandlingOperationAnnotation,
                             rr_Error := Some (Errorf ''error removing operation annotation'' [] (Some e))\<rparr>, st2)
                  | (Inr cl', st2) \<Rightarrow> reconcile_rules rng G L C er cl' st2)
               else reconcile_rules rng G L C er cl st1))"

definition Reconcile ::
  "range_order \<Rightarrow> 's goipam \<Rightarrow> lib \<Rightarrow> 'w platform_client \<Rightarrow> bool \<Rightarrow> string \<Rightarrow> string \<Rightarrow> ('s, 'w) shared \<Rightarrow>
     ((reconcile_Result \<times> goerr option) \<times> ('s, 'w) shared) go" where
  "Reconcile rng G L C er ns name st =
     go_bind (reconcile rng G L C er ns name st) (\<lambda>(rr, st').
       Ret ((rr_Result rr, rr_Error rr),
         if rr_Cluster rr = None then st'
         else if rr_Error rr \<noteq> None then Eventf er EventWarning ''ReconcileError'' (defaultedEventAction rr) st'
         else Eventf er EventNormal ''ReconcileSuccess'' (defaultedEventAction rr) st'))"

section \<open>Laws: generating CIDRs\<close>

lemma IPAM_calls:
  assumes "ipam_ready st"
  shows "on_IPAM (PrefixFrom G c) st = Ret (g_PrefixFrom G (ipam_state st) c, st)"
    and "on_IPAM (AcquireChildPrefix G c n) st =
      Ret (fst (g_AcquireChildPrefix G (ipam_state st) c n),
        set_ipam_state (snd (g_AcquireChildPrefix G (ipam_state st) c n)) st)"
    and "on_IPAM (ReleaseChildPrefix G p) st =
      Ret (fst (g_ReleaseChildPrefix G (ipam_state st) p),
        set_ipam_state (snd (g_ReleaseChildPrefix G (ipam_state st) p)) st)"
  using assms by (simp_all add: PrefixFrom_def AcquireChildPrefix_def ReleaseChildPrefix_def on_IPAM_forward)

text \<open>The prefixes the shared state knows among some CIDRs.\<close>

definition known_among :: "'s goipam \<Rightarrow> 's \<Rightarrow> string list \<Rightarrow> prefix list" where
  "known_among G s cidrs = List.map_filter (known G s) cidrs"

lemma parent_prefixes_eq:
  "ipam_ready st \<Longrightarrow> parent_prefixes G cidrs acc st = Ret (acc @ known_among G (ipam_state st) cidrs, st)"
  by (induction cidrs arbitrary: acc)
     (auto simp: IPAM_calls known_among_def map_filter_def known_def split: sum.split)

lemma map_of_put_paths:
  "map_of (put_paths i c raw) p = (if p \<in> pws_Path ` set (GetPaths i) then Some c else map_of raw p)"
proof -
  have "map_of (foldl (\<lambda>m pws. AList.update (pws_Path pws) c m) raw ps) p =
      (if p \<in> pws_Path ` set ps then Some c else map_of raw p)" for ps :: "PathWithSource list"
    by (induction ps arbitrary: raw) auto
  then show ?thesis by (simp add: put_paths_def)
qed

lemma wf_put_paths [simp]: "wf_map raw \<Longrightarrow> wf_map (put_paths i c raw)"
proof -
  have "wf_map raw \<Longrightarrow> wf_map (foldl (\<lambda>m pws. AList.update (pws_Path pws) c m) raw ps)"
    for ps :: "PathWithSource list"
    by (induction ps arbitrary: raw) auto
  then show "wf_map raw \<Longrightarrow> ?thesis" by (simp add: put_paths_def)
qed

text \<open>The paths of the injections of a rule.\<close>

definition all_paths :: "SingleCIDRInjection list \<Rightarrow> string set" where
  "all_paths injs = (\<Union>i \<in> set injs. pws_Path ` set (GetPaths i))"

lemma all_paths_simps [simp]:
  "all_paths [] = {}" "all_paths (i # is) = pws_Path ` set (GetPaths i) \<union> all_paths is"
  by (simp_all add: all_paths_def)

text \<open>The CIDRs an injection may be taken from.\<close>

definition candidate_cidrs :: "string list gomap \<Rightarrow> prefix list gomap \<Rightarrow> string set" where
  "candidate_cidrs parentCIDRs tmpParents =
     (\<Union>cs \<in> ran (map_of parentCIDRs). set cs) \<union> (\<Union>ps \<in> ran (map_of tmpParents). Cidr ` set ps)"

context goipam_contract
begin

lemma known_among_cidrs: "Cidr ` set (known_among G s cidrs) \<subseteq> set cidrs"
  using known_Cidr by (fastforce simp: known_among_def map_filter_def simp del: known_Some)

lemma acquire_from_cases:
  assumes "ipam_ready st"
  obtains (exhausted) "acquire_from G len ps st = Ret (None, st)"
  | (acquired) p c s' where "p \<in> set ps" and "g_AcquireChildPrefix G (ipam_state st) (Cidr p) len = (Inr c, s')"
      and "acquire_from G len ps st = Ret (Some c, set_ipam_state s' st)"
proof (induction ps arbitrary: thesis)
  case (Cons p ps)
  obtain r s' where a: "g_AcquireChildPrefix G (ipam_state st) (Cidr p) len = (r, s')" by force
  show ?case
  proof (cases r)
    case (Inl e)
    then have "acquire_from G len (p # ps) st = acquire_from G len ps st"
      using a assms AcquireChildPrefix_err [of "ipam_state st" "Cidr p" len e s'] by (simp add: IPAM_calls)
    then show ?thesis using Cons by (metis list.set_intros(2))
  next
    case (Inr c)
    then show ?thesis using a assms Cons.prems(2) [of p c s'] by (simp add: IPAM_calls)
  qed
qed simp

lemma acquire_child_cases:
  assumes "ipam_ready st"
  obtains (exhausted) "acquire_child G parentCIDRs tmpParents len ids st = Ret (None, st)"
  | (acquired) d c s' where "d \<in> candidate_cidrs parentCIDRs tmpParents"
      and "g_AcquireChildPrefix G (ipam_state st) d len = (Inr c, s')"
      and "acquire_child G parentCIDRs tmpParents len ids st = Ret (Some c, set_ipam_state s' st)"
proof (induction ids arbitrary: thesis)
  case (Cons i ids)
  define cands where "cands = (case map_of tmpParents i of
      Some ps \<Rightarrow> Some ps
    | None \<Rightarrow> map_option (known_among G (ipam_state st)) (map_of parentCIDRs i))"
  have step: "acquire_child G parentCIDRs tmpParents len (i # ids) st =
      (case cands of None \<Rightarrow> acquire_child G parentCIDRs tmpParents len ids st
       | Some ps \<Rightarrow> go_bind (acquire_from G len ps st) (\<lambda>(c, st2).
           case c of None \<Rightarrow> acquire_child G parentCIDRs tmpParents len ids st2
           | Some child \<Rightarrow> Ret (Some child, st2)))"
    using assms by (simp add: cands_def parent_prefixes_eq split: option.split)
  show ?case
  proof (cases cands)
    case None
    then have "acquire_child G parentCIDRs tmpParents len (i # ids) st = acquire_child G parentCIDRs tmpParents len ids st"
      by (simp only: step option.case)
    then show ?thesis using Cons.IH Cons.prems by metis
  next
    case (Some ps)
    have sub: "Cidr ` set ps \<subseteq> candidate_cidrs parentCIDRs tmpParents"
      using Some known_among_cidrs
      by (fastforce simp: cands_def candidate_cidrs_def ran_def split: option.splits)
    show ?thesis
    proof (rule acquire_from_cases [OF assms, of len ps])
      assume "acquire_from G len ps st = Ret (None, st)"
      then have "acquire_child G parentCIDRs tmpParents len (i # ids) st = acquire_child G parentCIDRs tmpParents len ids st"
        by (simp only: step Some option.case go_bind.simps prod.case)
      then show ?thesis using Cons.IH Cons.prems by metis
    next
      fix p c s'
      assume "p \<in> set ps" "g_AcquireChildPrefix G (ipam_state st) (Cidr p) len = (Inr c, s')"
        "acquire_from G len ps st = Ret (Some c, set_ipam_state s' st)"
      moreover from this have "acquire_child G parentCIDRs tmpParents len (i # ids) st = Ret (Some c, set_ipam_state s' st)"
        by (simp only: step Some option.case go_bind.simps prod.case)
      ultimately show ?thesis using sub by (intro Cons.prems(2) [of "Cidr p" c s']) auto
    qed
  qed
qed simp

text \<open>
  What holds between the injections of a rule: everything blocked at the start is blocked still,
  and what was acquired for the rule was free and is blocked now.
\<close>

definition acquired_since :: "'s \<Rightarrow> 's \<Rightarrow> prefix set \<Rightarrow> bool" where
  "acquired_since s0 s ps \<longleftrightarrow> known G s0 \<subseteq>\<^sub>m known G s \<and>
     (\<forall>p \<in> ps. known G s (Cidr p) = Some p \<and> known G s0 (Cidr p) = None)"

lemma acquired_since_refl: "acquired_since s s {}"
  by (simp add: acquired_since_def)

lemma acquired_since_acquire:
  assumes "acquired_since s0 s ps" and "g_AcquireChildPrefix G s d n = (Inr c, s')"
  shows "acquired_since s0 s' (insert c ps)"
proof -
  note a = AcquireChildPrefix_ok [OF assms(2)]
  have "known G s0 (Cidr c) = None"
    using assms(1) a by (metis acquired_since_def domIff map_le_def)
  moreover have "Cidr p \<noteq> Cidr c" if "p \<in> ps" for p
    using assms(1) a that unfolding acquired_since_def by (metis option.distinct(1))
  ultimately show ?thesis
    using assms(1) a by (auto simp: acquired_since_def map_le_def dom_def simp del: known_Some)
qed

lemma acquired_since_mono: "acquired_since s0 s ps \<Longrightarrow> qs \<subseteq> ps \<Longrightarrow> acquired_since s0 s qs"
  by (auto simp: acquired_since_def simp del: known_Some)

lemma release_keeps:
  assumes "known G s0 \<subseteq>\<^sub>m known G s" and "known G s0 (Cidr p) = None"
  shows "known G s0 \<subseteq>\<^sub>m known G (snd (g_ReleaseChildPrefix G s p))"
proof -
  obtain e s' where r: "g_ReleaseChildPrefix G s p = (e, s')" by force
  then show ?thesis
    using assms ReleaseChildPrefix_ok [of s p s'] ReleaseChildPrefix_err [of s p _ s']
    by (cases e) (auto simp: map_le_def dom_def simp del: known_Some split: if_splits)
qed

lemma release_all_keeps:
  "ipam_ready st \<Longrightarrow> known G s0 \<subseteq>\<^sub>m known G (ipam_state st) \<Longrightarrow> \<forall>p \<in> set ps. known G s0 (Cidr p) = None \<Longrightarrow>
   \<exists>s'. release_all G ps st = Ret ((), set_ipam_state s' st) \<and> known G s0 \<subseteq>\<^sub>m known G s'"
proof (induction ps arbitrary: st)
  case Nil
  then show ?case by (auto intro!: exI [of _ "ipam_state st"])
next
  case (Cons p ps)
  let ?s = "snd (g_ReleaseChildPrefix G (ipam_state st) p)"
  have "\<exists>s'. release_all G ps (set_ipam_state ?s st) = Ret ((), set_ipam_state s' (set_ipam_state ?s st)) \<and>
      known G s0 \<subseteq>\<^sub>m known G s'"
    using Cons.prems by (intro Cons.IH) (simp_all add: release_keeps)
  then show ?case using Cons.prems(1) by (simp add: IPAM_calls)
qed

lemma generate_loop_ok:
  assumes rng: "map_iteration rng"
  shows "ipam_ready st \<Longrightarrow> wf_map raw \<Longrightarrow>
   acquired_since s0 (ipam_state st) (ran (map_of raw)) \<Longrightarrow>
   \<exists>r s'. generate_loop rng G rid parentCIDRs injs idx raw tmp st = Ret (r, set_ipam_state s' st) \<and>
     (case r of
        Inl _ \<Rightarrow> known G s0 \<subseteq>\<^sub>m known G s'
      | Inr raw' \<Rightarrow> wf_map raw' \<and> acquired_since s0 s' (ran (map_of raw')) \<and>
          dom (map_of raw') = dom (map_of raw) \<union> all_paths injs)"
proof (induction injs arbitrary: idx raw tmp st)
  case Nil
  then show ?case by (auto intro!: exI [of _ "ipam_state st"])
next
  case (Cons i injs)
  let ?len = "word_of_int (inj_SubnetSize i) :: 8 word"
  show ?case
  proof (rule acquire_child_cases [OF Cons.prems(1), of parentCIDRs tmp ?len "selected_parents rng parentCIDRs i"])
    assume none: "acquire_child G parentCIDRs tmp ?len (selected_parents rng parentCIDRs i) st = Ret (None, st)"
    have "set (go_values rng ''generateCIDRsForInjectionRule/release'' raw) = ran (map_of raw)"
      using Cons.prems(2) by (simp add: map_iteration.set_go_values [OF rng] ran_distinct wf_map_def)
    then have "\<exists>s'. release_all G (go_values rng ''generateCIDRsForInjectionRule/release'' raw) st =
        Ret ((), set_ipam_state s' st) \<and> known G s0 \<subseteq>\<^sub>m known G s'"
      using Cons.prems by (intro release_all_keeps) (auto simp: acquired_since_def simp del: known_Some)
    then show ?thesis using none by auto
  next
    fix d c s1
    assume acq: "g_AcquireChildPrefix G (ipam_state st) d ?len = (Inr c, s1)"
      and some: "acquire_child G parentCIDRs tmp ?len (selected_parents rng parentCIDRs i) st =
        Ret (Some c, set_ipam_state s1 st)"
    let ?raw = "put_paths i c raw"
    have "ran (map_of ?raw) \<subseteq> insert c (ran (map_of raw))"
      by (auto simp: ran_def map_of_put_paths split: if_splits)
    then have since: "acquired_since s0 (ipam_state (set_ipam_state s1 st)) (ran (map_of ?raw))"
      using acquired_since_acquire [OF Cons.prems(3) acq] by (auto intro: acquired_since_mono)
    have dom: "dom (map_of ?raw) = dom (map_of raw) \<union> pws_Path ` set (GetPaths i)"
      by (auto simp: dom_def map_of_put_paths split: if_splits)
    let ?tmp = "if inj_ID i \<noteq> [] then AList.update (inj_ID i) [c] tmp else tmp"
    have "ipam_ready (set_ipam_state s1 st)" "wf_map ?raw" using Cons.prems(1,2) by simp_all
    from Cons.IH [OF this since, of "Suc idx" ?tmp] obtain r s' where
      eq: "generate_loop rng G rid parentCIDRs injs (Suc idx) ?raw ?tmp (set_ipam_state s1 st) = Ret (r, set_ipam_state s' st)"
      and r: "case r of Inl _ \<Rightarrow> known G s0 \<subseteq>\<^sub>m known G s'
        | Inr raw' \<Rightarrow> wf_map raw' \<and> acquired_since s0 s' (ran (map_of raw')) \<and>
          dom (map_of raw') = dom (map_of ?raw) \<union> all_paths injs" by auto
    have "generate_loop rng G rid parentCIDRs (i # injs) idx raw tmp st = Ret (r, set_ipam_state s' st)"
      using some eq by simp
    moreover have "case r of Inl _ \<Rightarrow> known G s0 \<subseteq>\<^sub>m known G s'
        | Inr raw' \<Rightarrow> wf_map raw' \<and> acquired_since s0 s' (ran (map_of raw')) \<and>
          dom (map_of raw') = dom (map_of raw) \<union> all_paths (i # injs)"
      using r dom by (cases r) (auto simp: Un_assoc)
    ultimately show ?thesis by blast
  qed
qed

end


lemma map_of_Cidr: "map_of (map (map_prod id Cidr) raw) p = map_option Cidr (map_of raw p)"
  by (simp add: map_of_map_values)

context goipam_contract
begin

lemma generateCIDRs_ok:
  assumes "map_iteration rng" and "ipam_ready st"
  shows "\<exists>r s'. generateCIDRsForInjectionRule rng G rule parentCIDRs st = Ret (r, set_ipam_state s' st) \<and>
    known G (ipam_state st) \<subseteq>\<^sub>m known G s' \<and>
    (\<forall>injs. r = Inr injs \<longrightarrow> wf_map injs \<and> dom (map_of injs) = all_paths (rule_Injections rule) \<and>
       (\<forall>c \<in> ran (map_of injs). c \<in> blocked G s' \<and> c \<notin> blocked G (ipam_state st)))"
proof -
  let ?loop = "generate_loop rng G (rule_ID rule) parentCIDRs (rule_Injections rule) 0 [] [] st"
  obtain r s' where eq: "?loop = Ret (r, set_ipam_state s' st)"
    and r: "case r of Inl _ \<Rightarrow> known G (ipam_state st) \<subseteq>\<^sub>m known G s'
      | Inr raw \<Rightarrow> wf_map raw \<and> acquired_since (ipam_state st) s' (ran (map_of raw)) \<and>
          dom (map_of raw) = dom (map_of ([] :: prefix gomap)) \<union> all_paths (rule_Injections rule)"
    using generate_loop_ok [OF assms(1,2) wf_map_Nil] acquired_since_refl by fastforce
  show ?thesis
  proof (cases r)
    case (Inl e)
    then show ?thesis using eq r by (auto simp: generateCIDRsForInjectionRule_def)
  next
    case (Inr raw)
    let ?injs = "map (map_prod id Cidr) raw"
    have "wf_map ?injs" using r Inr by (simp add: wf_map_def comp_def)
    moreover have "dom (map_of ?injs) = all_paths (rule_Injections rule)"
      using r Inr by (auto simp: dom_def map_of_Cidr)
    moreover have "c \<in> blocked G s' \<and> c \<notin> blocked G (ipam_state st)" if c: "c \<in> ran (map_of ?injs)" for c
    proof -
      obtain p where "p \<in> ran (map_of raw)" "c = Cidr p"
        using c by (auto simp: ran_def map_of_Cidr)
      then show ?thesis using r Inr by (auto simp: acquired_since_def blocked_def simp del: known_Some)
    qed
    moreover have "known G (ipam_state st) \<subseteq>\<^sub>m known G s'" using r Inr by (simp add: acquired_since_def)
    ultimately show ?thesis using eq Inr by (simp add: generateCIDRsForInjectionRule_def) blast
  qed
qed

end

text \<open>C7: generating the CIDRs of a rule on a free IPAM instance always returns and changes
  nothing but the IPAM state, in which everything that was blocked stays blocked by the same
  prefix. If it succeeds, every path of every injection of the rule has a CIDR, and no other
  path has one; each of these CIDRs was free before and is blocked now. A failing call returns an
  error and no injections.\<close>

theorem generateCIDRs_blocks:
  assumes "goipam_contract G" and "map_iteration rng" and "ipam_ready st"
  shows "\<exists>r s'. generateCIDRsForInjectionRule rng G rule parentCIDRs st = Ret (r, set_ipam_state s' st) \<and>
    known G (ipam_state st) \<subseteq>\<^sub>m known G s' \<and>
    (\<forall>injs. r = Inr injs \<longrightarrow> wf_map injs \<and> dom (map_of injs) = all_paths (rule_Injections rule) \<and>
       (\<forall>c \<in> ran (map_of injs). c \<in> blocked G s' \<and> c \<notin> blocked G (ipam_state st)))"
  by (rule goipam_contract.generateCIDRs_ok [OF assms])

definition tmp_prefixes :: "prefix list gomap \<Rightarrow> prefix set" where
  "tmp_prefixes tmp = (\<Union>ps \<in> ran (map_of tmp). set ps)"

lemma tmp_prefixes_update: "tmp_prefixes (AList.update k [c] tmp) \<subseteq> insert c (tmp_prefixes tmp)"
  by (auto simp: tmp_prefixes_def ran_def split: if_splits)

definition config_cidrs :: "string list gomap \<Rightarrow> string set" where
  "config_cidrs parentCIDRs = (\<Union>cs \<in> ran (map_of parentCIDRs). set cs)"

lemma candidate_cidrs_eq: "candidate_cidrs parentCIDRs tmp = config_cidrs parentCIDRs \<union> Cidr ` tmp_prefixes tmp"
  by (auto simp: candidate_cidrs_def config_cidrs_def tmp_prefixes_def)

context goipam_contract
begin

text \<open>Invariants of the acquisitions for a rule hold for what a successful call has acquired.\<close>

lemma generate_loop_inv:
  assumes step: "\<And>s ps d n c s'. Inv s ps \<Longrightarrow> d \<in> config_cidrs parentCIDRs \<union> Cidr ` ps \<Longrightarrow>
      g_AcquireChildPrefix G s d n = (Inr c, s') \<Longrightarrow> Inv s' (insert c ps)"
    and mono: "\<And>s ps qs. Inv s ps \<Longrightarrow> qs \<subseteq> ps \<Longrightarrow> Inv s qs"
  shows "ipam_ready st \<Longrightarrow> Inv (ipam_state st) (ran (map_of raw) \<union> tmp_prefixes tmp) \<Longrightarrow>
    generate_loop rng G rid parentCIDRs injs idx raw tmp st = Ret (Inr raw', st') \<Longrightarrow>
    Inv (ipam_state st') (ran (map_of raw'))"
proof (induction injs arbitrary: idx raw tmp st)
  case Nil
  then show ?case by (auto intro: mono)
next
  case (Cons i injs)
  let ?len = "word_of_int (inj_SubnetSize i) :: 8 word"
  show ?case
  proof (rule acquire_child_cases [OF Cons.prems(1), of parentCIDRs tmp ?len "selected_parents rng parentCIDRs i"])
    assume "acquire_child G parentCIDRs tmp ?len (selected_parents rng parentCIDRs i) st = Ret (None, st)"
    then show ?thesis using Cons.prems(3) by auto
  next
    fix d c s1
    assume d: "d \<in> candidate_cidrs parentCIDRs tmp"
      and acq: "g_AcquireChildPrefix G (ipam_state st) d ?len = (Inr c, s1)"
      and some: "acquire_child G parentCIDRs tmp ?len (selected_parents rng parentCIDRs i) st =
        Ret (Some c, set_ipam_state s1 st)"
    let ?raw = "put_paths i c raw"
    let ?tmp = "if inj_ID i \<noteq> [] then AList.update (inj_ID i) [c] tmp else tmp"
    have inv: "Inv s1 (insert c (ran (map_of raw) \<union> tmp_prefixes tmp))"
      using d by (intro step [OF Cons.prems(2) _ acq]) (auto simp: candidate_cidrs_eq)
    have "ran (map_of ?raw) \<subseteq> insert c (ran (map_of raw))"
      by (auto simp: ran_def map_of_put_paths split: if_splits)
    moreover have "tmp_prefixes ?tmp \<subseteq> insert c (tmp_prefixes tmp)"
      using tmp_prefixes_update by auto
    ultimately have "Inv (ipam_state (set_ipam_state s1 st)) (ran (map_of ?raw) \<union> tmp_prefixes ?tmp)"
      unfolding ipam_set by (intro mono [OF inv]) blast
    moreover have "generate_loop rng G rid parentCIDRs injs (Suc idx) ?raw ?tmp (set_ipam_state s1 st) = Ret (Inr raw', st')"
      using Cons.prems(3) some by simp
    ultimately show ?thesis using Cons.prems(1) by (intro Cons.IH [of "set_ipam_state s1 st"]) simp_all
  qed
qed

end

context goipam_alloc
begin

text \<open>
  The prefixes acquired for a rule lie within the configured parents, and each is disjoint from
  all other children of its parent.
\<close>

definition allocated_well :: "string set \<Rightarrow> 's \<Rightarrow> prefix set \<Rightarrow> bool" where
  "allocated_well roots s ps \<longleftrightarrow> (\<forall>p \<in> ps. known G s (Cidr p) = Some p \<and>
     addrs (Cidr p) \<subseteq> (\<Union>d \<in> roots. addrs d) \<and>
     (\<forall>d q. known G s d = Some q \<longrightarrow> d \<noteq> Cidr p \<longrightarrow> ParentCidr q = ParentCidr p \<longrightarrow>
        addrs d \<inter> addrs (Cidr p) = {}))"

lemma allocated_well_step:
  assumes inv: "allocated_well roots s ps" and d: "d \<in> roots \<union> Cidr ` ps"
    and acq: "g_AcquireChildPrefix G s d n = (Inr c, s')"
  shows "allocated_well roots s' (insert c ps)"
proof -
  have kn: "known G s (Cidr c) = None" and pc: "ParentCidr c = d" and s': "known G s' = (known G s)(Cidr c \<mapsto> c)"
    using AcquireChildPrefix_ok [OF acq] by simp_all
  have "addrs d \<subseteq> (\<Union>d \<in> roots. addrs d)"
    using d inv unfolding allocated_well_def by blast
  then have within: "addrs (Cidr c) \<subseteq> (\<Union>d \<in> roots. addrs d)"
    using acquire_within [OF acq] by blast
  have disj: "addrs e \<inter> addrs (Cidr c) = {}" if "known G s e = Some q" "ParentCidr q = d" for e q
    using acquire_disjoint [OF acq] that by blast
  have ne: "Cidr p \<noteq> Cidr c" if "p \<in> ps" for p
    using inv kn that unfolding allocated_well_def by (metis option.distinct(1))
  show ?thesis
    unfolding allocated_well_def
  proof (intro ballI conjI allI impI)
    fix p assume p: "p \<in> insert c ps"
    show "known G s' (Cidr p) = Some p"
      using p inv ne by (auto simp: s' allocated_well_def simp del: known_Some)
    show "addrs (Cidr p) \<subseteq> (\<Union>d \<in> roots. addrs d)"
      using p within inv by (auto simp: allocated_well_def)
    fix e q assume e: "known G s' e = Some q" "e \<noteq> Cidr p" "ParentCidr q = ParentCidr p"
    show "addrs e \<inter> addrs (Cidr p) = {}"
    proof (cases "p = c")
      case True
      then show ?thesis using e disj pc by (auto simp: s' simp del: known_Some split: if_splits)
    next
      case False
      then have pp: "p \<in> ps" using p by simp
      show ?thesis
      proof (cases "e = Cidr c")
        case True
        then have "ParentCidr p = d" using e pc by (simp add: s' del: known_Some)
        then show ?thesis
          using disj [of "Cidr p" p] pp inv True by (auto simp: allocated_well_def simp del: known_Some)
      next
        case False
        then have "known G s e = Some q" using e(1) by (simp add: s' del: known_Some)
        then show ?thesis using inv pp e(2,3) unfolding allocated_well_def by blast
      qed
    qed
  qed
qed

lemma generateCIDRs_allocated:
  assumes "ipam_ready st"
    and "generateCIDRsForInjectionRule rng G rule parentCIDRs st = Ret (Inr injs, st')"
  shows "\<forall>c \<in> ran (map_of injs). addrs c \<subseteq> (\<Union>d \<in> config_cidrs parentCIDRs. addrs d) \<and>
    (\<forall>p d q. known G (ipam_state st') c = Some p \<longrightarrow> known G (ipam_state st') d = Some q \<longrightarrow> d \<noteq> c \<longrightarrow>
       ParentCidr q = ParentCidr p \<longrightarrow> addrs d \<inter> addrs c = {})"
proof -
  obtain raw where loop: "generate_loop rng G (rule_ID rule) parentCIDRs (rule_Injections rule) 0 [] [] st = Ret (Inr raw, st')"
    and injs: "injs = map (map_prod id Cidr) raw"
    using assms(2) by (auto simp: generateCIDRsForInjectionRule_def go_simps)
  have "allocated_well (config_cidrs parentCIDRs) (ipam_state st') (ran (map_of raw))"
  proof (rule generate_loop_inv [OF _ _ assms(1) _ loop])
    show "allocated_well (config_cidrs parentCIDRs) (ipam_state st)
        (ran (map_of ([] :: prefix gomap)) \<union> tmp_prefixes [])"
      by (simp add: allocated_well_def tmp_prefixes_def)
    show "allocated_well (config_cidrs parentCIDRs) s qs"
      if "allocated_well (config_cidrs parentCIDRs) s ps" "qs \<subseteq> ps" for s ps qs
      using that unfolding allocated_well_def by blast
  qed (rule allocated_well_step)
  moreover have "\<exists>z \<in> ran (map_of raw). c = Cidr z" if "c \<in> ran (map_of injs)" for c
    using that unfolding injs by (auto simp: ran_def map_of_Cidr)
  ultimately show ?thesis
    unfolding allocated_well_def by (metis option.inject)
qed

end

text \<open>C5: the CIDRs generated for a rule do not collide. Each lies within the addresses of the
  configured parent CIDRs, also when it is taken from another CIDR of the same rule, and it is
  disjoint from every other CIDR that was taken from the same parent, before or by this rule.\<close>

theorem generateCIDRs_disjoint:
  assumes "goipam_alloc G addrs" and "ipam_ready st"
    and "generateCIDRsForInjectionRule rng G rule parentCIDRs st = Ret (Inr injs, st')"
  shows "\<forall>c \<in> ran (map_of injs). addrs c \<subseteq> (\<Union>d \<in> config_cidrs parentCIDRs. addrs d) \<and>
    (\<forall>p d q. known G (ipam_state st') c = Some p \<longrightarrow> known G (ipam_state st') d = Some q \<longrightarrow> d \<noteq> c \<longrightarrow>
       ParentCidr q = ParentCidr p \<longrightarrow> addrs d \<inter> addrs c = {})"
  by (rule goipam_alloc.generateCIDRs_allocated [OF assms])

definition rule_nested :: CIDRInjection where
  "rule_nested = \<lparr>rule_ID = ''r'', rule_Selector = sim_selector, rule_Injections =
     [\<lparr>inj_ID = ''n'', inj_Path = ''/a'', inj_Paths = [], inj_Parents = [], inj_SubnetSize = 24\<rparr>,
      \<lparr>inj_ID = [], inj_Path = ''/b'', inj_Paths = [''/c''], inj_Parents = [''n''], inj_SubnetSize = 28\<rparr>,
      \<lparr>inj_ID = [], inj_Path = ''/d'', inj_Paths = [], inj_Parents = [''p''], inj_SubnetSize = 24\<rparr>]\<rparr>"

definition parents_sim :: "string list gomap" where
  "parents_sim = [(''p'', [''10.0.0.0/16''])]"

definition st_sim :: "(sim, world) shared" where
  "st_sim = sim_state [(''10.0.0.0/16'', []), (''10.0.0.0/24'', ''10.0.0.0/16'')] w_restore"

lemma st_sim_ready: "ipam_ready st_sim"
  by (simp add: st_sim_def)

lemma generate_nested:
  obtains injs st where "generateCIDRsForInjectionRule insertion_order sim_goipam rule_nested parents_sim st_sim = Ret (Inr injs, st)"
    and "injs = [(''/a'', ''10.0.1.0/24''), (''/b'', ''10.0.1.0/28''), (''/c'', ''10.0.1.0/28''), (''/d'', ''10.0.2.0/24'')]"
proof -
  let ?r = "generateCIDRsForInjectionRule insertion_order sim_goipam rule_nested parents_sim st_sim"
  have "(case ?r of Ret (Inr injs, _) \<Rightarrow>
      injs = [(''/a'', ''10.0.1.0/24''), (''/b'', ''10.0.1.0/28''), (''/c'', ''10.0.1.0/28''), (''/d'', ''10.0.2.0/24'')]
    | _ \<Rightarrow> False)"
    by code_simp
  then show thesis using that by (auto split: go.splits prod.splits sum.splits)
qed

theorem generateCIDRs_blocks_witness:
  "case generateCIDRsForInjectionRule insertion_order sim_goipam rule_nested parents_sim st_sim of
     Ret (Inr injs, st) \<Rightarrow> ''10.0.1.0/28'' \<in> blocked sim_goipam (ipam_state st) - blocked sim_goipam (ipam_state st_sim)
   | _ \<Rightarrow> False"
proof (rule generate_nested)
  fix injs st
  assume r: "generateCIDRsForInjectionRule insertion_order sim_goipam rule_nested parents_sim st_sim = Ret (Inr injs, st)"
    and injs: "injs = [(''/a'', ''10.0.1.0/24''), (''/b'', ''10.0.1.0/28''), (''/c'', ''10.0.1.0/28''), (''/d'', ''10.0.2.0/24'')]"
  have "map_of injs ''/b'' = Some ''10.0.1.0/28''" by (simp add: injs)
  then have "''10.0.1.0/28'' \<in> ran (map_of injs)" by (rule ranI)
  then show ?thesis
    using generateCIDRs_blocks [OF sim.goipam_contract_axioms insertion.map_iteration_axioms st_sim_ready,
        of rule_nested parents_sim] r by auto
qed

theorem generateCIDRs_disjoint_witness:
  "case generateCIDRsForInjectionRule insertion_order sim_goipam rule_nested parents_sim st_sim of
     Ret (Inr injs, st) \<Rightarrow> cidr_addrs ''10.0.1.0/28'' \<subseteq> cidr_addrs ''10.0.0.0/16'' \<and>
       cidr_addrs ''10.0.2.0/24'' \<inter> cidr_addrs ''10.0.0.0/24'' = {}
   | _ \<Rightarrow> False"
proof (rule generate_nested)
  fix injs st
  assume r: "generateCIDRsForInjectionRule insertion_order sim_goipam rule_nested parents_sim st_sim = Ret (Inr injs, st)"
    and injs: "injs = [(''/a'', ''10.0.1.0/24''), (''/b'', ''10.0.1.0/28''), (''/c'', ''10.0.1.0/28''), (''/d'', ''10.0.2.0/24'')]"
  have "map_of injs ''/b'' = Some ''10.0.1.0/28''" "map_of injs ''/d'' = Some ''10.0.2.0/24''" by (simp_all add: injs)
  then have "''10.0.1.0/28'' \<in> ran (map_of injs)" "''10.0.2.0/24'' \<in> ran (map_of injs)"
    by (blast intro: ranI)+
  note d = generateCIDRs_disjoint [OF sim.goipam_alloc_axioms st_sim_ready r, rule_format, OF this(1)]
    generateCIDRs_disjoint [OF sim.goipam_alloc_axioms st_sim_ready r, rule_format, OF this(2)]
  have st: "(case generateCIDRsForInjectionRule insertion_order sim_goipam rule_nested parents_sim st_sim of
      Ret (Inr injs, st) \<Rightarrow> map_option ParentCidr (known sim_goipam (ipam_state st) ''10.0.2.0/24'') = Some ''10.0.0.0/16'' \<and>
        map_option ParentCidr (known sim_goipam (ipam_state st) ''10.0.0.0/24'') = Some ''10.0.0.0/16'' | _ \<Rightarrow> False)"
    by code_simp
  have "config_cidrs parents_sim = {''10.0.0.0/16''}"
    by (simp add: config_cidrs_def parents_sim_def)
  then have within: "cidr_addrs ''10.0.1.0/28'' \<subseteq> cidr_addrs ''10.0.0.0/16''"
    using conjunct1 [OF d(1)] by simp
  obtain p q where k: "known sim_goipam (ipam_state st) ''10.0.2.0/24'' = Some p"
      "known sim_goipam (ipam_state st) ''10.0.0.0/24'' = Some q" "ParentCidr q = ParentCidr p"
    using st r by (auto simp del: known_Some)
  have "cidr_addrs ''10.0.0.0/24'' \<inter> cidr_addrs ''10.0.2.0/24'' = {}"
    by (rule conjunct2 [OF d(2), rule_format, OF k(1,2) _ k(3)]) simp
  then show ?thesis using within r by (simp add: Int_commute)
qed

section \<open>Laws: ManageInjections\<close>

text \<open>Recording the patches of the existing ClusterConfigs never changes a recorded CIDR.\<close>

definition nil_wf :: "nilmap \<Rightarrow> bool" where
  "nil_wf m \<longleftrightarrow> wf_map (nil_to_empty m)"

lemma nil_to_empty_simps [simp]: "nil_to_empty None = []" "nil_to_empty (Some m) = m"
  by (simp_all add: nil_to_empty_def)

lemma injections_of_nil: "injections_of a r = (case map_of a r of None \<Rightarrow> Map.empty | Some m \<Rightarrow> map_of (nil_to_empty m))"
  by (auto simp: injections_of_def nil_to_empty_def split: option.split)

lemma record_patches_keeps:
  "record_patches cc ps injected errs = Ret (m, errs') \<Longrightarrow>
   map_of (nil_to_empty injected) \<subseteq>\<^sub>m map_of (nil_to_empty m) \<and> (nil_wf injected \<longrightarrow> nil_wf m)"
proof (induction cc ps injected errs rule: record_patches.induct)
  case (2 cc patch patches injected errs)
  show ?case
  proof (cases "map_of (nil_to_empty injected) (PatchPath patch)")
    case None
    then obtain raw where raw: "PatchValue patch = Some raw" using "2.prems" by (auto split: option.splits)
    show ?thesis
    proof (cases "json_Unmarshal_string raw")
      case None': None
      then show ?thesis using 2 None raw by simp
    next
      case (Some pval)
      then obtain n where n: "injected = Some n" using "2.prems" None raw by (auto split: option.splits)
      have "map_of (nil_to_empty injected) \<subseteq>\<^sub>m map_of (AList.update (PatchPath patch) pval n)"
        using None n by (auto simp: map_le_def)
      moreover have "record_patches cc patches (Some (AList.update (PatchPath patch) pval n)) errs = Ret (m, errs')"
        using "2.prems" None raw Some n by simp
      note IH = "2.IH"(3) [OF _ raw Some n this]
      moreover have "nil_wf injected \<longrightarrow> nil_wf (Some (AList.update (PatchPath patch) pval n))"
        using n by (simp add: nil_wf_def)
      ultimately show ?thesis
        using None n by (metis map_le_trans nil_to_empty_simps(2))
    qed
  qed (use 2 in simp)
qed simp

lemma wf_outer_nil: "wf_outer a \<longleftrightarrow> wf_map a \<and> (\<forall>m \<in> snd ` set a. nil_wf m)"
  by (force simp: wf_outer_def nil_wf_def nil_to_empty_def split: option.splits)

lemma wf_outer_update: "wf_outer a \<Longrightarrow> nil_wf m \<Longrightarrow> wf_outer (AList.update r m a)"
  using set_update_subset [of r m a] by (fastforce simp: wf_outer_nil)

lemma wf_outer_lookup: "wf_outer a \<Longrightarrow> map_of a r = Some m \<Longrightarrow> nil_wf m"
  by (force simp: wf_outer_nil dest: map_of_SomeD)

lemma record_ccs_keeps:
  "record_ccs ccs a errs = Ret (a', errs') \<Longrightarrow>
   (\<forall>r. injections_of a r \<subseteq>\<^sub>m injections_of a' r) \<and> dom (map_of a') = dom (map_of a) \<union> fst ` set ccs \<and>
   (wf_outer a \<longrightarrow> wf_outer a')"
proof (induction ccs a errs rule: record_ccs.induct)
  case (2 ruleID cc ccs a errs)
  let ?m0 = "case map_of a ruleID of None \<Rightarrow> Some [] | Some m \<Rightarrow> m"
  obtain m errs1 where p: "record_patches cc (Patches cc) ?m0 errs = Ret (m, errs1)"
    and rest: "record_ccs ccs (AList.update ruleID m a) errs1 = Ret (a', errs')"
    using "2.prems" by auto
  note keeps = record_patches_keeps [OF p]
  have "injections_of a r \<subseteq>\<^sub>m injections_of (AList.update ruleID m a) r" for r
    using keeps by (auto simp: injections_of_nil split: option.splits)
  moreover have "wf_outer a \<Longrightarrow> wf_outer (AList.update ruleID m a)"
    using keeps wf_outer_lookup [of a ruleID]
    by (intro wf_outer_update) (auto simp: nil_wf_def split: option.splits)
  ultimately show ?case
    using "2.IH" [OF p _ rest] by (auto intro: map_le_trans)
qed simp

text \<open>How a round of the loop over the rules ends.\<close>

lemma apply_rule_cases:
  assumes "apply_rule rng G L cl cfg applied rule res errs st = Ret ((res', errs'), st')"
  obtains (skipped) "map_of applied (rule_ID rule) \<noteq> None" and "st' = st"
      and "AnnotationToApply res' = AnnotationToApply res" and "Instruction res' = Instruction res"
      and "RulesWithIssues res' = RulesWithIssues res"
  | (issue) injs errs1 where "map_of applied (rule_ID rule) = None" and "map_of (RulesWithIssues res') (rule_ID rule) \<noteq> None"
      and "st' = st" and "AnnotationToApply res' = AnnotationToApply res" and "Instruction res' = Instruction res"
      and "norm_injections L (rule_ID rule) (injected_paths applied) (rule_Injections rule) []
          (RulesWithIssues res) errs = (injs, RulesWithIssues res', errs1)"
  | (failed) injs conf e errs1 where "map_of applied (rule_ID rule) = None" and "cfg = Some conf"
      and "map_of (RulesWithIssues res') (rule_ID rule) = None"
      and "generateCIDRsForInjectionRule rng G (rule\<lparr>rule_Injections := injs\<rparr>) (ParentCIDRs (Spec conf)) st = Ret (Inl e, st')"
      and "AnnotationToApply res' = AnnotationToApply res" and "Instruction res' = Instruction res"
      and "norm_injections L (rule_ID rule) (injected_paths applied) (rule_Injections rule) []
          (RulesWithIssues res) errs = (injs, RulesWithIssues res', errs1)"
  | (generated) injs conf cidrs r errs1 where "map_of applied (rule_ID rule) = None" and "cfg = Some conf"
      and "map_of (RulesWithIssues res') (rule_ID rule) = None"
      and "generateCIDRsForInjectionRule rng G (rule\<lparr>rule_Injections := injs\<rparr>) (ParentCIDRs (Spec conf)) st = Ret (Inr cidrs, st')"
      and "AnnotationToApply res' = AList.update (rule_ID rule) (Some cidrs) (AnnotationToApply res)"
      and "GenerateClusterConfigForInjectionList rng L st' cl (rule_ID rule) cidrs = Ret r"
      and "case r of Inl _ \<Rightarrow> Instruction res' = Instruction res \<and> errs' \<noteq> []
        | Inr newCC \<Rightarrow> ClusterConfigsToCreate (Instruction res') = ClusterConfigsToCreate (Instruction res) @
            (if Name newCC = EmptyClusterNamePlaceholder then [] else [newCC])"
      and "norm_injections L (rule_ID rule) (injected_paths applied) (rule_Injections rule) []
          (RulesWithIssues res) errs = (injs, RulesWithIssues res', errs1)"
proof (cases "map_of applied (rule_ID rule)")
  case (Some m)
  then show thesis using assms by (intro skipped) (auto simp: apply_rule_def)
next
  case None
  obtain injs issues errs1 where n: "norm_injections L (rule_ID rule) (injected_paths applied) (rule_Injections rule) []
      (RulesWithIssues res) errs = (injs, issues, errs1)"
    by (metis prod_cases3)
  show thesis
  proof (cases "map_of issues (rule_ID rule)")
    case (Some e)
    then show thesis using assms None n by (intro issue [of injs errs1]) (auto simp: apply_rule_def Let_def)
  next
    case no_issue: None
    obtain conf where conf: "cfg = Some conf"
      using assms None n no_issue by (cases cfg) (auto simp: apply_rule_def Let_def)
    obtain r st1 where g: "generateCIDRsForInjectionRule rng G (rule\<lparr>rule_Injections := injs\<rparr>) (ParentCIDRs (Spec conf)) st = Ret (r, st1)"
      using assms None n no_issue conf by (auto simp: apply_rule_def Let_def)
    show thesis
    proof (cases r)
      case (Inl e)
      then show thesis using assms None n no_issue conf g
        by (intro failed [of conf injs e errs1]) (auto simp: apply_rule_def Let_def)
    next
      case (Inr cidrs)
      obtain r' where c: "GenerateClusterConfigForInjectionList rng L st1 cl (rule_ID rule) cidrs = Ret r'"
        using assms None n no_issue conf g Inr by (auto simp: apply_rule_def Let_def)
      have "st' = st1" using assms None n no_issue conf g Inr c
        by (cases r') (auto simp: apply_rule_def Let_def split: if_splits)
      with assms None n no_issue conf g Inr c show thesis
        by (intro generated [of conf injs cidrs r' errs1]; cases r') (auto simp: apply_rule_def Let_def split: if_splits)
    qed
  qed
qed

context goipam_contract
begin

text \<open>
  The invariant of the loop over the rules.  What was recorded before stays, and the CIDRs
  recorded for a new rule were free at the start and are blocked now.
\<close>

definition fresh_in :: "'s \<Rightarrow> 's \<Rightarrow> string gomap \<Rightarrow> bool" where
  "fresh_in s0 s injs \<longleftrightarrow> wf_map injs \<and> (\<forall>c \<in> ran (map_of injs). c \<in> blocked G s \<and> c \<notin> blocked G s0)"

definition manage_inv ::
  "'s \<Rightarrow> AppliedRulesAnnotation \<Rightarrow> ('s, 'w) shared \<Rightarrow> AppliedRulesAnnotation \<Rightarrow> ('s, 'w) shared \<Rightarrow> bool" where
  "manage_inv s0 applied st0 ann st \<longleftrightarrow> ipam_ready st \<and> (\<exists>s. st = set_ipam_state s st0) \<and>
     known G s0 \<subseteq>\<^sub>m known G (ipam_state st) \<and>
     (\<forall>r. map_of applied r \<noteq> None \<longrightarrow> map_of ann r = map_of applied r) \<and>
     (\<forall>r m. map_of applied r = None \<longrightarrow> map_of ann r = Some m \<longrightarrow>
        (\<exists>injs. m = Some injs \<and> fresh_in s0 (ipam_state st) injs))"

lemma blocked_mono: "known G s \<subseteq>\<^sub>m known G s' \<Longrightarrow> blocked G s \<subseteq> blocked G s'"
  by (simp add: blocked_def map_le_implies_dom_le)

lemma fresh_in_mono: "fresh_in s0 s injs \<Longrightarrow> known G s \<subseteq>\<^sub>m known G s' \<Longrightarrow> fresh_in s0 s' injs"
  using blocked_mono by (auto simp: fresh_in_def)

lemma manage_inv_grow:
  assumes "manage_inv s0 applied st0 ann st" and "known G (ipam_state st) \<subseteq>\<^sub>m known G s'"
  shows "manage_inv s0 applied st0 ann (set_ipam_state s' st)"
proof -
  have "known G s0 \<subseteq>\<^sub>m known G s'"
    using assms by (auto simp: manage_inv_def intro: map_le_trans)
  then show ?thesis
    using assms by (auto simp: manage_inv_def) (blast intro: fresh_in_mono)
qed

lemma apply_rule_inv:
  assumes rng: "map_iteration rng" and inv: "manage_inv s0 applied st0 (AnnotationToApply res) st"
    and ok: "apply_rule rng G L cl cfg applied rule res errs st = Ret ((res', errs'), st')"
  shows "manage_inv s0 applied st0 (AnnotationToApply res') st'"
  using ok
proof (cases rule: apply_rule_cases)
  case skipped
  then show ?thesis using inv by simp
next
  case issue
  then show ?thesis using inv by simp
next
  case (failed injs conf e errs1)
  have "ipam_ready st" using inv by (simp add: manage_inv_def)
  then obtain s' where "st' = set_ipam_state s' st" "known G (ipam_state st) \<subseteq>\<^sub>m known G s'"
    using generateCIDRs_ok [OF rng, of st "rule\<lparr>rule_Injections := injs\<rparr>" "ParentCIDRs (Spec conf)"] failed(4) by auto
  then show ?thesis using inv failed(5) by (simp add: manage_inv_grow)
next
  case (generated injs conf cidrs r errs1)
  have "ipam_ready st" using inv by (simp add: manage_inv_def)
  then obtain s' where s': "st' = set_ipam_state s' st" "known G (ipam_state st) \<subseteq>\<^sub>m known G s'"
    and new: "wf_map cidrs" "\<forall>c \<in> ran (map_of cidrs). c \<in> blocked G s' \<and> c \<notin> blocked G (ipam_state st)"
    using generateCIDRs_ok [OF rng, of st "rule\<lparr>rule_Injections := injs\<rparr>" "ParentCIDRs (Spec conf)"] generated(4) by auto
  have "blocked G s0 \<subseteq> blocked G (ipam_state st)" using inv by (simp add: manage_inv_def blocked_mono)
  then have "fresh_in s0 s' cidrs" using new by (auto simp: fresh_in_def)
  moreover have "manage_inv s0 applied st0 (AnnotationToApply res) st'"
    using manage_inv_grow [OF inv s'(2)] s'(1) by simp
  ultimately show ?thesis using generated(1,5) s'(1) by (auto simp: manage_inv_def)
qed

lemma apply_rules_inv:
  assumes "map_iteration rng"
  shows "manage_inv s0 applied st0 (AnnotationToApply res) st \<Longrightarrow>
    apply_rules rng G L cl cfg applied rules res errs st = Ret ((res', errs'), st') \<Longrightarrow>
    manage_inv s0 applied st0 (AnnotationToApply res') st'"
proof (induction rules arbitrary: res errs st)
  case (Cons rule rules)
  then obtain res1 errs1 st1 where
    "apply_rule rng G L cl cfg applied rule res errs st = Ret ((res1, errs1), st1)"
    "apply_rules rng G L cl cfg applied rules res1 errs1 st1 = Ret ((res', errs'), st')" by auto
  then show ?case using Cons.IH Cons.prems(1) apply_rule_inv [OF assms] by blast
qed simp

end

text \<open>What a result of ManageInjections is made of.\<close>

lemma ManageInjections_Some:
  assumes "ManageInjections rng G L C cl cfg rules ccs st = Ret ((Some res, act, e), st')"
  obtains a applied ir errs where
    "(case map_of (Annotations cl) AppliedRulesAnnotationKey of None \<Rightarrow> Inr [] | Some s \<Rightarrow> FromAnnotation s) = Inr a"
    and "record_ccs (go_range rng ''ManageInjections/ccs'' ccs) a [] = Ret (applied, [])"
    and "CheckClusterConfigsForCluster rng L C cl (Some applied) (Some ccs) st = Ret (Inr ir, st)"
    and "apply_rules rng G L cl cfg applied rules \<lparr>Instruction = ir, AnnotationToApply = applied,
       RulesWithIssues = [], SkippedBecauseAlreadyAppliedRules = []\<rparr> [] st = Ret ((res, errs), st')"
    and "e = errors_join (map Some errs)" and "act = EventActionCIDRGeneration"
proof -
  obtain a where a: "(case map_of (Annotations cl) AppliedRulesAnnotationKey of None \<Rightarrow> Inr [] | Some s \<Rightarrow> FromAnnotation s) = Inr a"
    using assms by (auto simp: ManageInjections_def split: sum.split_asm)
  obtain applied errs0 where rec: "record_ccs (go_range rng ''ManageInjections/ccs'' ccs) a [] = Ret (applied, errs0)"
    using assms a by (auto simp: ManageInjections_def)
  have none: "errors_join (map Some errs0) = None"
    using assms a rec by (cases "errors_join (map Some errs0)") (auto simp: ManageInjections_def)
  then have e0: "errs0 = []" by (cases errs0) auto
  obtain r st1 where check: "CheckClusterConfigsForCluster rng L C cl (Some applied) (Some ccs) st = Ret (r, st1)"
    using assms a rec none by (auto simp: ManageInjections_def)
  obtain ir where ir: "r = Inr ir"
    using assms a rec none check by (cases r) (auto simp: ManageInjections_def)
  have st1: "st1 = st" using Check_Ret [OF check [unfolded ir]] by blast
  obtain errs where "apply_rules rng G L cl cfg applied rules \<lparr>Instruction = ir, AnnotationToApply = applied,
       RulesWithIssues = [], SkippedBecauseAlreadyAppliedRules = []\<rparr> [] st = Ret ((res, errs), st')"
    "e = errors_join (map Some errs)" "act = EventActionCIDRGeneration"
    using assms a rec none check ir e0 st1 by (auto simp: ManageInjections_def)
  then show thesis using that a rec e0 check ir st1 by blast
qed

text \<open>The injections the annotation of a Cluster records.\<close>

definition annotated :: "cluster \<Rightarrow> AppliedRulesAnnotation" where
  "annotated cl = (case map_of (Annotations cl) AppliedRulesAnnotationKey of
     None \<Rightarrow> [] | Some s \<Rightarrow> (case FromAnnotation s of Inl _ \<Rightarrow> [] | Inr a \<Rightarrow> a))"

lemma wf_outer_Nil: "wf_outer []"
  by (simp add: wf_outer_def)

lemma annotated_eq:
  assumes "(case map_of (Annotations cl) AppliedRulesAnnotationKey of None \<Rightarrow> Inr [] | Some s \<Rightarrow> FromAnnotation s) = Inr a"
  shows "annotated cl = a" and "wf_outer a"
  using assms wf_outer_Nil by (auto simp: annotated_def wf_FromAnnotation split: option.splits)

lemma manage_inv_start:
  assumes "goipam_contract G" and "ipam_ready st"
  shows "goipam_contract.manage_inv G (ipam_state st) applied st applied st"
  using assms set_ipam_same [OF assms(2)]
  by (auto simp: goipam_contract.manage_inv_def [OF assms(1)] intro: exI [of _ "ipam_state st"])


text \<open>C4: the CIDRs recorded for a rule that was not applied before (it is neither in the annotation
  nor has it a ClusterConfig) are newly acquired: each of them was free before the call and is
  blocked afterwards, even if the call also reports errors.\<close>

theorem ManageInjections_fresh:
  assumes "goipam_contract G" and "map_iteration rng" and "wf_map ccs" and "ipam_ready st"
    and "ManageInjections rng G L C cl cfg rules ccs st = Ret ((Some res, act, e), st')"
    and "map_of (annotated cl) r = None" and "map_of ccs r = None"
    and "injections_of (AnnotationToApply res) r p = Some c"
  shows "c \<notin> blocked G (ipam_state st) \<and> c \<in> blocked G (ipam_state st')"
  using assms(5)
proof (rule ManageInjections_Some)
  fix a applied ir errs
  assume a: "(case map_of (Annotations cl) AppliedRulesAnnotationKey of None \<Rightarrow> Inr [] | Some s \<Rightarrow> FromAnnotation s) = Inr a"
    and rec: "record_ccs (go_range rng ''ManageInjections/ccs'' ccs) a [] = Ret (applied, [])"
    and rules: "apply_rules rng G L cl cfg applied rules \<lparr>Instruction = ir, AnnotationToApply = applied,
       RulesWithIssues = [], SkippedBecauseAlreadyAppliedRules = []\<rparr> [] st = Ret ((res, errs), st')"
  have inv: "goipam_contract.manage_inv G (ipam_state st) applied st (AnnotationToApply res) st'"
    by (rule goipam_contract.apply_rules_inv [OF assms(1,2) _ rules])
       (simp add: manage_inv_start [OF assms(1,4)])
  have "r \<notin> dom (map_of a) \<union> fst ` set (go_range rng ''ManageInjections/ccs'' ccs)"
    using assms(6,7) annotated_eq(1) [OF a] map_of_eq_None_iff [of ccs r]
    by (simp add: map_iteration.set_go_range [OF assms(2,3)] domIff)
  then have new: "map_of applied r = None" using record_ccs_keeps [OF rec] by blast
  obtain m where m: "map_of (AnnotationToApply res) r = Some (Some m)" "map_of m p = Some c"
    using assms(8) by (auto simp: injections_of_def split: option.splits)
  have "goipam_contract.fresh_in G (ipam_state st) (ipam_state st') m"
    using inv new m(1) unfolding goipam_contract.manage_inv_def [OF assms(1)] by (metis option.inject)
  then show ?thesis
    using ranI [of "map_of m" p c, OF m(2)] by (simp add: goipam_contract.fresh_in_def [OF assms(1)])
qed

definition rule_at :: "string \<Rightarrow> string \<Rightarrow> CIDRInjection" where
  "rule_at rid path = \<lparr>rule_ID = rid, rule_Selector = sim_selector, rule_Injections =
     [\<lparr>inj_ID = [], inj_Path = path, inj_Paths = [], inj_Parents = [], inj_SubnetSize = 24\<rparr>]\<rparr>"

definition st_free :: "(sim, world) shared" where
  "st_free = sim_state [(''10.0.0.0/16'', [])] \<lparr>w_clusters = [sim_cluster ''c''], w_ccs = [], w_config = Some cfg_restore\<rparr>"



text \<open>A conflict with a used path is always found.\<close>

definition issues_of :: "norm_state \<Rightarrow> goerr gomap" where
  "issues_of x = fst (snd (snd x))"

lemma norm_paths_keeps_issue:
  "map_of (issues_of x) k \<noteq> None \<Longrightarrow> map_of (issues_of (norm_paths L rid used ps x)) k \<noteq> None"
proof (induction L rid used ps x rule: norm_paths.induct)
  case (2 L rid used pws rest ij seen issues errs)
  then show ?case by (cases "ConvertPath L (pws_Path pws)") (auto simp: issues_of_def Let_def)
qed simp

lemma norm_paths_finds_issue:
  "pws \<in> set ps \<Longrightarrow> ConvertPath L (pws_Path pws) = Inr q \<Longrightarrow> q \<in> set used \<Longrightarrow>
   map_of (issues_of (norm_paths L rid used ps x)) rid \<noteq> None"
proof (induction L rid used ps x rule: norm_paths.induct)
  case (2 L rid used pws' rest ij seen issues errs)
  show ?case
  proof (cases "ConvertPath L (pws_Path pws')")
    case (Inl e)
    then have "pws \<in> set rest" using "2.prems" by auto
    then show ?thesis using "2.IH"(1) [OF Inl] "2.prems"(2,3) Inl by simp
  next
    case (Inr q')
    show ?thesis
    proof (cases "q' \<in> set seen \<or> q' \<in> set used")
      case True
      then show ?thesis using Inr by (auto simp: issues_of_def Let_def)
    next
      case False
      then have "pws \<in> set rest" using "2.prems" Inr by auto
      then show ?thesis using "2.IH"(2) [OF Inr refl] False "2.prems"(2,3) Inr by (simp add: Let_def)
    qed
  qed
qed simp

lemma norm_injections_keeps_issue:
  "map_of issues k \<noteq> None \<Longrightarrow> norm_injections L rid used injs seen issues errs = (injs', issues', errs') \<Longrightarrow>
   map_of issues' k \<noteq> None"
proof (induction injs arbitrary: seen issues errs injs')
  case (Cons i injs)
  obtain i1 seen1 issues1 errs1 where n: "norm_paths L rid used (GetPaths i) (i, seen, issues, errs) = (i1, seen1, issues1, errs1)"
    by (metis prod_cases4)
  obtain injs2 where rest: "norm_injections L rid used injs seen1 issues1 errs1 = (injs2, issues', errs')"
    using Cons.prems(2) n by (auto split: prod.splits)
  have "map_of issues1 k \<noteq> None"
    using norm_paths_keeps_issue [of "(i, seen, issues, errs)" k L rid used "GetPaths i"] Cons.prems(1) n by (simp add: issues_of_def)
  then show ?case by (rule Cons.IH [OF _ rest])
qed simp

lemma norm_injections_finds_issue:
  assumes "ConvertPath L (pws_Path pws) = Inr q" and "q \<in> set used"
  shows "i \<in> set injs \<Longrightarrow> pws \<in> set (GetPaths i) \<Longrightarrow>
    norm_injections L rid used injs seen issues errs = (injs', issues', errs') \<Longrightarrow> map_of issues' rid \<noteq> None"
proof (induction injs arbitrary: seen issues errs injs')
  case (Cons j injs)
  obtain i1 seen1 issues1 errs1 where n: "norm_paths L rid used (GetPaths j) (j, seen, issues, errs) = (i1, seen1, issues1, errs1)"
    by (metis prod_cases4)
  obtain injs2 where rest: "norm_injections L rid used injs seen1 issues1 errs1 = (injs2, issues', errs')"
    using Cons.prems(3) n by (auto split: prod.splits)
  show ?case
  proof (cases "i \<in> set injs")
    case True
    then show ?thesis using Cons.IH [OF True Cons.prems(2) rest] by simp
  next
    case False
    then have "map_of issues1 rid \<noteq> None"
      using norm_paths_finds_issue [OF _ assms, of "GetPaths j" rid "(j, seen, issues, errs)"] Cons.prems(1,2) n
      by (auto simp: issues_of_def)
    then show ?thesis using norm_injections_keeps_issue [OF _ rest] by simp
  qed
qed simp


lemma apply_rule_keeps_issue:
  assumes "apply_rule rng G L cl cfg applied rule res errs st = Ret ((res', errs'), st')"
    and "map_of (RulesWithIssues res) k \<noteq> None"
  shows "map_of (RulesWithIssues res') k \<noteq> None"
  using assms(1)
proof (cases rule: apply_rule_cases)
  case skipped
  then show ?thesis using assms(2) by simp
qed (use norm_injections_keeps_issue [OF assms(2)] in blast)+

lemma apply_rules_conflict:
  assumes pws: "i \<in> set (rule_Injections rule)" "pws \<in> set (GetPaths i)" "ConvertPath L (pws_Path pws) = Inr q"
      "q \<in> set (injected_paths applied)"
    and new: "map_of applied (rule_ID rule) = None"
  shows "apply_rules rng G L cl cfg applied rules res errs st = Ret ((res', errs'), st') \<Longrightarrow>
    distinct (map rule_ID rules) \<Longrightarrow> map_of (AnnotationToApply res) (rule_ID rule) = None \<Longrightarrow>
    rule \<in> set rules \<or> rule_ID rule \<notin> rule_ID ` set rules \<and> map_of (RulesWithIssues res) (rule_ID rule) \<noteq> None \<Longrightarrow>
    map_of (RulesWithIssues res') (rule_ID rule) \<noteq> None \<and> map_of (AnnotationToApply res') (rule_ID rule) = None"
proof (induction rules arbitrary: res errs st)
  case (Cons rl rules)
  obtain res1 errs1 st1 where step: "apply_rule rng G L cl cfg applied rl res errs st = Ret ((res1, errs1), st1)"
    and rest: "apply_rules rng G L cl cfg applied rules res1 errs1 st1 = Ret ((res', errs'), st')"
    using Cons.prems(1) by auto
  have "map_of (AnnotationToApply res1) (rule_ID rule) = None \<and>
    (rule \<in> set rules \<or> rule_ID rule \<notin> rule_ID ` set rules \<and> map_of (RulesWithIssues res1) (rule_ID rule) \<noteq> None)"
  proof (cases "rl = rule")
    case True
    have "map_of (RulesWithIssues res1) (rule_ID rule) \<noteq> None \<and> AnnotationToApply res1 = AnnotationToApply res"
      using step [unfolded True]
      by (cases rule: apply_rule_cases)
         (use new norm_injections_finds_issue [OF pws(3,4,1,2)] in \<open>auto simp del: not_None_eq\<close>)
    then show ?thesis using Cons.prems(2,3) True by auto
  next
    case False
    then have other: "rule_ID rl \<noteq> rule_ID rule" using Cons.prems(2,4) by auto
    have "map_of (AnnotationToApply res1) (rule_ID rule) = None"
      using step by (cases rule: apply_rule_cases) (use Cons.prems(3) other in auto)
    then show ?thesis using Cons.prems(4) False apply_rule_keeps_issue [OF step] by auto
  qed
  then show ?case using Cons.IH [OF rest] Cons.prems(2) by auto
qed auto

lemma injected_paths_mem: "injections_of a r q = Some c \<Longrightarrow> q \<in> set (injected_paths a)"
proof -
  assume "injections_of a r q = Some c"
  then obtain m where m: "map_of a r = Some (Some m)" "map_of m q = Some c"
    by (auto simp: injections_of_def split: option.splits)
  have "q \<in> set (map fst (nil_to_empty (Some m)))"
    using map_of_SomeD [OF m(2)] by force
  then show ?thesis
    using map_of_SomeD [OF m(1)] unfolding injected_paths_def by force
qed

text \<open>C23: a new rule that would inject into a path which an applied rule of the Cluster already
  uses (compared in normalized notation) is not applied: it is reported among the rules with issues,
  and the annotation gets no entry for it.\<close>

theorem ManageInjections_conflict:
  assumes "map_iteration rng" and "wf_map ccs" and "distinct (map rule_ID rules)"
    and "ManageInjections rng G L C cl cfg rules ccs st = Ret ((Some res, act, e), st')"
    and "rule \<in> set rules" and "map_of (annotated cl) (rule_ID rule) = None" and "map_of ccs (rule_ID rule) = None"
    and "i \<in> set (rule_Injections rule)" and "pws \<in> set (GetPaths i)" and "ConvertPath L (pws_Path pws) = Inr q"
    and "injections_of (annotated cl) r q \<noteq> None"
  shows "map_of (RulesWithIssues res) (rule_ID rule) \<noteq> None \<and>
    map_of (AnnotationToApply res) (rule_ID rule) = None"
  using assms(4)
proof (rule ManageInjections_Some)
  fix a applied ir errs
  assume a: "(case map_of (Annotations cl) AppliedRulesAnnotationKey of None \<Rightarrow> Inr [] | Some s \<Rightarrow> FromAnnotation s) = Inr a"
    and rec: "record_ccs (go_range rng ''ManageInjections/ccs'' ccs) a [] = Ret (applied, [])"
    and rules: "apply_rules rng G L cl cfg applied rules \<lparr>Instruction = ir, AnnotationToApply = applied,
       RulesWithIssues = [], SkippedBecauseAlreadyAppliedRules = []\<rparr> [] st = Ret ((res, errs), st')"
  have "rule_ID rule \<notin> dom (map_of a) \<union> fst ` set (go_range rng ''ManageInjections/ccs'' ccs)"
    using assms(6,7) annotated_eq(1) [OF a] map_of_eq_None_iff [of ccs "rule_ID rule"]
    by (simp add: map_iteration.set_go_range [OF assms(1,2)] domIff)
  then have new: "map_of applied (rule_ID rule) = None" using record_ccs_keeps [OF rec] by blast
  obtain c where "injections_of a r q = Some c" using assms(11) annotated_eq(1) [OF a] by auto
  then have "injections_of applied r q = Some c"
    using record_ccs_keeps [OF rec] by (metis domI map_le_def)
  then have "q \<in> set (injected_paths applied)" by (rule injected_paths_mem)
  from apply_rules_conflict [OF assms(8,9,10) this new rules assms(3)] show ?thesis
    using assms(5) new by simp
qed

definition cl_applied :: cluster where
  "cl_applied = (sim_cluster ''c'')\<lparr>Annotations :=
     [(AppliedRulesAnnotationKey, json_Marshal_outer [(''r0'', Some [(''/a'', ''10.0.0.0/24'')])])]\<rparr>"

definition st_applied :: "(sim, world) shared" where
  "st_applied = sim_state [(''10.0.0.0/16'', []), (''10.0.0.0/24'', ''10.0.0.0/16'')]
     \<lparr>w_clusters = [cl_applied], w_ccs = [], w_config = Some cfg_restore\<rparr>"

lemma Manage_applied:
  obtains res act e st where "ManageInjections insertion_order sim_goipam sim_lib sim_client cl_applied (Some cfg_restore)
      [rule_at ''r1'' ''/a'', rule_at ''r2'' ''.b''] [] st_applied = Ret ((Some res, act, e), st)"
    and "injections_of (AnnotationToApply res) ''r2'' ''/b'' = Some ''10.0.1.0/24''"
proof -
  let ?r = "ManageInjections insertion_order sim_goipam sim_lib sim_client cl_applied (Some cfg_restore)
      [rule_at ''r1'' ''/a'', rule_at ''r2'' ''.b''] [] st_applied"
  have "(case ?r of Ret ((Some res, _, _), _) \<Rightarrow> injections_of (AnnotationToApply res) ''r2'' ''/b'' = Some ''10.0.1.0/24''
      | _ \<Rightarrow> False)" by code_simp
  then show thesis using that by (auto split: go.splits prod.splits option.splits)
qed

lemma annotated_cl_applied: "annotated cl_applied = [(''r0'', Some [(''/a'', ''10.0.0.0/24'')])]"
  by code_simp

lemma st_applied_ready: "ipam_ready st_applied"
  by (simp add: st_applied_def)


theorem ManageInjections_fresh_witness:
  "case ManageInjections insertion_order sim_goipam sim_lib sim_client cl_applied (Some cfg_restore)
      [rule_at ''r1'' ''/a'', rule_at ''r2'' ''.b''] [] st_applied of
     Ret ((Some res, _, _), st) \<Rightarrow>
       ''10.0.1.0/24'' \<in> blocked sim_goipam (ipam_state st) - blocked sim_goipam (ipam_state st_applied)
   | _ \<Rightarrow> False"
proof (rule Manage_applied)
  fix res act e st
  assume r: "ManageInjections insertion_order sim_goipam sim_lib sim_client cl_applied (Some cfg_restore)
      [rule_at ''r1'' ''/a'', rule_at ''r2'' ''.b''] [] st_applied = Ret ((Some res, act, e), st)"
    and b: "injections_of (AnnotationToApply res) ''r2'' ''/b'' = Some ''10.0.1.0/24''"
  have "map_of (annotated cl_applied) ''r2'' = None" by (simp add: annotated_cl_applied)
  then show ?thesis
    using ManageInjections_fresh [OF sim.goipam_contract_axioms insertion.map_iteration_axioms wf_map_Nil
        st_applied_ready r _ _ b] r by simp
qed

theorem ManageInjections_conflict_witness:
  "case ManageInjections insertion_order sim_goipam sim_lib sim_client cl_applied (Some cfg_restore)
      [rule_at ''r1'' ''/a'', rule_at ''r2'' ''.b''] [] st_applied of
     Ret ((Some res, _, _), st) \<Rightarrow> map_of (RulesWithIssues res) ''r1'' \<noteq> None
   | _ \<Rightarrow> False"
proof (rule Manage_applied)
  fix res act e st
  assume r: "ManageInjections insertion_order sim_goipam sim_lib sim_client cl_applied (Some cfg_restore)
      [rule_at ''r1'' ''/a'', rule_at ''r2'' ''.b''] [] st_applied = Ret ((Some res, act, e), st)"
  let ?i = "hd (rule_Injections (rule_at ''r1'' ''/a''))"
  have h: "map_of (annotated cl_applied) (rule_ID (rule_at ''r1'' ''/a'')) = None"
    "?i \<in> set (rule_Injections (rule_at ''r1'' ''/a''))"
    "\<lparr>pws_Path = ''/a'', pws_Index = -1\<rparr> \<in> set (GetPaths ?i)"
    "ConvertPath sim_lib (pws_Path \<lparr>pws_Path = ''/a'', pws_Index = -1\<rparr>) = Inr ''/a''"
    "injections_of (annotated cl_applied) ''r0'' ''/a'' \<noteq> None"
    "distinct (map rule_ID [rule_at ''r1'' ''/a'', rule_at ''r2'' ''.b''])"
    by (simp_all add: annotated_cl_applied rule_at_def GetPaths_def sim_convert_path_def injections_of_def)
  have "map_of (RulesWithIssues res) (rule_ID (rule_at ''r1'' ''/a'')) \<noteq> None"
    using ManageInjections_conflict [OF insertion.map_iteration_axioms wf_map_Nil h(6) r _ h(1) _ h(2,3,4,5)] by simp
  then show ?thesis using r by (simp add: rule_at_def)
qed

section \<open>Laws: reconciling\<close>

lemma record_patches_no_Block: "record_patches cc ps m errs \<noteq> Block"
  by (induction cc ps m errs rule: record_patches.induct) (auto split: option.split)

lemma record_ccs_no_Block: "record_ccs ccs a errs \<noteq> Block"
  by (induction ccs a errs rule: record_ccs.induct) (auto simp: go_bind_eq_Block record_patches_no_Block)

lemma Eventf_frame [simp]:
  "IPAM (Eventf er t r a st) = IPAM st" "config (Eventf er t r a st) = config st"
  "platform (Eventf er t r a st) = platform st"
  by (simp_all add: Eventf_def)

lemma apply_annotation_frame:
  assumes "apply_annotation C er cl ann errs st = (x, st')"
  shows "IPAM st' = IPAM st"
  using assms unfolding apply_annotation_def Let_def
  by (auto split: if_splits sum.splits prod.splits dest!: on_platform_frame(2))

lemma report_issues_frame: "report_issues er xs errs st = (e, st') \<Longrightarrow> IPAM st' = IPAM st"
  by (induction er xs errs st rule: report_issues.induct) auto

lemma report_skipped_frame [simp]: "IPAM (report_skipped er xs st) = IPAM st"
  by (induction er xs st rule: report_skipped.induct) auto

text \<open>Any invariant of the library's state is an invariant of the whole controller.\<close>

context ipam_invariant
begin

lemma IPAM_calls_run:
  "ipam_sat False I (IPAM st) \<Longrightarrow> runs_within (ipam_sat False I) (on_IPAM (PrefixFrom G c) st)"
  "ipam_sat False I (IPAM st) \<Longrightarrow> runs_within (ipam_sat False I) (on_IPAM (AcquireChildPrefix G c n) st)"
  "ipam_sat False I (IPAM st) \<Longrightarrow> runs_within (ipam_sat False I) (on_IPAM (ReleaseChildPrefix G p) st)"
  unfolding PrefixFrom_def AcquireChildPrefix_def ReleaseChildPrefix_def
  by (rule on_IPAM_sat, assumption, simp)
     (rule on_IPAM_sat, assumption, erule I_AcquireChildPrefix [OF _ surjective_pairing],
      rule on_IPAM_sat, assumption, erule I_ReleaseChildPrefix [OF _ surjective_pairing])

lemma parent_prefixes_runs:
  "ipam_sat False I (IPAM st) \<Longrightarrow> runs_within (ipam_sat False I) (parent_prefixes G cidrs acc st)"
  by (induction cidrs arbitrary: acc st)
     (auto intro!: runs_within_bind [OF IPAM_calls_run(1)] split: sum.split)

lemma acquire_from_runs: "ipam_sat False I (IPAM st) \<Longrightarrow> runs_within (ipam_sat False I) (acquire_from G len ps st)"
  by (induction ps arbitrary: st)
     (auto intro!: runs_within_bind [OF IPAM_calls_run(2)] split: sum.split)

lemma release_all_runs: "ipam_sat False I (IPAM st) \<Longrightarrow> runs_within (ipam_sat False I) (release_all G ps st)"
  by (induction ps arbitrary: st)
     (auto intro!: runs_within_bind [OF IPAM_calls_run(3)])

lemma acquire_child_runs:
  fixes st :: "('s, 'w) shared"
  shows "ipam_sat False I (IPAM st) \<Longrightarrow> runs_within (ipam_sat False I) (acquire_child G parentCIDRs tmp len ids st)"
proof (induction ids arbitrary: st)
  case (Cons i ids)
  show ?case
    unfolding acquire_child.simps
  proof (rule runs_within_bind [where P = "ipam_sat False I"])
    show "runs_within (ipam_sat False I) (case map_of tmp i of Some ps \<Rightarrow> Ret (Some ps, st)
        | None \<Rightarrow> (case map_of parentCIDRs i of None \<Rightarrow> Ret (None, st)
          | Some cidrs \<Rightarrow> go_bind (parent_prefixes G cidrs [] st) (\<lambda>(ps, st'). Ret (Some ps, st'))))"
      using Cons.prems
      by (auto intro!: runs_within_bind [OF parent_prefixes_runs] split: option.split)
  next
    fix a and st1 :: "('s, 'w) shared"
    assume "ipam_sat False I (IPAM st1)"
    then show "runs_within (ipam_sat False I) (case (a, st1) of (candidates, st1) \<Rightarrow>
          case candidates of None \<Rightarrow> acquire_child G parentCIDRs tmp len ids st1
          | Some ps \<Rightarrow> go_bind (acquire_from G len ps st1) (\<lambda>(c, st2).
                case c of None \<Rightarrow> acquire_child G parentCIDRs tmp len ids st2
                | Some child \<Rightarrow> Ret (Some child, st2)))"
      by (auto intro!: Cons.IH runs_within_bind [OF acquire_from_runs] split: option.split)
  qed
qed simp

lemma generate_loop_runs:
  "ipam_sat False I (IPAM st) \<Longrightarrow> runs_within (ipam_sat False I) (generate_loop rng G rid parentCIDRs injs idx raw tmp st)"
proof (induction injs arbitrary: idx raw tmp st)
  case (Cons i injs)
  show ?case
    unfolding generate_loop.simps
    by (rule runs_within_bind [OF acquire_child_runs [OF Cons.prems]])
       (auto intro!: Cons.IH runs_within_bind [OF release_all_runs] split: option.split)
qed simp

lemma generateCIDRs_runs:
  "ipam_sat False I (IPAM st) \<Longrightarrow> runs_within (ipam_sat False I) (generateCIDRsForInjectionRule rng G rule parentCIDRs st)"
  unfolding generateCIDRsForInjectionRule_def
  by (rule runs_within_bind [OF generate_loop_runs]) (auto split: sum.split)

lemma apply_rule_runs:
  "ipam_sat False I (IPAM st) \<Longrightarrow> runs_within (ipam_sat False I) (apply_rule rng G L cl cfg applied rule res errs st)"
  unfolding apply_rule_def Let_def
  by (auto intro!: runs_within_bind [OF generateCIDRs_runs] runs_within_bind_pure [OF Generate_no_Block]
      split: prod.split option.split sum.split)

lemma apply_rules_runs:
  "ipam_sat False I (IPAM st) \<Longrightarrow> runs_within (ipam_sat False I) (apply_rules rng G L cl cfg applied rules res errs st)"
  by (induction rules arbitrary: res errs st) (auto intro!: runs_within_bind [OF apply_rule_runs])

lemma ManageInjections_runs:
  "ipam_sat False I (IPAM st) \<Longrightarrow> runs_within (ipam_sat False I) (ManageInjections rng G L C cl cfg rules ccs st)"
  unfolding ManageInjections_def
  by (auto intro!: runs_within_bind_pure [OF record_ccs_no_Block] runs_within_bind [OF Check_runs, of "ipam_sat False I"]
      runs_within_bind [OF apply_rules_runs] split: sum.split option.split)

lemma handleCreateOrUpdate_runs:
  "ipam_sat False I (IPAM st) \<Longrightarrow> runs_within (ipam_sat False I) (handleCreateOrUpdate rng G L C er cl rules st)"
  unfolding handleCreateOrUpdate_def Let_def
  by (rule runs_within_bind [OF Fetch_runs(2), of "ipam_sat False I"])
     (auto intro!: runs_within_bind [OF ManageInjections_runs] split: sum.split option.split prod.split
       dest!: apply_annotation_frame RI_Apply_frame report_issues_frame)

lemma Release_runs:
  assumes "ipam_sat False I (IPAM st)"
  shows "runs_within (ipam_sat False I) (ReleaseCIDRsForClusterConfig G C L cc st)"
proof -
  obtain i where i: "IPAM st = Some i" "\<not> lock i" "I (internal i)" using assms by (auto simp: ipam_sat_def)
  then have "ipam_sat True I (IPAM (st\<lparr>IPAM := Some (i\<lparr>lock := True\<rparr>)\<rparr>))" by (simp add: ipam_sat_def)
  note run = runs_within_bind [OF release_internal_sat [OF this, of C L cc]]
  show ?thesis
    using i by (auto simp: ReleaseCIDRsForClusterConfig_def with_IPAM_lock_def intro!: run)
qed

lemma delete_ccs_runs:
  "ipam_sat False I (IPAM st) \<Longrightarrow> runs_within (ipam_sat False I) (delete_ccs G C L ccs errs st)"
proof (induction ccs arbitrary: errs st)
  case (Cons cc ccs)
  show ?case
    unfolding delete_ccs.simps Let_def
    by (rule runs_within_bind [OF Release_runs [OF Cons.prems]])
       (auto intro!: Cons.IH split: prod.split)
qed simp

lemma handleDelete_runs:
  "ipam_sat False I (IPAM st) \<Longrightarrow> runs_within (ipam_sat False I) (handleDelete rng G L C ns name st)"
  unfolding handleDelete_def
  by (auto intro!: runs_within_bind [OF Fetch_runs(2), of "ipam_sat False I"] delete_ccs_runs split: sum.split)

lemma reconcile_rules_runs:
  "ipam_sat False I (IPAM st) \<Longrightarrow> runs_within (ipam_sat False I) (reconcile_rules rng G L C er cl st)"
  unfolding reconcile_rules_def Let_def
  by (auto intro!: handleCreateOrUpdate_runs split: option.split)

lemma reconcile_runs:
  "ipam_sat False I (IPAM st) \<Longrightarrow> runs_within (ipam_sat False I) (reconcile rng G L C er ns name st)"
  unfolding reconcile_def
  by (auto intro!: runs_within_bind [OF handleDelete_runs] reconcile_rules_runs split: prod.split sum.split option.split)

lemma Reconcile_runs:
  "ipam_sat False I (IPAM st) \<Longrightarrow> runs_within (ipam_sat False I) (Reconcile rng G L C er ns name st)"
  unfolding Reconcile_def by (auto intro!: runs_within_bind [OF reconcile_runs])

end

text \<open>C16: reconciling a Cluster while no other call holds the IPAM lock never waits, in particular it
  never asks for the lock while it holds it; and when it returns, the lock is free again, on every
  path including all error paths.\<close>

theorem Reconcile_never_blocks:
  assumes "ipam_ready st"
  shows "Reconcile rng G L C er ns name st \<noteq> Block \<and>
    (\<forall>r st'. Reconcile rng G L C er ns name st = Ret (r, st') \<longrightarrow> ipam_ready st')"
proof -
  have "runs_within (ipam_sat False (\<lambda>_. True)) (Reconcile rng G L C er ns name st)"
    using assms by (intro ipam_invariant.Reconcile_runs [OF trivial_invariant]) (simp add: ipam_sat_ready)
  then show ?thesis by (auto simp: ipam_sat_ready)
qed

theorem Reconcile_never_blocks_witness:
  "Reconcile insertion_order sim_goipam sim_lib sim_client True ''test'' ''c'' st_applied \<noteq> Block"
  using Reconcile_never_blocks [OF st_applied_ready] by blast

subsection \<open>Deleted Clusters\<close>

lemma delete_errs_mono: "delete_ccs G C L ccs (Some e) st = Ret (r, st') \<Longrightarrow> r \<noteq> None"
proof (induction ccs arbitrary: e st)
  case (Cons cc ccs)
  obtain x cc' st1 where rel: "ReleaseCIDRsForClusterConfig G C L cc st = Ret ((x, cc'), st1)"
    using Cons.prems by auto
  obtain d st2 where del: "on_platform (\<lambda>w. c_DeleteClusterConfig C w cc') st1 = (d, st2)" by force
  obtain e' where "delete_ccs G C L ccs (Some e') st2 = Ret (r, st')"
    using Cons.prems rel del
    by (cases x; cases d) (auto simp: Let_def errors_join_def map_filter_def split: if_splits)
  then show ?case by (rule Cons.IH)
qed auto

lemma delete_ccs_frees:
  assumes "goipam_contract G"
  shows "delete_ccs G C L ccs None st = Ret (None, st') \<Longrightarrow> ipam_ready st \<Longrightarrow>
    ipam_ready st' \<and> known G (ipam_state st') =
      (\<lambda>c. if c \<in> (\<Union>cc \<in> set ccs. patch_cidrs (Patches cc)) then None else known G (ipam_state st) c)"
proof (induction ccs arbitrary: st)
  case (Cons cc ccs)
  obtain e cc' st1 where rel: "ReleaseCIDRsForClusterConfig G C L cc st = Ret ((e, cc'), st1)"
    using Cons.prems by auto
  obtain d st2 where del: "on_platform (\<lambda>w. c_DeleteClusterConfig C w cc') st1 = (d, st2)" by force
  note rest = Cons.prems(1) [unfolded delete_ccs.simps rel go_bind.simps prod.case Let_def del]
  have "e = None"
    using rest delete_errs_mono [of G C L ccs _ st2 None st']
    by (cases e; cases d) (auto simp: errors_join_def map_filter_def split: if_splits)
  then have "delete_ccs G C L ccs None st2 = Ret (None, st')"
    using rest delete_errs_mono [of G C L ccs _ st2 None st']
    by (cases d) (auto simp: errors_join_def map_filter_def split: if_splits)
  note IH = Cons.IH [OF this]
  have a: "ipam_ready st1" "known G (ipam_state st1) =
      (\<lambda>c. if c \<in> patch_cidrs (Patches cc) then None else known G (ipam_state st) c)"
    using ReleaseCIDRs_outcome [OF assms rel] \<open>e = None\<close> by auto
  have "IPAM st2 = IPAM st1" using on_platform_frame(2) [OF del] .
  then show ?case using IH a ipam_ready_cong [of st2 st1] ipam_state_cong [of st2 st1] by auto
qed (auto simp: fun_eq_iff)


lemma by_rule_wf [simp]: "wf_map (by_rule ccs)"
proof -
  have "wf_map m \<Longrightarrow> wf_map (foldl (\<lambda>m cc. AList.update (label_of cc InjectionRuleLabel) cc m) m ccs)" for m
    by (induction ccs arbitrary: m) auto
  then show ?thesis by (simp add: by_rule_def)
qed

lemma FetchClusterConfigsForCluster_wf:
  "FetchClusterConfigsForCluster C cl st = Ret (Inr ccs, st') \<Longrightarrow> wf_map ccs \<and> IPAM st' = IPAM st"
proof -
  assume ok: "FetchClusterConfigsForCluster C cl st = Ret (Inr ccs, st')"
  then obtain ls where "ClusterConfigLabels st (Some cl) [] = Ret ls"
    by (auto simp: FetchClusterConfigsForCluster_def)
  moreover obtain r st1 where "on_platform (\<lambda>w. c_ListClusterConfigs C w ls (Some (Namespace cl))) st = (r, st1)" by force
  ultimately show ?thesis
    using ok by (cases r) (auto simp: FetchClusterConfigsForCluster_def)
qed

text \<open>C17: when a Cluster is gone and its deletion is handled without an error, exactly the CIDRs of the
  patches of its ClusterConfigs have been freed; every other CIDR is blocked as before.\<close>

theorem handleDelete_frees:
  assumes "goipam_contract G" and "map_iteration rng" and "ipam_ready st"
    and "handleDelete rng G L C ns name st = Ret (None, st')"
  shows "\<exists>ccs st1. FetchClusterConfigsForCluster C (cluster_stub ns name) st = Ret (Inr ccs, st1) \<and>
    known G (ipam_state st') = (\<lambda>c. if c \<in> (\<Union>cc \<in> snd ` set ccs. patch_cidrs (Patches cc)) then None
      else known G (ipam_state st) c)"
proof -
  obtain ccs st1 where f: "FetchClusterConfigsForCluster C (cluster_stub ns name) st = Ret (Inr ccs, st1)"
    and d: "delete_ccs G C L (go_values rng ''handleDelete'' ccs) None st1 = Ret (None, st')"
    using assms(4) by (auto simp: handleDelete_def go_simps)
  have "wf_map ccs" "IPAM st1 = IPAM st" using FetchClusterConfigsForCluster_wf [OF f] by auto
  then show ?thesis
    using delete_ccs_frees [OF assms(1) d] assms(3) f ipam_ready_cong [of st1 st] ipam_state_cong [of st1 st]
    by (auto simp: map_iteration.set_go_values [OF assms(2)])
qed

definition st_delete :: "(sim, world) shared" where
  "st_delete = sim_state s_release w_release"

theorem handleDelete_frees_witness:
  "case handleDelete insertion_order sim_goipam sim_lib sim_client ''test'' ''c'' st_delete of
     Ret (None, st) \<Rightarrow> known sim_goipam (ipam_state st) ''192.168.0.0/16'' = None
   | _ \<Rightarrow> False"
proof -
  let ?r = "handleDelete insertion_order sim_goipam sim_lib sim_client ''test'' ''c'' st_delete"
  have "(case ?r of Ret (None, _) \<Rightarrow> True | _ \<Rightarrow> False)" by code_simp
  then obtain st where r: "?r = Ret (None, st)" by (auto split: go.splits prod.splits option.splits)
  have "ipam_ready st_delete" "known sim_goipam (ipam_state st_delete) ''192.168.0.0/16'' = None"
    by (simp_all add: st_delete_def) code_simp
  then show ?thesis
    using handleDelete_frees [OF sim.goipam_contract_axioms insertion.map_iteration_axioms _ r] r
    by (auto simp del: known_Some)
qed

subsection \<open>Unreadable annotations\<close>

text \<open>C39: an applied-rules annotation that cannot be parsed makes the reconciliation of the Cluster
  panic: the result of ManageInjections is nil in this case, and handleCreateOrUpdate reads the
  fields of the nil result after having recorded the error.\<close>

theorem handleCreateOrUpdate_unparsable_panics:
  assumes "map_of (Annotations cl) AppliedRulesAnnotationKey = Some s" and "FromAnnotation s = Inl e"
    and "FetchClusterConfigsForCluster C cl st = Ret (Inr ccs, st1)"
  shows "handleCreateOrUpdate rng G L C er cl rules st = Panic NilDereference"
  using assms by (simp add: handleCreateOrUpdate_def ManageInjections_def Let_def)

theorem handleCreateOrUpdate_unparsable_panics_witness:
  "handleCreateOrUpdate insertion_order sim_goipam sim_lib sim_client True
     ((sim_cluster ''c'')\<lparr>Annotations := [(AppliedRulesAnnotationKey, ''{'')]\<rparr>) [rule_at ''r'' ''/a''] st_free =
   Panic NilDereference"
proof -
  let ?cl = "(sim_cluster ''c'')\<lparr>Annotations := [(AppliedRulesAnnotationKey, ''{'')]\<rparr>"
  have "(case FetchClusterConfigsForCluster sim_client ?cl st_free of Ret (Inr _, _) \<Rightarrow> True | _ \<Rightarrow> False)" by code_simp
  then obtain ccs st1 where f: "FetchClusterConfigsForCluster sim_client ?cl st_free = Ret (Inr ccs, st1)"
    by (auto split: go.splits prod.splits sum.splits)
  have "(case FromAnnotation ''{'' of Inl _ \<Rightarrow> True | _ \<Rightarrow> False)" by code_simp
  then obtain e where "FromAnnotation ''{'' = Inl e" by (auto split: sum.splits)
  then show ?thesis using handleCreateOrUpdate_unparsable_panics [OF _ _ f] by simp
qed

subsection \<open>The settled state\<close>

lemma Marshal_normal_outer: "json_Marshal_outer (normal_outer a) = json_Marshal_outer a"
proof -
  have inner: "json_Marshal_inner (map_option (sort_key fst) m) = json_Marshal_inner m" for m
    by (cases m) (simp_all add: json_Marshal_inner_def sort_key_id_if_sorted)
  have "sort_key fst (normal_outer a) = normal_outer a"
    by (rule sort_key_id_if_sorted) (simp add: normal_outer_def comp_def)
  then have "json_Marshal_outer (normal_outer a) =
      json_object (map (map_prod id json_Marshal_inner) (normal_outer a))"
    by (simp add: json_Marshal_outer_def)
  also have "map (map_prod id json_Marshal_inner) (normal_outer a) = map (map_prod id json_Marshal_inner) (sort_key fst a)"
    by (simp add: normal_outer_def map_prod_def split_def inner)
  finally show ?thesis by (simp add: json_Marshal_outer_def)
qed

lemma record_patches_idle:
  "\<forall>patch \<in> set ps. map_of (nil_to_empty m) (PatchPath patch) \<noteq> None \<Longrightarrow> record_patches cc ps m errs = Ret (m, errs)"
  by (induction ps) auto

lemma update_same: "map_of a r = Some m \<Longrightarrow> AList.update r m a = a"
  by (induction a) auto

lemma record_ccs_idle:
  "\<forall>(r, cc) \<in> set ccs. \<exists>m. map_of a r = Some m \<and> (\<forall>patch \<in> set (Patches cc). map_of (nil_to_empty m) (PatchPath patch) \<noteq> None) \<Longrightarrow>
   record_ccs ccs a errs = Ret (a, errs)"
proof (induction ccs)
  case (Cons x ccs)
  obtain r cc where x: "x = (r, cc)" by force
  obtain m where m: "map_of a r = Some m" "\<forall>patch \<in> set (Patches cc). map_of (nil_to_empty m) (PatchPath patch) \<noteq> None"
    using Cons.prems x by auto
  then show ?case using Cons x by (simp add: record_patches_idle [OF m(2)] update_same)
qed simp

lemma apply_rules_idle:
  "\<forall>rule \<in> set rules. map_of applied (rule_ID rule) \<noteq> None \<Longrightarrow>
   \<exists>sk. apply_rules rng G L cl cfg applied rules res errs st =
     Ret ((res\<lparr>SkippedBecauseAlreadyAppliedRules := sk\<rparr>, errs), st)"
proof (induction rules arbitrary: res)
  case Nil
  then show ?case by (auto intro!: exI [of _ "SkippedBecauseAlreadyAppliedRules res"])
next
  case (Cons rule rules)
  let ?res = "res\<lparr>SkippedBecauseAlreadyAppliedRules := List.insert (rule_ID rule) (SkippedBecauseAlreadyAppliedRules res)\<rparr>"
  have "apply_rule rng G L cl cfg applied rule res errs st = Ret ((?res, errs), st)"
    using Cons.prems by (auto simp: apply_rule_def)
  then show ?case using Cons.IH [of ?res] Cons.prems by auto
qed

lemma report_skipped_recorded: "\<exists>evs. report_skipped er xs st = st\<lparr>recorded := recorded st @ evs\<rparr>"
proof (induction xs arbitrary: st)
  case Nil
  then show ?case by (auto intro!: exI [of _ "[]"])
next
  case (Cons x xs)
  let ?st = "Eventf er EventNormal EventReasonCIDRManagementError EventActionEvaluatingRulesToApply st"
  have "\<exists>evs. ?st = st\<lparr>recorded := recorded st @ evs\<rparr>"
  proof (cases er)
    case False
    then show ?thesis by (auto simp: Eventf_def intro: exI [of _ "[]"])
  qed (auto simp: Eventf_def)
  then show ?case using Cons.IH [of ?st] by auto
qed

text \<open>
  A settled Cluster: its annotation is a written one that records every patch of its
  ClusterConfigs, which have all the recorded injections and the finalizer.
\<close>

definition settled :: "AppliedRulesAnnotation \<Rightarrow> clusterConfig gomap \<Rightarrow> bool" where
  "settled a ccs \<longleftrightarrow> wf_outer a \<and> wf_map ccs \<and>
     (\<forall>(r, cc) \<in> set ccs. \<not> lacks_finalizer cc \<and> map_of a r \<noteq> None \<and>
        (\<forall>patch \<in> set (Patches cc). injections_of a r (PatchPath patch) \<noteq> None)) \<and>
     (\<forall>r p. injections_of a r p \<noteq> None \<longrightarrow>
        (\<exists>cc patch. map_of ccs r = Some cc \<and> patch \<in> set (Patches cc) \<and> PatchPath patch = p))"

lemma ManageInjections_settled:
  assumes "map_iteration rng" and "settled a ccs"
    and "map_of (Annotations cl) AppliedRulesAnnotationKey = Some (json_Marshal_outer a)"
    and "\<forall>rule \<in> set rules. map_of a (rule_ID rule) \<noteq> None"
  shows "\<exists>sk. ManageInjections rng G L C cl cfg rules ccs st =
    Ret ((Some \<lparr>Instruction = \<lparr>ClusterConfigsToCreate = [], ClusterConfigsToUpdate = []\<rparr>,
       AnnotationToApply = normal_outer a, RulesWithIssues = [], SkippedBecauseAlreadyAppliedRules = sk\<rparr>,
       EventActionCIDRGeneration, None), st)"
proof -
  let ?a = "normal_outer a"
  have wf: "wf_outer a" "wf_map ccs" using assms(2) by (simp_all add: settled_def)
  have read: "FromAnnotation (json_Marshal_outer a) = Inr ?a"
    by (rule FromAnnotation_ToAnnotation [OF wf(1)]) (simp add: ToAnnotation_def)
  then have wfn: "wf_outer ?a" by (rule wf_FromAnnotation)
  note inj = injections_of_normal_outer [OF wf(1)]
  have some: "(map_of ?a r = None) = (map_of a r = None)" for r
    by (simp add: map_of_normal_outer [OF wf(1)])
  have noted: "record_ccs (go_range rng ''ManageInjections/ccs'' ccs) ?a [] = Ret (?a, [])"
  proof (rule record_ccs_idle, clarify)
    fix r cc assume "(r, cc) \<in> set (go_range rng ''ManageInjections/ccs'' ccs)"
    then have "(r, cc) \<in> set ccs" by (simp add: map_iteration.set_go_range [OF assms(1) wf(2)])
    then have *: "map_of ?a r \<noteq> None" "\<forall>patch \<in> set (Patches cc). injections_of ?a r (PatchPath patch) \<noteq> None"
      using assms(2) by (auto simp: settled_def inj some)
    then show "\<exists>m. map_of ?a r = Some m \<and> (\<forall>patch \<in> set (Patches cc). map_of (nil_to_empty m) (PatchPath patch) \<noteq> None)"
      by (auto simp: injections_of_nil)
  qed
  have check: "CheckClusterConfigsForCluster rng L C cl (Some ?a) (Some ccs) st =
      Ret (Inr \<lparr>ClusterConfigsToCreate = [], ClusterConfigsToUpdate = []\<rparr>, st)"
    using assms(2) by (intro Check_quiet [OF assms(1) wfn wf(2)]) (auto simp: settled_def inj)
  obtain sk where "apply_rules rng G L cl cfg ?a rules
      \<lparr>Instruction = \<lparr>ClusterConfigsToCreate = [], ClusterConfigsToUpdate = []\<rparr>, AnnotationToApply = ?a,
       RulesWithIssues = [], SkippedBecauseAlreadyAppliedRules = []\<rparr> [] st =
      Ret ((\<lparr>Instruction = \<lparr>ClusterConfigsToCreate = [], ClusterConfigsToUpdate = []\<rparr>, AnnotationToApply = ?a,
       RulesWithIssues = [], SkippedBecauseAlreadyAppliedRules = sk\<rparr>, []), st)"
    using apply_rules_idle [of rules ?a rng G L cl cfg
        "\<lparr>Instruction = \<lparr>ClusterConfigsToCreate = [], ClusterConfigsToUpdate = []\<rparr>, AnnotationToApply = ?a,
          RulesWithIssues = [], SkippedBecauseAlreadyAppliedRules = []\<rparr>" "[]" st] assms(4) some by auto
  then show ?thesis
    using assms(3) read noted check by (simp add: ManageInjections_def)
qed


text \<open>C18: reconciling a settled Cluster changes nothing. If every applicable rule is recorded in the
  annotation and the annotation and the ClusterConfigs agree, then reconciling succeeds, writes
  neither the Cluster nor any ClusterConfig, and leaves the IPAM state alone; it only records
  events. So repeated reconciliations do not allocate again.\<close>

theorem handleCreateOrUpdate_settled:
  assumes "map_iteration rng" and "FetchClusterConfigsForCluster C cl st = Ret (Inr ccs, st1)" and "settled a ccs"
    and "map_of (Annotations cl) AppliedRulesAnnotationKey = Some (json_Marshal_outer a)"
    and "\<forall>rule \<in> set rules. map_of a (rule_ID rule) \<noteq> None"
  shows "\<exists>evs. handleCreateOrUpdate rng G L C er cl rules st =
    Ret (rr_empty\<lparr>rr_Cluster := Some cl\<rparr>, st1\<lparr>recorded := recorded st1 @ evs\<rparr>)"
proof -
  obtain sk where m: "ManageInjections rng G L C cl (GetConfig st) rules ccs st1 =
    Ret ((Some \<lparr>Instruction = \<lparr>ClusterConfigsToCreate = [], ClusterConfigsToUpdate = []\<rparr>,
       AnnotationToApply = normal_outer a, RulesWithIssues = [], SkippedBecauseAlreadyAppliedRules = sk\<rparr>,
       EventActionCIDRGeneration, None), st1)"
    using ManageInjections_settled [OF assms(1,3,4,5)] by blast
  have "apply_annotation C er cl (normal_outer a) None st1 = ((cl, None), st1)"
    using assms(4) by (simp add: apply_annotation_def ToAnnotation_def Marshal_normal_outer)
  moreover have "RI_Apply C (Some \<lparr>ClusterConfigsToCreate = [], ClusterConfigsToUpdate = []\<rparr>) st1 = (None, st1)"
    by (simp add: RI_Apply_def)
  ultimately have "handleCreateOrUpdate rng G L C er cl rules st =
      Ret (rr_empty\<lparr>rr_Cluster := Some cl\<rparr>, report_skipped er (rng ''handleCreateOrUpdate/skipped'' sk) st1)"
    using assms(2) m by (simp add: handleCreateOrUpdate_def Let_def map_iteration.go_range_Nil [OF assms(1)] rr_empty_def)
  then show ?thesis using report_skipped_recorded by metis
qed

definition ann_settled :: AppliedRulesAnnotation where
  "ann_settled = [(''r'', Some [(''/a'', ''10.0.0.0/24'')])]"

definition cl_settled :: cluster where
  "cl_settled = (sim_cluster ''c'')\<lparr>Annotations := [(AppliedRulesAnnotationKey, json_Marshal_outer ann_settled)]\<rparr>"

theorem handleCreateOrUpdate_settled_witness:
  "\<exists>evs. handleCreateOrUpdate insertion_order sim_goipam sim_lib sim_client True cl_settled [rule_at ''r'' ''/a''] st_delete =
     Ret (rr_empty\<lparr>rr_Cluster := Some cl_settled\<rparr>, st_delete\<lparr>recorded := recorded st_delete @ evs\<rparr>)"
proof -
  let ?cc = "sim_cc ''c'' ''r'' [CIDRManagementFinalizer] [(''/a'', ''10.0.0.0/24'')]"
  have "(case FetchClusterConfigsForCluster sim_client cl_settled st_delete of Ret (Inr ccs, st) \<Rightarrow>
      ccs = [(''r'', ?cc)] \<and> st = st_delete | _ \<Rightarrow> False)" by code_simp
  then have f: "FetchClusterConfigsForCluster sim_client cl_settled st_delete = Ret (Inr [(''r'', ?cc)], st_delete)"
    by (auto split: go.splits prod.splits sum.splits)
  have "settled ann_settled [(''r'', ?cc)]"
    by (auto simp: settled_def ann_settled_def wf_outer_def wf_map_def lacks_finalizer_def sim_cc_def
        injections_of_def split: if_splits)
  then show ?thesis
    by (intro handleCreateOrUpdate_settled [OF insertion.map_iteration_axioms f])
       (auto simp: cl_settled_def ann_settled_def rule_at_def)
qed

end
