(* ===== verification/Config_Controller.thy ===== *)
theory Config_Controller
  imports Restore
begin

text \<open>
  \<^verbatim>\<open>internal/controllers/config/controller.go\<close>: the reconciliation of the configuration
  resource.  It validates the selectors, queues the Clusters affected by changed rules, stores the
  config in the shared state, and refreshes the IPAM state periodically.  The clock is a parameter:
  a record with the values of the three readings of the time in the order of the code.
\<close>

record IPAMConfigController =
  cc_ProviderName :: string
  cc_er :: bool
  lastRefreshTime :: int

definition NewIPAMConfigController :: "string \<Rightarrow> bool \<Rightarrow> int \<Rightarrow> IPAMConfigController" where
  "NewIPAMConfigController name er now = \<lparr>cc_ProviderName = name, cc_er = er, lastRefreshTime = now\<rparr>"

record clock =
  now_check :: int
  now_refreshed :: int
  now_requeue :: int

definition Second :: int where
  "Second = 1000000000"

text \<open>Arithmetic of \<^verbatim>\<open>time.Duration\<close>, a 64-bit integer of nanoseconds that wraps.\<close>

definition int64 :: "int \<Rightarrow> int" where
  "int64 x = sint (word_of_int x :: 64 word)"

text \<open>\<^verbatim>\<open>time.Since\<close> is the difference of two times, limited to the range of durations.\<close>

definition time_Since :: "int \<Rightarrow> int \<Rightarrow> int" where
  "time_Since now t = max (- (2 ^ 63)) (min (2 ^ 63 - 1) (now - t))"

text \<open>The rules whose selector is invalid.\<close>

fun validate_rules :: "lib \<Rightarrow> CIDRInjection list \<Rightarrow> nat \<Rightarrow> goerr option \<Rightarrow> goerr option" where
  "validate_rules L [] i errs = errs"
| "validate_rules L (rule # rules) i errs =
     validate_rules L rules (Suc i)
       (case ValidateSelector L (rule_Selector rule) of
          None \<Rightarrow> errs
        | Some e \<Rightarrow> errors_join [errs, Some (Errorf ''injection rule is invalid'' [nat_to_string i] (Some e))])"

fun queue_clusters :: "cluster list \<Rightarrow> ('s, 'w) shared \<Rightarrow> ('s, 'w) shared go" where
  "queue_clusters [] st = Ret st"
| "queue_clusters (cl # cls) st = go_bind (send_cluster cl st) (queue_clusters cls)"

text \<open>Queuing the affected Clusters if the injection rules have changed.\<close>

definition queue_affected ::
  "range_order \<Rightarrow> lib \<Rightarrow> 'w platform_client \<Rightarrow> IPAMConfig \<Rightarrow> ('s, 'w) shared \<Rightarrow> (goerr option \<times> ('s, 'w) shared) go" where
  "queue_affected rng L C cfg st =
     (if map_option (\<lambda>old. InjectionRules (Spec old)) (GetConfig st) \<noteq> Some (InjectionRules (Spec cfg)) then
        go_bind (FetchRelevantClusters rng L C (Some cfg) st) (\<lambda>(r, st1).
          case r of
            Inl e \<Rightarrow> Ret (Some (Errorf ''error fetching affected clusters'' [] (Some e)), st1)
          | Inr affectedClusters \<Rightarrow>
              go_bind (queue_clusters affectedClusters st1) (\<lambda>st2. Ret (None, st2)))
      else Ret (None, st))"

text \<open>Storing the config, or removing it when the resource is in deletion.\<close>

definition store_config ::
  "range_order \<Rightarrow> lib \<Rightarrow> 'w platform_client \<Rightarrow> IPAMConfig \<Rightarrow> ('s, 'w) shared \<Rightarrow> (goerr option \<times> ('s, 'w) shared) go" where
  "store_config rng L C cfg st =
     (if DeletionTimestamp cfg = None then
        (case validate_rules L (InjectionRules (Spec cfg)) 0 None of
           Some e \<Rightarrow> Ret (Some (Errorf ''config is invalid'' [] (Some e)), st)
         | None \<Rightarrow>
             go_bind (queue_affected rng L C cfg st) (\<lambda>(e, st1).
               case e of
                 Some err \<Rightarrow> Ret (Some err, st1)
               | None \<Rightarrow> Ret (None, SetConfig (Some cfg) st1)))
      else Ret (None, SetConfig None st))"

definition refresh_due :: "IPAMConfigController \<Rightarrow> clock \<Rightarrow> IPAMConfig \<Rightarrow> bool" where
  "refresh_due c t cfg =
     (case InternalStateRefreshCycleDuration (Spec cfg) of
        None \<Rightarrow> False
      | Some d \<Rightarrow> 0 < d \<and> lastRefreshTime c + d < now_check t)"

definition requeue :: "int \<Rightarrow> clock \<Rightarrow> IPAMConfig \<Rightarrow> reconcile_Result" where
  "requeue since t cfg =
     (case InternalStateRefreshCycleDuration (Spec cfg) of
        None \<Rightarrow> \<lparr>RequeueAfter = 0\<rparr>
      | Some d \<Rightarrow>
          if 0 < d then
            let after = int64 (int64 (d - time_Since (now_requeue t) since) + Second)
            in \<lparr>RequeueAfter = (if after \<le> 0 then Second else after)\<rparr>
          else \<lparr>RequeueAfter = 0\<rparr>)"

text \<open>Refreshing the IPAM state when it is due, and the time of the next reconciliation.\<close>

definition refresh_state ::
  "range_order \<Rightarrow> 's goipam \<Rightarrow> lib \<Rightarrow> 'w platform_client \<Rightarrow> clock \<Rightarrow> IPAMConfig \<Rightarrow> IPAMConfigController \<Rightarrow>
     ('s, 'w) shared \<Rightarrow>
     (((IPAMConfig option \<times> reconcile_Result \<times> goerr option) \<times> IPAMConfigController) \<times> ('s, 'w) shared) go" where
  "refresh_state rng G L C t cfg c st =
     (if refresh_due c t cfg then
        go_bind (RestoreIPAMFromClusterState rng G L C st) (\<lambda>(e, st1).
          case e of
            Some err \<Rightarrow>
              Ret (((None, \<lparr>RequeueAfter = 0\<rparr>,
                Some (Errorf ''error refreshing internal IPAM state'' [] (Some err))), c), st1)
          | None \<Rightarrow>
              let c' = c\<lparr>lastRefreshTime := now_refreshed t\<rparr>
              in Ret (((Some cfg, requeue (lastRefreshTime c') t cfg, None), c'), st1))
      else Ret (((Some cfg, requeue (lastRefreshTime c) t cfg, None), c), st))"

definition reconcile_stored ::
  "range_order \<Rightarrow> 's goipam \<Rightarrow> lib \<Rightarrow> 'w platform_client \<Rightarrow> clock \<Rightarrow> IPAMConfig \<Rightarrow> IPAMConfigController \<Rightarrow>
     ('s, 'w) shared \<Rightarrow>
     (((IPAMConfig option \<times> reconcile_Result \<times> goerr option) \<times> IPAMConfigController) \<times> ('s, 'w) shared) go" where
  "reconcile_stored rng G L C t cfg c st =
     go_bind (store_config rng L C cfg st) (\<lambda>(e, st1).
       case e of
         Some err \<Rightarrow> Ret (((None, \<lparr>RequeueAfter = 0\<rparr>, Some err), c), st1)
       | None \<Rightarrow> refresh_state rng G L C t cfg c st1)"

definition config_reconcile ::
  "range_order \<Rightarrow> 's goipam \<Rightarrow> lib \<Rightarrow> 'w platform_client \<Rightarrow> clock \<Rightarrow> string \<Rightarrow> IPAMConfigController \<Rightarrow>
     ('s, 'w) shared \<Rightarrow>
     (((IPAMConfig option \<times> reconcile_Result \<times> goerr option) \<times> IPAMConfigController) \<times> ('s, 'w) shared) go" where
  "config_reconcile rng G L C t name c st =
     (if name \<noteq> cc_ProviderName c then Ret (((None, \<lparr>RequeueAfter = 0\<rparr>, None), c), st)
      else case on_platform (\<lambda>w. c_GetConfig C w name) st of
        (Inl e, st1) \<Rightarrow>
          Ret (((None, \<lparr>RequeueAfter = 0\<rparr>, Some (Errorf ''error fetching GardenerIPAMConfig'' [name] (Some e))), c),
            if is_api_not_found e then SetConfig None st1 else st1)
      | (Inr cfg, st1) \<Rightarrow>
          (case map_of (Annotations cfg) OperationAnnotation of
             None \<Rightarrow> reconcile_stored rng G L C t cfg c st1
           | Some op \<Rightarrow>
               if op = OperationAnnotationValueIgnore then Ret (((None, \<lparr>RequeueAfter = 0\<rparr>, None), c), st1)
               else if op = OperationAnnotationValueReconcile then
                 (case on_platform (\<lambda>w. c_RemoveConfigAnnotation C w cfg OperationAnnotation) st1 of
                    (Inl e, st2) \<Rightarrow>
                      Ret (((None, \<lparr>RequeueAfter = 0\<rparr>,
                        Some (Errorf ''error removing operation annotation'' [] (Some e))), c), st2)
                  | (Inr cfg', st2) \<Rightarrow> reconcile_stored rng G L C t cfg' c st2)
               else reconcile_stored rng G L C t cfg c st1))"

definition config_Reconcile ::
  "range_order \<Rightarrow> 's goipam \<Rightarrow> lib \<Rightarrow> 'w platform_client \<Rightarrow> clock \<Rightarrow> string \<Rightarrow> IPAMConfigController \<Rightarrow>
     ('s, 'w) shared \<Rightarrow>
     (((reconcile_Result \<times> goerr option) \<times> IPAMConfigController) \<times> ('s, 'w) shared) go" where
  "config_Reconcile rng G L C t name c st =
     go_bind (config_reconcile rng G L C t name c st) (\<lambda>(((cfg, rr, err), c'), st').
       Ret (((rr, err), c'),
         if cfg = None then st'
         else if err \<noteq> None then Eventf (cc_er c) EventWarning ''ReconcileError'' ''Reconcile'' st'
         else Eventf (cc_er c) EventNormal ''ReconcileSuccess'' ''Reconcile'' st'))"

section \<open>Laws\<close>

lemma requeue_positive:
  "InternalStateRefreshCycleDuration (Spec cfg) = Some d \<Longrightarrow> 0 < d \<Longrightarrow> 0 < RequeueAfter (requeue since t cfg)"
  by (simp add: requeue_def Let_def Second_def)

lemma validate_rules_None:
  "validate_rules L rules i errs = None \<longleftrightarrow>
   errs = None \<and> (\<forall>rule \<in> set rules. ValidateSelector L (rule_Selector rule) = None)"
  by (induction rules arbitrary: i errs) (auto split: option.splits)

lemma queue_clusters_fits:
  "length (ClusterWatch st) + length cls \<le> ClusterWatch_capacity \<Longrightarrow>
   queue_clusters cls st = Ret (st\<lparr>ClusterWatch := ClusterWatch st @ cls\<rparr>)"
  by (induction cls arbitrary: st) (simp_all add: send_cluster_def)

lemma queue_clusters_Ret:
  "queue_clusters cls st = Ret st' \<Longrightarrow> st' = st\<lparr>ClusterWatch := ClusterWatch st @ cls\<rparr>"
proof (induction cls arbitrary: st)
  case (Cons cl cls)
  then obtain st1 where "send_cluster cl st = Ret st1" "queue_clusters cls st1 = Ret st'" by auto
  then show ?case using Cons.IH [of st1] by (auto simp: send_cluster_def split: if_splits)
qed simp

text \<open>What a config that was stored has gone through.\<close>

lemma store_config_None:
  assumes "store_config rng L C cfg st = Ret (None, st')" and "DeletionTimestamp cfg = None"
  obtains (unchanged) "\<forall>rule \<in> set (InjectionRules (Spec cfg)). ValidateSelector L (rule_Selector rule) = None"
      and "map_option (\<lambda>old. InjectionRules (Spec old)) (config st) = Some (InjectionRules (Spec cfg))"
      and "st' = SetConfig (Some cfg) st"
  | (queued) cls st1 where "\<forall>rule \<in> set (InjectionRules (Spec cfg)). ValidateSelector L (rule_Selector rule) = None"
      and "map_option (\<lambda>old. InjectionRules (Spec old)) (config st) \<noteq> Some (InjectionRules (Spec cfg))"
      and "FetchRelevantClusters rng L C (Some cfg) st = Ret (Inr cls, st1)"
      and "st' = SetConfig (Some cfg) (st1\<lparr>ClusterWatch := ClusterWatch st1 @ cls\<rparr>)"
proof -
  have valid: "validate_rules L (InjectionRules (Spec cfg)) 0 None = None"
    using assms by (cases "validate_rules L (InjectionRules (Spec cfg)) 0 None") (simp_all add: store_config_def)
  then obtain st2 where q: "queue_affected rng L C cfg st = Ret (None, st2)" and st': "st' = SetConfig (Some cfg) st2"
    using assms by (auto simp: store_config_def go_simps)
  show thesis
  proof (cases "map_option (\<lambda>old. InjectionRules (Spec old)) (config st) = Some (InjectionRules (Spec cfg))")
    case True
    then show thesis using valid q st' unchanged by (simp add: validate_rules_None queue_affected_def GetConfig_def)
  next
    case False
    then obtain cls st1 where f: "FetchRelevantClusters rng L C (Some cfg) st = Ret (Inr cls, st1)"
      and c: "queue_clusters cls st1 = Ret st2"
      using q by (auto simp: queue_affected_def GetConfig_def go_simps)
    from queue_clusters_Ret [OF c] show thesis
      using valid False f st' by (intro queued) (simp_all add: validate_rules_None)
  qed
qed

text \<open>A call that leaves the config and the queue of Clusters as they are.\<close>

definition keeps :: "('s, 'w) shared \<Rightarrow> ('a \<times> ('s, 'w) shared) go \<Rightarrow> bool" where
  "keeps st m = (case m of Ret (a, st') \<Rightarrow> config st' = config st \<and> ClusterWatch st' = ClusterWatch st | _ \<Rightarrow> True)"

lemma keeps_simps [simp]:
  "keeps st (Ret (a, st')) \<longleftrightarrow> config st' = config st \<and> ClusterWatch st' = ClusterWatch st"
  "keeps st (Panic p)" "keeps st Block"
  by (simp_all add: keeps_def)

lemma keeps_bind:
  "keeps st m \<Longrightarrow> (\<And>a st'. config st' = config st \<Longrightarrow> ClusterWatch st' = ClusterWatch st \<Longrightarrow> keeps st (f (a, st'))) \<Longrightarrow>
   keeps st (go_bind m f)"
  by (cases m) auto

lemma keeps_bind_pure: "(\<And>a. m = Ret a \<Longrightarrow> keeps st (f a)) \<Longrightarrow> keeps st (go_bind m f)"
  by (cases m) auto

lemma keeps_cong: "config st = config st' \<Longrightarrow> ClusterWatch st = ClusterWatch st' \<Longrightarrow> keeps st m = keeps st' m"
  by (auto simp: keeps_def split: go.split)

lemma Fetch_keeps:
  "keeps st (FetchClusterConfigs C st)" "keeps st (FetchClusterConfigsForCluster C cl st)"
  "keeps st (FetchRelevantClusters rng L C (Some cfg) st)"
  unfolding FetchClusterConfigs_def FetchClusterConfigsForCluster_def FetchRelevantClusters_def
  by (auto intro!: keeps_bind_pure split: prod.splits sum.splits)

lemma Fetch_keeps':
  assumes "config st = config st0" "ClusterWatch st = ClusterWatch st0"
  shows "keeps st0 (FetchClusterConfigs C st)" "keeps st0 (FetchClusterConfigsForCluster C cl st)"
  "keeps st0 (FetchRelevantClusters rng L C (Some cfg) st)"
  using Fetch_keeps keeps_cong [OF assms] by blast+

lemma Check_keeps: "keeps st (CheckClusterConfigsForCluster rng L C cl a (Some ccs) st)"
  unfolding CheckClusterConfigsForCluster_def
  by (auto intro!: keeps_bind_pure simp: Let_def split: sum.split option.split)

lemma apply_each_keeps: "apply_each f msg ccs errs st = (r, st') \<Longrightarrow> config st' = config st \<and> ClusterWatch st' = ClusterWatch st"
  by (induction f msg ccs errs st rule: apply_each.induct) (auto split: prod.splits sum.splits)

lemma RI_Apply_keeps: "RI_Apply C ri st = (r, st') \<Longrightarrow> config st' = config st \<and> ClusterWatch st' = ClusterWatch st"
  by (auto simp: RI_Apply_def split: option.splits prod.splits dest!: apply_each_keeps)

lemma restore_cluster_keeps:
  assumes "config st = config st0" "ClusterWatch st = ClusterWatch st0"
  shows "keeps st0 (restore_cluster rng L C cl ccs handled errs st)"
  unfolding restore_cluster_def Let_def
  by (rule keeps_bind [OF Check_keeps [of st, unfolded keeps_cong [OF assms]]])
     (auto intro!: keeps_bind [OF Fetch_keeps'(2)] split: sum.split option.split prod.split dest!: RI_Apply_keeps)

lemma restore_clusters_keeps:
  "config st = config st0 \<Longrightarrow> ClusterWatch st = ClusterWatch st0 \<Longrightarrow>
   keeps st0 (restore_clusters rng L C cls ccs handled errs st)"
  by (induction cls arbitrary: ccs handled errs st) (auto intro!: keeps_bind [OF restore_cluster_keeps])

lemma release_internal_keeps:
  "config st = config st0 \<Longrightarrow> ClusterWatch st = ClusterWatch st0 \<Longrightarrow>
   keeps st0 (releaseCIDRsForClusterConfig_internal G C L cc st)"
  by (auto simp: releaseCIDRsForClusterConfig_internal_def Let_def split: option.splits sum.splits prod.splits)

lemma orphan_step_keeps:
  "config st = config st0 \<Longrightarrow> ClusterWatch st = ClusterWatch st0 \<Longrightarrow>
   keeps st0 (orphan_step G C L cc remaining errs st)"
  unfolding orphan_step_def orphan_finish_def Let_def
  by (auto intro!: keeps_bind [OF release_internal_keeps] split: prod.split sum.split option.split)

lemma orphan_loop_keeps:
  "config st = config st0 \<Longrightarrow> ClusterWatch st = ClusterWatch st0 \<Longrightarrow>
   keeps st0 (orphan_loop G C L ccs remaining errs st)"
  by (induction ccs arbitrary: remaining errs st) (auto intro!: keeps_bind [OF orphan_step_keeps])

lemma restore_orphans_keeps:
  "config st = config st0 \<Longrightarrow> ClusterWatch st = ClusterWatch st0 \<Longrightarrow>
   keeps st0 (restore_orphans G L C ccs handled st)"
  unfolding restore_orphans_def handleOrphanedClusterConfigs_internal_def
  by (auto intro!: keeps_bind [OF orphan_loop_keeps] simp: go_bind_assoc split: option.split)

lemma restore_body_keeps:
  assumes "config st = config st0" "ClusterWatch st = ClusterWatch st0"
  shows "keeps st0 (restore_body rng G L C cfg st)"
  unfolding restore_body_def
  by (rule keeps_bind [OF Fetch_keeps'(3) [OF assms]])
     (auto intro!: keeps_bind [OF Fetch_keeps'(1)] keeps_bind [OF restore_clusters_keeps]
       keeps_bind [OF restore_orphans_keeps] keeps_bind_pure [of "ipamFromClusterConfigs _ _ _ _ _"]
       split: sum.split option.split)

lemma restore_locked_keeps:
  "config st = config st0 \<Longrightarrow> ClusterWatch st = ClusterWatch st0 \<Longrightarrow> keeps st0 (restore_locked rng G L C st)"
  unfolding restore_locked_def
  by (auto intro!: restore_body_keeps keeps_bind_pure [of "ProviderName _"] split: option.split prod.split sum.split)

lemma Restore_keeps: "keeps st (RestoreIPAMFromClusterState rng G L C st)"
  unfolding RestoreIPAMFromClusterState_def with_IPAM_lock_def
  by (auto intro!: keeps_bind [OF restore_locked_keeps] split: option.split)

lemma int64_id: "- (2 ^ 63) \<le> x \<Longrightarrow> x < 2 ^ 63 \<Longrightarrow> int64 x = x"
  by (simp add: int64_def sint_sbintrunc' signed_take_bit_int_eq_self)

lemma requeue_le:
  assumes "InternalStateRefreshCycleDuration (Spec cfg) = Some d" and "0 < d" and "d + Second < 2 ^ 63"
    and "since \<le> now_requeue t"
  shows "RequeueAfter (requeue since t cfg) \<le> d + Second"
proof -
  let ?s = "time_Since (now_requeue t) since"
  have s: "0 \<le> ?s" "?s < 2 ^ 63" using assms(4) by (auto simp: time_Since_def)
  then have "int64 (d - ?s) = d - ?s" using assms(2,3) by (intro int64_id) (auto simp: Second_def)
  moreover have "int64 (d - ?s + Second) = d - ?s + Second"
    using s assms(2,3) by (intro int64_id) (auto simp: Second_def)
  ultimately show ?thesis using assms(1,2) s by (simp add: requeue_def Let_def)
qed

lemma on_platform_only:
  assumes "on_platform f st = (a, st')"
  shows "st' = st\<lparr>platform := platform st'\<rparr>"
proof -
  obtain w where w: "st' = st\<lparr>platform := w\<rparr>"
    using assms by (cases "f (platform st)") (auto simp: on_platform_def)
  show ?thesis unfolding w by simp
qed

text \<open>How a successful reconciliation went: the config was stored, and the state refreshed if due.\<close>

lemma config_reconcile_ok:
  assumes "config_reconcile rng G L C t name c st = Ret (((Some cfg, rr, e), c'), st')"
  obtains st1 st2 where "store_config rng L C cfg st1 = Ret (None, st2)"
    and "refresh_state rng G L C t cfg c st2 = Ret (((Some cfg, rr, None), c'), st')"
    and "e = None" and "st1 = st\<lparr>platform := platform st1\<rparr>"
    and "name = cc_ProviderName c"
proof -
  have name: "name = cc_ProviderName c"
    using assms by (auto simp: config_reconcile_def split: if_splits)
  obtain r st0 where get: "on_platform (\<lambda>w. c_GetConfig C w name) st = (r, st0)" by force
  obtain cfg0 where cfg0: "r = Inr cfg0"
    using assms name get by (cases r) (auto simp: config_reconcile_def)
  have "\<exists>cfg1 st1. reconcile_stored rng G L C t cfg1 c st1 = Ret (((Some cfg, rr, e), c'), st') \<and>
      st1 = st0\<lparr>platform := platform st1\<rparr>"
  proof (cases "map_of (Annotations cfg0) OperationAnnotation = Some OperationAnnotationValueReconcile")
    case True
    obtain r1 st1 where rm: "on_platform (\<lambda>w. c_RemoveConfigAnnotation C w cfg0 OperationAnnotation) st0 = (r1, st1)"
      by force
    then obtain cfg1 where "r1 = Inr cfg1"
      using assms name get cfg0 True
      by (cases r1) (simp_all add: config_reconcile_def OperationAnnotationValueReconcile_def OperationAnnotationValueIgnore_def)
    then have "reconcile_stored rng G L C t cfg1 c st1 = Ret (((Some cfg, rr, e), c'), st')"
      using assms name get cfg0 True rm
      by (simp add: config_reconcile_def OperationAnnotationValueReconcile_def OperationAnnotationValueIgnore_def)
    then show ?thesis using on_platform_only [OF rm] by blast
  next
    case False
    then have "reconcile_stored rng G L C t cfg0 c st0 = Ret (((Some cfg, rr, e), c'), st')"
      using assms name get cfg0 by (simp add: config_reconcile_def split: option.split_asm if_splits)
    then show ?thesis by (intro exI [of _ cfg0] exI [of _ st0]) simp
  qed
  then obtain cfg1 st1 where stored: "reconcile_stored rng G L C t cfg1 c st1 = Ret (((Some cfg, rr, e), c'), st')"
    and "st1 = st0\<lparr>platform := platform st1\<rparr>" by blast
  moreover have "st0 = st\<lparr>platform := platform st0\<rparr>" by (rule on_platform_only [OF get])
  ultimately have st1: "st1 = st\<lparr>platform := platform st1\<rparr>" by (cases st; cases st0) simp
  obtain x st2 where s: "store_config rng L C cfg1 st1 = Ret (x, st2)"
    using stored by (auto simp: reconcile_stored_def)
  have x: "x = None" using stored s by (cases x) (auto simp: reconcile_stored_def)
  have refresh: "refresh_state rng G L C t cfg1 c st2 = Ret (((Some cfg, rr, e), c'), st')"
    using stored s x by (simp add: reconcile_stored_def)
  have "cfg1 = cfg \<and> e = None"
  proof (cases "refresh_due c t cfg1")
    case True
    then obtain y st3 where "RestoreIPAMFromClusterState rng G L C st2 = Ret (y, st3)"
      using refresh by (auto simp: refresh_state_def)
    then show ?thesis using refresh True by (cases y) (auto simp: refresh_state_def Let_def)
  qed (use refresh in \<open>auto simp: refresh_state_def\<close>)
  then show thesis using that [OF _ _ _ st1] s x refresh name by auto
qed

lemma refresh_state_ok:
  assumes "refresh_state rng G L C t cfg c st = Ret (((Some cfg, rr, None), c'), st')"
  shows "rr = requeue (lastRefreshTime c') t cfg"
    and "config st' = config st" and "ClusterWatch st' = ClusterWatch st"
proof -
  have "rr = requeue (lastRefreshTime c') t cfg \<and> config st' = config st \<and> ClusterWatch st' = ClusterWatch st"
  proof (cases "refresh_due c t cfg")
    case True
    then obtain e st1 where r: "RestoreIPAMFromClusterState rng G L C st = Ret (e, st1)"
      using assms by (auto simp: refresh_state_def)
    then show ?thesis
      using assms True Restore_keeps [of st rng G L C] by (cases e) (auto simp: refresh_state_def Let_def)
  qed (use assms in \<open>auto simp: refresh_state_def\<close>)
  then show "rr = requeue (lastRefreshTime c') t cfg" "config st' = config st" "ClusterWatch st' = ClusterWatch st"
    by simp_all
qed



section \<open>Witnesses\<close>

definition rule_all :: CIDRInjection where
  "rule_all = \<lparr>rule_ID = ''r'', rule_Selector = sim_selector, rule_Injections = []\<rparr>"

definition cfg_cycle :: IPAMConfig where
  "cfg_cycle = cfg_restore\<lparr>Spec := \<lparr>ParentCIDRs = [(''main'', [''10.0.0.0/16''])], InjectionRules = [rule_all],
     InternalStateRefreshCycleDuration = Some (10 * Second)\<rparr>\<rparr>"

definition st_cycle :: "(sim, world) shared" where
  "st_cycle = SetConfig None (sim_state [] \<lparr>w_clusters = [sim_cluster ''c''], w_ccs = [], w_config = Some cfg_cycle\<rparr>)"

definition ctl_cycle :: IPAMConfigController where
  "ctl_cycle = \<lparr>cc_ProviderName = ''p'', cc_er = True, lastRefreshTime = 0\<rparr>"

definition clock_cycle :: clock where
  "clock_cycle = \<lparr>now_check = 20 * Second, now_refreshed = 21 * Second, now_requeue = 22 * Second\<rparr>"

lemma reconcile_cycle:
  obtains c st where "config_reconcile insertion_order sim_goipam sim_lib sim_client clock_cycle ''p'' ctl_cycle st_cycle =
      Ret (((Some cfg_cycle, \<lparr>RequeueAfter = 10 * Second\<rparr>, None), c), st)"
    and "lastRefreshTime c = 21 * Second" and "ClusterWatch st = [sim_cluster ''c'']"
proof -
  let ?r = "config_reconcile insertion_order sim_goipam sim_lib sim_client clock_cycle ''p'' ctl_cycle st_cycle"
  have "(case ?r of Ret (((Some cfg, rr, None), c), st) \<Rightarrow> cfg = cfg_cycle \<and> rr = \<lparr>RequeueAfter = 10 * Second\<rparr> \<and>
      lastRefreshTime c = 21 * Second \<and> ClusterWatch st = [sim_cluster ''c''] | _ \<Rightarrow> False)"
    by code_simp
  then show thesis using that by (auto split: go.splits prod.splits option.splits)
qed



end
