(* ===== verification/App.thy ===== *)
theory App
  imports Cluster_Controller Config_Controller
begin

text \<open>
  \<^verbatim>\<open>cmd/platform-service-gardener-ipam/app\<close>: the options of the two commands, and what
  \<^verbatim>\<open>init\<close> and \<^verbatim>\<open>run\<close> do in which order.  The outcomes of the calls into
  the process environment and into controller-runtime are the record \<open>app_env\<close>; the calls
  themselves are recorded in the order in which they are made.
\<close>

section \<open>Options\<close>

record RawSharedOptions =
  opt_Environment :: string
  opt_ProviderName :: string
  opt_DryRun :: bool
  opt_WebhooksDisabled :: bool

record RawRunOptions =
  MetricsAddr :: string
  MetricsCertPath :: string
  MetricsCertName :: string
  MetricsCertKey :: string
  WebhookCertPath :: string
  WebhookCertName :: string
  WebhookCertKey :: string
  EnableLeaderElection :: bool
  ProbeAddr :: string
  PprofAddr :: string
  SecureMetrics :: bool
  EnableHTTP2 :: bool
  Controllers :: "string list"

datatype tls_option = DisableHTTP2 | GetWebhookCertificate | GetMetricsCertificate

record metrics_options =
  BindAddress :: string
  SecureServing :: bool
  MetricsTLSOpts :: "tls_option list"
  AuthFilter :: bool

text \<open>A certificate watcher is described by the directory and the two files it watches.\<close>

type_synonym cert_watcher = "string \<times> string \<times> string"

record RunOptions =
  ro_Shared :: RawSharedOptions
  ro_Raw :: RawRunOptions
  TLSOpts :: "tls_option list"
  WebhookTLSOpts :: "tls_option list"
  MetricsServerOptions :: metrics_options
  MetricsCertWatcher :: "cert_watcher option"
  WebhookCertWatcher :: "cert_watcher option"
  ProviderNamespace :: string

text \<open>The calls on the manager, and those of the \<^verbatim>\<open>init\<close> command.\<close>

datatype setup_step =
    SetupConfigController | SetupClusterController | SetupConfigValidator | SetupReferenceInjector
  | AddMetricsCertWatcher | AddWebhookCertWatcher | AddHealthz | AddReadyz | StartManager

record webhook_type =
  wt_Kind :: string
  wt_Validator :: bool
  wt_Defaulter :: bool
  wt_IgnoreFailures :: bool

record install_options =
  io_ServiceName :: string
  io_SecretName :: string
  io_Namespace :: string
  io_ServicePort :: int
  io_TargetPort :: int
  io_SelectorLabels :: "string gomap"

datatype init_step =
    CreateOrUpdateCRDs
  | GenerateCertificate string string string
  | InstallWebhooks "webhook_type list" install_options
  | UninstallWebhooks "webhook_type list" install_options

record app_env =
  EnvVariablePodNamespace :: string
  Getenv :: "string \<Rightarrow> string"
  GetLogger :: "goerr option"
  InitializeRESTConfig :: "goerr option"
  InitializeClient :: "goerr option"
  NewManager :: "RunOptions \<Rightarrow> goerr option"
  NewCertWatcher :: "cert_watcher \<Rightarrow> goerr option"
  SetupOutcome :: "setup_step \<Rightarrow> goerr option"
  InitOutcome :: "init_step \<Rightarrow> goerr option"
  WebhookSecretName :: "string \<Rightarrow> string result"
  ShortenToXCharactersUnsafe :: "string \<Rightarrow> nat \<Rightarrow> string"

definition PodNamespace :: "app_env \<Rightarrow> string" where
  "PodNamespace E = Getenv E (EnvVariablePodNamespace E)"

definition SharedOptions_Complete ::
  "app_env \<Rightarrow> RawSharedOptions \<Rightarrow> ('s, 'w) shared \<Rightarrow> (goerr option \<times> ('s, 'w) shared) go" where
  "SharedOptions_Complete E so st =
     (if opt_Environment so = [] then Ret (Some (Errorf ''environment must not be empty'' [] None), st)
      else go_bind (SetEnvironment (opt_Environment so) st) (\<lambda>st1.
        if opt_ProviderName so = [] then Ret (Some (Errorf ''provider-name must not be empty'' [] None), st1)
        else go_bind (SetProviderName (opt_ProviderName so) st1) (\<lambda>st2.
          case GetLogger E of
            Some e \<Rightarrow> Ret (Some e, st2)
          | None \<Rightarrow> Ret (InitializeRESTConfig E, st2))))"

text \<open>The TLS options and certificate watchers of the two servers.\<close>

definition complete_webhook :: "app_env \<Rightarrow> RunOptions \<Rightarrow> RunOptions result" where
  "complete_webhook E ro =
     (let raw = ro_Raw ro;
          ro1 = (if \<not> EnableHTTP2 raw then ro\<lparr>TLSOpts := TLSOpts ro @ [DisableHTTP2]\<rparr> else ro);
          ro2 = ro1\<lparr>WebhookTLSOpts := TLSOpts ro1\<rparr>;
          w = (WebhookCertPath raw, WebhookCertName raw, WebhookCertKey raw)
      in if 0 < length (WebhookCertPath raw) then
           (case NewCertWatcher E w of
              Some e \<Rightarrow> Inl (Errorf ''failed to initialize webhook certificate watcher'' [] (Some e))
            | None \<Rightarrow> Inr (ro2\<lparr>WebhookCertWatcher := Some w,
                         WebhookTLSOpts := WebhookTLSOpts ro2 @ [GetWebhookCertificate]\<rparr>))
         else Inr ro2)"

definition complete_metrics :: "app_env \<Rightarrow> RunOptions \<Rightarrow> RunOptions result" where
  "complete_metrics E ro =
     (let raw = ro_Raw ro;
          mo = \<lparr>BindAddress = MetricsAddr raw, SecureServing = SecureMetrics raw, MetricsTLSOpts = TLSOpts ro,
                AuthFilter = SecureMetrics raw\<rparr>;
          w = (MetricsCertPath raw, MetricsCertName raw, MetricsCertKey raw)
      in if 0 < length (MetricsCertPath raw) then
           (case NewCertWatcher E w of
              Some e \<Rightarrow> Inl (Errorf ''failed to initialize metrics certificate watcher'' [] (Some e))
            | None \<Rightarrow> Inr (ro\<lparr>MetricsCertWatcher := Some w, MetricsServerOptions :=
                         mo\<lparr>MetricsTLSOpts := MetricsTLSOpts mo @ [GetMetricsCertificate]\<rparr>\<rparr>))
         else Inr (ro\<lparr>MetricsServerOptions := mo\<rparr>))"

definition RunOptions_Complete ::
  "app_env \<Rightarrow> RunOptions \<Rightarrow> ('s, 'w) shared \<Rightarrow> (RunOptions result \<times> ('s, 'w) shared) go" where
  "RunOptions_Complete E ro st =
     go_bind (SharedOptions_Complete E (ro_Shared ro) st) (\<lambda>(e, st1).
       case e of
         Some err \<Rightarrow> Ret (Inl err, st1)
       | None \<Rightarrow>
           if PodNamespace E = [] then
             Ret (Inl (Errorf ''environment variable must be set'' [EnvVariablePodNamespace E] None), st1)
           else
             (case complete_webhook E (ro\<lparr>ProviderNamespace := PodNamespace E\<rparr>) of
                Inl err \<Rightarrow> Ret (Inl err, st1)
              | Inr ro1 \<Rightarrow> Ret (complete_metrics E ro1, st1)))"

section \<open>The run command\<close>

text \<open>A call on the manager that ends the command when it fails.\<close>

definition setup_call ::
  "app_env \<Rightarrow> setup_step \<Rightarrow> string \<Rightarrow> (setup_step list \<Rightarrow> (goerr option \<times> setup_step list) go) \<Rightarrow>
     setup_step list \<Rightarrow> (goerr option \<times> setup_step list) go" where
  "setup_call E s msg k done_steps =
     (case SetupOutcome E s of
        Some e \<Rightarrow> Ret (Some (Errorf msg [] (Some e)), done_steps @ [s])
      | None \<Rightarrow> k (done_steps @ [s]))"

definition when_call ::
  "bool \<Rightarrow> ((setup_step list \<Rightarrow> (goerr option \<times> setup_step list) go) \<Rightarrow> setup_step list \<Rightarrow> (goerr option \<times> setup_step list) go) \<Rightarrow>
     (setup_step list \<Rightarrow> (goerr option \<times> setup_step list) go) \<Rightarrow> setup_step list \<Rightarrow> (goerr option \<times> setup_step list) go" where
  "when_call b call k = (if b then call k else k)"

text \<open>Setting up the cluster controller reads the names of the provider and the environment, which
  panic when they are not set.\<close>

definition setup_cluster_controller ::
  "app_env \<Rightarrow> ('s, 'w) shared \<Rightarrow> (setup_step list \<Rightarrow> (goerr option \<times> setup_step list) go) \<Rightarrow>
     setup_step list \<Rightarrow> (goerr option \<times> setup_step list) go" where
  "setup_cluster_controller E st k done_steps =
     go_bind (ProviderName st) (\<lambda>_. go_bind (Environment st) (\<lambda>_.
       setup_call E SetupClusterController ''unable to add Cluster reconciler to manager'' k done_steps))"

definition manager_calls ::
  "app_env \<Rightarrow> RunOptions \<Rightarrow> ('s, 'w) shared \<Rightarrow> setup_step list \<Rightarrow> (goerr option \<times> setup_step list) go" where
  "manager_calls E ro st =
     setup_call E SetupConfigController ''unable to add IPAMConfig reconciler to manager'' (
     setup_cluster_controller E st (
     when_call (\<not> opt_WebhooksDisabled (ro_Shared ro)) (\<lambda>k.
       setup_call E SetupConfigValidator ''unable to set up IPAMConfig validation webhook'' (
       setup_call E SetupReferenceInjector ''unable to set up Cluster reference injection webhook'' k)) (
     when_call (MetricsCertWatcher ro \<noteq> None)
       (setup_call E AddMetricsCertWatcher ''unable to add metrics certificate watcher to manager'') (
     when_call (WebhookCertWatcher ro \<noteq> None)
       (setup_call E AddWebhookCertWatcher ''unable to add webhook certificate watcher to manager'') (
     setup_call E AddHealthz ''unable to set up health check'' (
     setup_call E AddReadyz ''unable to set up ready check'' (
     setup_call E StartManager ''problem running manager'' (\<lambda>done_steps. Ret (None, done_steps)))))))))"

definition Run ::
  "range_order \<Rightarrow> 's goipam \<Rightarrow> lib \<Rightarrow> 'w platform_client \<Rightarrow> app_env \<Rightarrow> RunOptions \<Rightarrow> ('s, 'w) shared \<Rightarrow>
     ((goerr option \<times> setup_step list) \<times> ('s, 'w) shared) go" where
  "Run rng G L C E ro st =
     (case InitializeClient E of
        Some e \<Rightarrow> Ret ((Some e, []), st)
      | None \<Rightarrow>
      (case NewManager E ro of
        Some e \<Rightarrow> Ret ((Some (Errorf ''unable to create manager'' [] (Some e)), []), st)
      | None \<Rightarrow>
      (case on_platform (\<lambda>w. c_GetConfig C w (opt_ProviderName (ro_Shared ro))) st of
        (Inl e, st1) \<Rightarrow>
          Ret ((Some (Errorf (if is_api_not_found e then ''GardenerIPAMConfig not found'' else ''error getting GardenerIPAMConfig'')
                  [opt_ProviderName (ro_Shared ro)] (Some e)), []), st1)
      | (Inr svcCfg, st1) \<Rightarrow>
          go_bind (RestoreIPAMFromClusterState rng G L C (SetConfig (Some svcCfg) st1)) (\<lambda>(e, st2).
            case e of
              Some err \<Rightarrow> Ret ((Some (Errorf ''error restoring IPAM state from cluster'' [] (Some err)), []), st2)
            | None \<Rightarrow> go_bind (manager_calls E ro st2 []) (\<lambda>r. Ret (r, st2))))))"

text \<open>The \<^verbatim>\<open>Run\<close> function of the command, which panics on an error; what it prints is
  added in \<^theory_text>\<open>Commands\<close>.\<close>

definition run_command ::
  "range_order \<Rightarrow> 's goipam \<Rightarrow> lib \<Rightarrow> 'w platform_client \<Rightarrow> app_env \<Rightarrow> RunOptions \<Rightarrow> ('s, 'w) shared \<Rightarrow>
     (setup_step list \<times> ('s, 'w) shared) go" where
  "run_command rng G L C E opts st =
     go_bind (RunOptions_Complete E opts st) (\<lambda>(r, st1).
       case r of
         Inl _ \<Rightarrow> Panic (PanicMessage ''error completing options'')
       | Inr ro \<Rightarrow>
           if opt_DryRun (ro_Shared ro) then Ret ([], st1)
           else go_bind (Run rng G L C E ro st1) (\<lambda>((e, steps), st2).
             case e of Some _ \<Rightarrow> Panic (PanicMessage ''run'') | None \<Rightarrow> Ret (steps, st2)))"

section \<open>The init command\<close>

definition WebhookPortPod :: int where
  "WebhookPortPod = 9443"

definition WebhookPortSvc :: int where
  "WebhookPortSvc = 443"

definition webhook_suffix :: string where
  "webhook_suffix = ''-webhook''"

definition whServiceName :: "app_env \<Rightarrow> lib \<Rightarrow> string \<Rightarrow> string" where
  "whServiceName E L name =
     ShortenToXCharactersUnsafe E name (K8sMaxNameLength L - length webhook_suffix) @ webhook_suffix"

definition installOpts :: "string \<Rightarrow> string \<Rightarrow> string \<Rightarrow> string \<Rightarrow> install_options" where
  "installOpts svc secret ns name =
     \<lparr>io_ServiceName = svc, io_SecretName = secret, io_Namespace = ns, io_ServicePort = WebhookPortSvc,
      io_TargetPort = WebhookPortPod,
      io_SelectorLabels =
        [(''app.kubernetes.io/component'', ''controller''), (''app.kubernetes.io/managed-by'', ''openmcp-operator''),
         (''app.kubernetes.io/name'', ''PlatformService''), (''app.kubernetes.io/instance'', name)]\<rparr>"

definition webhookTypes :: "webhook_type list" where
  "webhookTypes =
     [\<lparr>wt_Kind = ''IPAMConfig'', wt_Validator = True, wt_Defaulter = False, wt_IgnoreFailures = True\<rparr>,
      \<lparr>wt_Kind = ''Cluster'', wt_Validator = False, wt_Defaulter = True, wt_IgnoreFailures = False\<rparr>]"

definition init_call ::
  "app_env \<Rightarrow> init_step \<Rightarrow> string \<Rightarrow> (init_step list \<Rightarrow> goerr option \<times> init_step list) \<Rightarrow>
     init_step list \<Rightarrow> goerr option \<times> init_step list" where
  "init_call E s msg k done_steps =
     (case InitOutcome E s of
        Some e \<Rightarrow> (Some (Errorf msg [] (Some e)), done_steps @ [s])
      | None \<Rightarrow> k (done_steps @ [s]))"

definition InitOptions_Run :: "app_env \<Rightarrow> lib \<Rightarrow> RawSharedOptions \<Rightarrow> goerr option \<times> init_step list" where
  "InitOptions_Run E L so =
     (case InitializeClient E of
        Some e \<Rightarrow> (Some e, [])
      | None \<Rightarrow>
          init_call E CreateOrUpdateCRDs ''error creating/updating CRDs'' (\<lambda>s.
            if PodNamespace E = [] then (Some (Errorf ''environment variable is not set'' [EnvVariablePodNamespace E] None), s)
            else (case WebhookSecretName E (opt_ProviderName so) of
              Inl e \<Rightarrow> (Some (Errorf ''unable to determine webhook secret name'' [] (Some e)), s)
            | Inr secret \<Rightarrow>
                let svc = whServiceName E L (opt_ProviderName so);
                    opts = installOpts svc secret (PodNamespace E) (opt_ProviderName so)
                in if \<not> opt_WebhooksDisabled so then
                     init_call E (GenerateCertificate svc secret (PodNamespace E)) ''unable to generate webhook certificate''
                       (init_call E (InstallWebhooks webhookTypes opts) ''unable to install webhooks'' (\<lambda>s. (None, s))) s
                   else init_call E (UninstallWebhooks webhookTypes opts) ''unable to uninstall webhooks'' (\<lambda>s. (None, s)) s)) [])"

text \<open>The \<^verbatim>\<open>Run\<close> function of the command.\<close>

definition init_command ::
  "app_env \<Rightarrow> lib \<Rightarrow> RawSharedOptions \<Rightarrow> ('s, 'w) shared \<Rightarrow> (init_step list \<times> ('s, 'w) shared) go" where
  "init_command E L so st =
     go_bind (SharedOptions_Complete E so st) (\<lambda>(e, st1).
       case e of
         Some _ \<Rightarrow> Panic (PanicMessage ''error completing options'')
       | None \<Rightarrow>
           if opt_DryRun so then Ret ([], st1)
           else (case InitOptions_Run E L so of
                   (Some _, _) \<Rightarrow> Panic (PanicMessage ''init'')
                 | (None, steps) \<Rightarrow> Ret (steps, st1)))"

section \<open>Laws\<close>

text \<open>The calls of a sequence up to the first that fails, which is the last one made.\<close>

fun until_error :: "('a \<Rightarrow> goerr option) \<Rightarrow> 'a list \<Rightarrow> 'a list" where
  "until_error f [] = []"
| "until_error f (x # xs) = x # (if f x = None then until_error f xs else [])"

definition setup_sequence :: "RunOptions \<Rightarrow> setup_step list" where
  "setup_sequence ro =
     [SetupConfigController, SetupClusterController] @
     (if \<not> opt_WebhooksDisabled (ro_Shared ro) then [SetupConfigValidator, SetupReferenceInjector] else []) @
     (if MetricsCertWatcher ro \<noteq> None then [AddMetricsCertWatcher] else []) @
     (if WebhookCertWatcher ro \<noteq> None then [AddWebhookCertWatcher] else []) @
     [AddHealthz, AddReadyz, StartManager]"

text \<open>A continuation of the set-up that makes the calls \<open>xs\<close> up to the first error.\<close>

definition makes_calls ::
  "app_env \<Rightarrow> setup_step list \<Rightarrow> (setup_step list \<Rightarrow> (goerr option \<times> setup_step list) go) \<Rightarrow> bool" where
  "makes_calls E xs k \<longleftrightarrow>
     (\<forall>ds. \<exists>e. k ds = Ret (e, ds @ until_error (SetupOutcome E) xs) \<and>
        (e = None \<longleftrightarrow> (\<forall>s \<in> set xs. SetupOutcome E s = None)))"

lemma makes_calls_end: "makes_calls E [] (\<lambda>ds. Ret (None, ds))"
  by (simp add: makes_calls_def)

lemma makes_calls_step:
  assumes "makes_calls E xs k"
  shows "makes_calls E (s # xs) (setup_call E s msg k)"
  unfolding makes_calls_def
proof
  fix ds
  show "\<exists>e. setup_call E s msg k ds = Ret (e, ds @ until_error (SetupOutcome E) (s # xs)) \<and>
    (e = None \<longleftrightarrow> (\<forall>s \<in> set (s # xs). SetupOutcome E s = None))"
    using spec [OF assms [unfolded makes_calls_def], of "ds @ [s]"]
    by (cases "SetupOutcome E s") (simp_all add: setup_call_def)
qed

lemma makes_calls_when:
  "makes_calls E xs k \<Longrightarrow> makes_calls E ((if b then [s] else []) @ xs) (when_call b (setup_call E s msg) k)"
  by (simp add: when_call_def makes_calls_step)

lemma makes_calls_webhooks:
  "makes_calls E xs k \<Longrightarrow>
   makes_calls E ((if b then [s, s'] else []) @ xs) (when_call b (\<lambda>k. setup_call E s msg (setup_call E s' msg' k)) k)"
  by (simp add: when_call_def makes_calls_step)

lemma makes_calls_cluster:
  "makes_calls E xs k \<Longrightarrow> configured st \<Longrightarrow> makes_calls E (SetupClusterController # xs) (setup_cluster_controller E st k)"
  using makes_calls_step [of E xs k SetupClusterController]
  by (simp add: makes_calls_def setup_cluster_controller_def configured_def ProviderName_def Environment_def)

lemma manager_calls_sequence:
  assumes "manager_calls E ro st [] = Ret (e, steps)"
  shows "steps = until_error (SetupOutcome E) (setup_sequence ro) \<and>
    (e = None \<longleftrightarrow> (\<forall>s \<in> set (setup_sequence ro). SetupOutcome E s = None))"
proof (cases "SetupOutcome E SetupConfigController")
  case None
  then have "configured st"
    using assms by (auto simp: manager_calls_def setup_call_def setup_cluster_controller_def
        configured_def ProviderName_def Environment_def split: if_splits)
  then have "makes_calls E (setup_sequence ro) (manager_calls E ro st)"
    unfolding setup_sequence_def manager_calls_def append_Cons append_Nil
    by (intro makes_calls_end makes_calls_step makes_calls_when makes_calls_cluster makes_calls_webhooks)
  from spec [OF this [unfolded makes_calls_def], of "[]"] show ?thesis using assms by auto
next
  case (Some e)
  then show ?thesis using assms by (auto simp: manager_calls_def setup_call_def setup_sequence_def)
qed

lemma setup_sequence_not_Nil [simp]: "setup_sequence ro \<noteq> []" "until_error f (setup_sequence ro) \<noteq> []"
  by (simp_all add: setup_sequence_def)

text \<open>How a run that reached the manager came about.\<close>

lemma Run_steps:
  assumes "Run rng G L C E ro st = Ret ((e, steps), st')" and "steps \<noteq> []"
  obtains w cfg where
      "RestoreIPAMFromClusterState rng G L C (st\<lparr>platform := w, config := Some cfg\<rparr>) = Ret (None, st')"
    and "config st' = Some cfg" and "\<exists>w n w'. c_GetConfig C w n = (Inr cfg, w')"
    and "manager_calls E ro st' [] = Ret (e, steps)"
proof -
  have env: "InitializeClient E = None" "NewManager E ro = None"
    using assms by (auto simp: Run_def split: option.splits)
  let ?name = "opt_ProviderName (ro_Shared ro)"
  obtain r st1 where get: "on_platform (\<lambda>w. c_GetConfig C w ?name) st = (r, st1)" by force
  obtain cfg where cfg: "r = Inr cfg" using assms env get by (cases r) (simp_all add: Run_def)
  have st1: "SetConfig (Some cfg) st1 = st\<lparr>platform := platform st1, config := Some cfg\<rparr>"
  proof -
    obtain w where w: "st1 = st\<lparr>platform := w\<rparr>" using on_platform_only [OF get] by blast
    show ?thesis unfolding w SetConfig_def by simp
  qed
  obtain x st2 where rest: "RestoreIPAMFromClusterState rng G L C (SetConfig (Some cfg) st1) = Ret (x, st2)"
    using assms env get cfg by (auto simp: Run_def)
  have x: "x = None" using assms env get cfg rest by (cases x) (simp_all add: Run_def)
  have set: "manager_calls E ro st2 [] = Ret (e, steps)" "st' = st2"
    using assms env get cfg rest x by (auto simp: Run_def)
  have "config st2 = Some cfg" using Restore_keeps [of "SetConfig (Some cfg) st1" rng G L C] rest by (simp add: SetConfig_def)
  moreover have "\<exists>w n w'. c_GetConfig C w n = (Inr cfg, w')"
  proof -
    obtain a w' where g: "c_GetConfig C (platform st) ?name = (a, w')" by force
    then have "a = Inr cfg" using get cfg by (simp add: on_platform_def)
    then show ?thesis using g by blast
  qed
  moreover have "RestoreIPAMFromClusterState rng G L C (st\<lparr>platform := platform st1, config := Some cfg\<rparr>) = Ret (None, st2)"
    using rest x by (simp only: st1)
  ultimately show thesis using that [of cfg "platform st1"] set by simp
qed

text \<open>Nothing is registered with the manager before the IPAM state has been restored. If the run
  command makes a call on the manager, then the config was read and stored and the restoration of
  the IPAM state with this config succeeded; then the calls are made in a fixed order (controllers,
  webhooks unless disabled, certificate watchers, probes, start), up to the first that fails, and the
  command succeeds exactly if none does.\<close>

theorem Run_order:
  assumes "Run rng G L C E ro st = Ret ((e, steps), st')" and "steps \<noteq> []"
  shows "\<exists>w cfg. config st' = Some cfg \<and>
      RestoreIPAMFromClusterState rng G L C (st\<lparr>platform := w, config := Some cfg\<rparr>) = Ret (None, st') \<and>
      steps = until_error (SetupOutcome E) (setup_sequence ro) \<and>
      (e = None \<longleftrightarrow> (\<forall>s \<in> set (setup_sequence ro). SetupOutcome E s = None))"
proof (rule Run_steps [OF assms])
  fix w cfg
  assume "RestoreIPAMFromClusterState rng G L C (st\<lparr>platform := w, config := Some cfg\<rparr>) = Ret (None, st')"
    and "config st' = Some cfg" and "manager_calls E ro st' [] = Ret (e, steps)"
  then show ?thesis using manager_calls_sequence by blast
qed


text \<open>C31: completing the options in a fresh process never panics. If it succeeds, the provider and the
  environment have the names of the options, so that nothing that reads them panics; and HTTP/2 is
  disabled for the webhook server and for the metrics server unless it is enabled explicitly.\<close>

theorem RunOptions_Complete_configures:
  assumes "TLSOpts ro = []"
  shows "\<exists>r st. RunOptions_Complete E ro (shared_init w :: ('s, 'w) shared) = Ret (r, st) \<and>
    (\<forall>ro'. r = Inr ro' \<longrightarrow> configured st \<and> providerName st = opt_ProviderName (ro_Shared ro) \<and>
       environment st = opt_Environment (ro_Shared ro) \<and> ro_Shared ro' = ro_Shared ro \<and>
       DisableHTTP2 \<in> set (WebhookTLSOpts ro') = (\<not> EnableHTTP2 (ro_Raw ro)) \<and>
       DisableHTTP2 \<in> set (MetricsTLSOpts (MetricsServerOptions ro')) = (\<not> EnableHTTP2 (ro_Raw ro)))"
proof -
  let ?st = "(shared_init w :: ('s, 'w) shared)\<lparr>environment := opt_Environment (ro_Shared ro), providerName := opt_ProviderName (ro_Shared ro)\<rparr>"
  obtain e st where c: "SharedOptions_Complete E (ro_Shared ro) (shared_init w :: ('s, 'w) shared) = Ret (e, st)"
    and e: "e = None \<longrightarrow> st = ?st \<and> configured ?st"
    by (cases "opt_Environment (ro_Shared ro) = []"; cases "opt_ProviderName (ro_Shared ro) = []"; cases "GetLogger E")
      (auto simp: SharedOptions_Complete_def SetEnvironment_def SetProviderName_def shared_init_def configured_def
        split: option.split)
  let ?ro = "ro\<lparr>ProviderNamespace := PodNamespace E\<rparr>"
  have wh: "ro_Shared ro1 = ro_Shared ro \<and> ro_Raw ro1 = ro_Raw ro \<and>
      TLSOpts ro1 = (if EnableHTTP2 (ro_Raw ro) then [] else [DisableHTTP2]) \<and>
      DisableHTTP2 \<in> set (WebhookTLSOpts ro1) = (\<not> EnableHTTP2 (ro_Raw ro))"
    if "complete_webhook E ?ro = Inr ro1" for ro1
    using that assms by (auto simp: complete_webhook_def Let_def split: if_splits option.splits)
  have mt: "ro_Shared ro2 = ro_Shared ro1 \<and> WebhookTLSOpts ro2 = WebhookTLSOpts ro1 \<and>
      (DisableHTTP2 \<in> set (MetricsTLSOpts (MetricsServerOptions ro2)) \<longleftrightarrow> DisableHTTP2 \<in> set (TLSOpts ro1))"
    if "complete_metrics E ro1 = Inr ro2" for ro1 ro2
    using that by (auto simp: complete_metrics_def Let_def split: if_splits option.splits)
  have eq: "RunOptions_Complete E ro (shared_init w :: ('s, 'w) shared) =
      (case e of Some err \<Rightarrow> Ret (Inl err, st)
       | None \<Rightarrow> if PodNamespace E = [] then
             Ret (Inl (Errorf ''environment variable must be set'' [EnvVariablePodNamespace E] None), st)
           else (case complete_webhook E ?ro of Inl err \<Rightarrow> Ret (Inl err, st) | Inr ro1 \<Rightarrow> Ret (complete_metrics E ro1, st)))"
    by (simp add: RunOptions_Complete_def c)
  show ?thesis
  proof (cases "e = None \<and> PodNamespace E \<noteq> []")
    case False
    then show ?thesis unfolding eq by (cases e) auto
  next
    case True
    show ?thesis
    proof (cases "complete_webhook E ?ro")
      case (Inl x)
      then show ?thesis unfolding eq using True by auto
    next
      case (Inr ro1)
      have st: "configured st" "providerName st = opt_ProviderName (ro_Shared ro)"
          "environment st = opt_Environment (ro_Shared ro)"
        using True e by auto
      have r: "RunOptions_Complete E ro (shared_init w :: ('s, 'w) shared) = Ret (complete_metrics E ro1, st)"
        unfolding eq using True Inr by simp
      have "configured st \<and> providerName st = opt_ProviderName (ro_Shared ro) \<and>
          environment st = opt_Environment (ro_Shared ro) \<and> ro_Shared ro' = ro_Shared ro \<and>
          DisableHTTP2 \<in> set (WebhookTLSOpts ro') = (\<not> EnableHTTP2 (ro_Raw ro)) \<and>
          DisableHTTP2 \<in> set (MetricsTLSOpts (MetricsServerOptions ro')) = (\<not> EnableHTTP2 (ro_Raw ro))"
        if "complete_metrics E ro1 = Inr ro'" for ro'
        using st wh [OF Inr] mt [OF that] by simp
      then show ?thesis using r by blast
    qed
  qed
qed

definition init_sequence :: "app_env \<Rightarrow> lib \<Rightarrow> string \<Rightarrow> RawSharedOptions \<Rightarrow> init_step list" where
  "init_sequence E L secret so =
     (let svc = whServiceName E L (opt_ProviderName so);
          opts = installOpts svc secret (PodNamespace E) (opt_ProviderName so)
      in CreateOrUpdateCRDs #
         (if opt_WebhooksDisabled so then [UninstallWebhooks webhookTypes opts]
          else [GenerateCertificate svc secret (PodNamespace E), InstallWebhooks webhookTypes opts]))"

text \<open>The init command makes its calls in a fixed order up to the first that fails. It never
  deploys webhooks before the CRDs; with the webhooks disabled it removes exactly the resources the
  other mode deploys, and creates no certificate; and the name of the service fits into the limit
  of Kubernetes if the shortened provider name does.\<close>

theorem InitOptions_Run_sequence:
  assumes "PodNamespace E \<noteq> []" and "WebhookSecretName E (opt_ProviderName so) = Inr secret" and "InitializeClient E = None"
    and "\<forall>s n. length (ShortenToXCharactersUnsafe E s n) \<le> n" and "length webhook_suffix \<le> K8sMaxNameLength L"
  shows "snd (InitOptions_Run E L so) = until_error (InitOutcome E) (init_sequence E L secret so) \<and>
    (fst (InitOptions_Run E L so) = None \<longleftrightarrow> (\<forall>s \<in> set (init_sequence E L secret so). InitOutcome E s = None)) \<and>
    length (whServiceName E L (opt_ProviderName so)) \<le> K8sMaxNameLength L"
proof -
  have "length (ShortenToXCharactersUnsafe E (opt_ProviderName so) (K8sMaxNameLength L - length webhook_suffix))
      \<le> K8sMaxNameLength L - length webhook_suffix" using assms(4) by blast
  then have "length (whServiceName E L (opt_ProviderName so)) \<le> K8sMaxNameLength L"
    using assms(5) unfolding whServiceName_def length_append by linarith
  then show ?thesis
    using assms(1-3) by (simp add: InitOptions_Run_def init_sequence_def init_call_def Let_def split: option.split)
qed

section \<open>Witnesses\<close>

definition env_test :: app_env where
  "env_test = \<lparr>EnvVariablePodNamespace = ''NS'', Getenv = (\<lambda>_. ''system''), GetLogger = None, InitializeRESTConfig = None,
     InitializeClient = None, NewManager = (\<lambda>_. None), NewCertWatcher = (\<lambda>_. None),
     SetupOutcome = (\<lambda>s. if s = AddReadyz then Some (LibError ''duplicate'') else None), InitOutcome = (\<lambda>_. None),
     WebhookSecretName = (\<lambda>n. Inr (n @ ''-tls'')), ShortenToXCharactersUnsafe = (\<lambda>s n. take n s)\<rparr>"

definition opts_test :: RunOptions where
  "opts_test =
     \<lparr>ro_Shared = \<lparr>opt_Environment = ''e'', opt_ProviderName = ''p'', opt_DryRun = False, opt_WebhooksDisabled = False\<rparr>,
      ro_Raw = \<lparr>MetricsAddr = ''0'', MetricsCertPath = [], MetricsCertName = ''tls.crt'', MetricsCertKey = ''tls.key'',
        WebhookCertPath = ''/certs'', WebhookCertName = ''tls.crt'', WebhookCertKey = ''tls.key'', EnableLeaderElection = False,
        ProbeAddr = '':8081'', PprofAddr = [], SecureMetrics = True, EnableHTTP2 = False, Controllers = []\<rparr>,
      TLSOpts = [], WebhookTLSOpts = [], MetricsServerOptions = \<lparr>BindAddress = [], SecureServing = False, MetricsTLSOpts = [], AuthFilter = False\<rparr>,
      MetricsCertWatcher = None, WebhookCertWatcher = Some (''/certs'', ''tls.crt'', ''tls.key''), ProviderNamespace = []\<rparr>"

definition st_boot :: "(sim, world) shared" where
  "st_boot = (shared_init w_restore)\<lparr>environment := ''e'', providerName := ''p''\<rparr>"

lemma Run_boot:
  obtains e st where "Run insertion_order sim_goipam sim_lib sim_client env_test opts_test st_boot =
    Ret ((Some e, [SetupConfigController, SetupClusterController, SetupConfigValidator, SetupReferenceInjector,
      AddWebhookCertWatcher, AddHealthz, AddReadyz]), st)"
proof -
  let ?r = "Run insertion_order sim_goipam sim_lib sim_client env_test opts_test st_boot"
  have "(case ?r of Ret ((Some _, steps), _) \<Rightarrow> steps = [SetupConfigController, SetupClusterController, SetupConfigValidator,
      SetupReferenceInjector, AddWebhookCertWatcher, AddHealthz, AddReadyz] | _ \<Rightarrow> False)"
    by code_simp
  then show thesis using that by (auto split: go.splits prod.splits option.splits)
qed

theorem Run_order_witness:
  "case Run insertion_order sim_goipam sim_lib sim_client env_test opts_test st_boot of
     Ret ((e, steps), st) \<Rightarrow> e \<noteq> None \<and> config st \<noteq> None \<and> last (setup_sequence opts_test) \<notin> set steps
   | _ \<Rightarrow> False"
proof (rule Run_boot)
  fix e st
  assume r: "Run insertion_order sim_goipam sim_lib sim_client env_test opts_test st_boot =
    Ret ((Some e, [SetupConfigController, SetupClusterController, SetupConfigValidator, SetupReferenceInjector,
      AddWebhookCertWatcher, AddHealthz, AddReadyz]), st)"
  show ?thesis using Run_order [OF r] r by (auto simp: setup_sequence_def)
qed


theorem RunOptions_Complete_configures_witness:
  "case RunOptions_Complete env_test opts_test (shared_init w_restore :: (sim, world) shared) of
     Ret (Inr ro, st) \<Rightarrow> configured st \<and> DisableHTTP2 \<in> set (WebhookTLSOpts ro)
   | _ \<Rightarrow> False"
proof -
  have "TLSOpts opts_test = []" "\<not> EnableHTTP2 (ro_Raw opts_test)" by (simp_all add: opts_test_def)
  moreover have "(case RunOptions_Complete env_test opts_test (shared_init w_restore :: (sim, world) shared) of
      Ret (Inr _, _) \<Rightarrow> True | _ \<Rightarrow> False)" by code_simp
  ultimately show ?thesis
    using RunOptions_Complete_configures [of opts_test env_test w_restore, where 's = sim]
    by (auto split: go.splits sum.splits)
qed

theorem InitOptions_Run_sequence_witness:
  "snd (InitOptions_Run env_test sim_lib \<lparr>opt_Environment = ''e'', opt_ProviderName = ''p'', opt_DryRun = False, opt_WebhooksDisabled = True\<rparr>) =
   [CreateOrUpdateCRDs, UninstallWebhooks webhookTypes (installOpts ''p-webhook'' ''p-tls'' ''system'' ''p'')]"
proof -
  let ?so = "\<lparr>opt_Environment = ''e'', opt_ProviderName = ''p'', opt_DryRun = False, opt_WebhooksDisabled = True\<rparr>"
  have "snd (InitOptions_Run env_test sim_lib ?so) = until_error (InitOutcome env_test) (init_sequence env_test sim_lib ''p-tls'' ?so)"
    by (rule conjunct1 [OF InitOptions_Run_sequence])
      (simp_all add: env_test_def PodNamespace_def webhook_suffix_def)
  then show ?thesis
    by (simp add: env_test_def init_sequence_def whServiceName_def webhook_suffix_def PodNamespace_def Let_def)
qed

end
