(* ===== verification/Config_Validation.thy ===== *)
theory Config_Validation
  imports Shared_State
begin

text \<open>
  \<^verbatim>\<open>internal/webhooks/config-validation.go\<close>: the validating webhook of the configuration
  resource, and a declarative description of the configurations it accepts.
\<close>

section \<open>Field errors\<close>

text \<open>The parts of \<^verbatim>\<open>k8s.io/apimachinery/pkg/util/validation/field\<close> the validation uses:
  paths into the resource and the three kinds of errors, in lists.\<close>

datatype path_elem = Child string | Key string | Index nat

type_synonym field_path = "path_elem list"

datatype field_error =
    FieldInvalid field_path string string
  | FieldDuplicate field_path string
  | FieldRequired field_path string

text \<open>\<^verbatim>\<open>ErrorList.ToAggregate\<close> is nil for an empty list.\<close>

definition ToAggregate :: "field_error list \<Rightarrow> field_error list option" where
  "ToAggregate errs = (if errs = [] then None else Some errs)"

text \<open>The formats \<^verbatim>\<open>%d\<close> of an integer and \<^verbatim>\<open>%v\<close> of a list of strings.\<close>

definition fmt_d :: "int \<Rightarrow> string" where
  "fmt_d n = (if n < 0 then ''-'' @ nat_to_string (nat (- n)) else nat_to_string (nat n))"

fun join_with :: "string \<Rightarrow> string list \<Rightarrow> string" where
  "join_with sep [] = []"
| "join_with sep [s] = s"
| "join_with sep (s # ss) = s @ sep @ join_with sep ss"

definition quoted :: "string \<Rightarrow> string" where
  "quoted s = [CHR 0x27] @ s @ [CHR 0x27]"

definition fmt_v :: "string list \<Rightarrow> string" where
  "fmt_v ss = ''['' @ join_with '' '' ss @ '']''"

section \<open>Validation of the specification\<close>

subsection \<open>Parent CIDRs\<close>

text \<open>The size of the smallest CIDR of a parent ID.  The size is read also after a format error, so
  a CIDR without a slash is an index out of range.\<close>

fun smallest_size ::
  "field_path \<Rightarrow> string \<Rightarrow> nat \<Rightarrow> string list \<Rightarrow> int \<Rightarrow> field_error list \<Rightarrow> (int \<times> field_error list) go" where
  "smallest_size fldPath pid i [] smallest allErrs = Ret (smallest, allErrs)"
| "smallest_size fldPath pid i (cidr # cidrs) smallest allErrs =
     (let split = strings_Split (CHR ''/'') cidr;
          path = fldPath @ [Child ''parentCIDRs'', Key pid, Index i];
          allErrs = (if length split \<noteq> 2 then allErrs @ [FieldInvalid path cidr ''invalid CIDR format''] else allErrs)
      in if length split < 2 then Panic IndexOutOfRange
         else (case strconv_Atoi (split ! 1) of (sz, err) \<Rightarrow>
           smallest_size fldPath pid (Suc i) cidrs
             (if sz > smallest then sz else smallest)
             (if err \<noteq> None then allErrs @ [FieldInvalid path cidr ''CIDR size cannot be parsed as integer'']
              else allErrs)))"

fun parent_sizes ::
  "field_path \<Rightarrow> (string \<times> string list) list \<Rightarrow> int gomap \<Rightarrow> field_error list \<Rightarrow> (int gomap \<times> field_error list) go" where
  "parent_sizes fldPath [] parentIDsToSizes allErrs = Ret (parentIDsToSizes, allErrs)"
| "parent_sizes fldPath ((pid, cidrs) # ps) parentIDsToSizes allErrs =
     go_bind (smallest_size fldPath pid 0 cidrs 0 allErrs) (\<lambda>(smallest, allErrs).
       parent_sizes fldPath ps (AList.update pid smallest parentIDsToSizes) allErrs)"

definition overlap_errors ::
  "range_order \<Rightarrow> lib \<Rightarrow> field_path \<Rightarrow> string \<Rightarrow> nat \<Rightarrow> string \<Rightarrow> string list gomap \<Rightarrow> field_error list" where
  "overlap_errors rng L fldPath pid i cidrStr seenCIDRs =
     concat (map (\<lambda>(otherCIDR, otherIDs).
         if PrefixesOverlapping L [otherCIDR] [cidrStr] \<noteq> None then
           [FieldInvalid (fldPath @ [Child pid, Index i]) cidrStr
             (''parent cidr '' @ quoted cidrStr @ '' overlaps with parent cidr '' @ quoted otherCIDR @ '' from ids '' @
              quoted (fmt_v otherIDs))]
         else [])
       (go_range rng ''validateParentCIDRs/seenCIDRs'' seenCIDRs))"

definition see_cidr :: "string \<Rightarrow> string \<Rightarrow> string list gomap \<Rightarrow> string list gomap" where
  "see_cidr cidrStr pid seenCIDRs =
     AList.update cidrStr ((case map_of seenCIDRs cidrStr of None \<Rightarrow> [] | Some ids \<Rightarrow> ids) @ [pid]) seenCIDRs"

fun validate_cidrs ::
  "range_order \<Rightarrow> lib \<Rightarrow> field_path \<Rightarrow> string \<Rightarrow> nat \<Rightarrow> string list \<Rightarrow> string list gomap \<Rightarrow> field_error list \<Rightarrow>
     string list gomap \<times> field_error list" where
  "validate_cidrs rng L fldPath pid i [] seenCIDRs allErrs = (seenCIDRs, allErrs)"
| "validate_cidrs rng L fldPath pid i (cidr # cidrs) seenCIDRs allErrs =
     validate_cidrs rng L fldPath pid (Suc i) cidrs (see_cidr cidr pid seenCIDRs)
       (allErrs @ overlap_errors rng L fldPath pid i cidr seenCIDRs)"

fun validate_parents ::
  "range_order \<Rightarrow> lib \<Rightarrow> field_path \<Rightarrow> (string \<times> string list) list \<Rightarrow> string list gomap \<Rightarrow> field_error list \<Rightarrow>
     field_error list" where
  "validate_parents rng L fldPath [] seenCIDRs allErrs = allErrs"
| "validate_parents rng L fldPath ((pid, cidrs) # ps) seenCIDRs allErrs =
     (case validate_cidrs rng L fldPath pid 0 cidrs seenCIDRs allErrs of (seenCIDRs, allErrs) \<Rightarrow>
        validate_parents rng L fldPath ps seenCIDRs allErrs)"

definition validateParentCIDRs :: "range_order \<Rightarrow> lib \<Rightarrow> string list gomap \<Rightarrow> field_path \<Rightarrow> field_error list" where
  "validateParentCIDRs rng L parentCIDRs fldPath =
     validate_parents rng L fldPath (go_range rng ''validateParentCIDRs'' parentCIDRs) [] []"

subsection \<open>Injections\<close>

definition validate_id ::
  "field_path \<Rightarrow> SingleCIDRInjection \<Rightarrow> int gomap \<Rightarrow> int gomap \<Rightarrow> int gomap \<times> field_error list" where
  "validate_id ipath injection parentIDsToSizes tmpIDsToSizes =
     (let ID = inj_ID injection in
      if ID \<noteq> [] then
        (AList.update ID (inj_SubnetSize injection) tmpIDsToSizes,
         (if map_of tmpIDsToSizes ID \<noteq> None then [FieldDuplicate (ipath @ [Child ''id'']) ID] else []) @
         (if map_of parentIDsToSizes ID \<noteq> None
          then [FieldInvalid (ipath @ [Child ''id'']) ID ''injection ID cannot be the same as a parent CIDRs ID'']
          else []))
      else (tmpIDsToSizes, []))"

definition same_path_as :: "nat \<Rightarrow> string" where
  "same_path_as n = ''injection injects into the same path as injection at index '' @ nat_to_string n"

definition validate_path :: "field_path \<Rightarrow> nat \<Rightarrow> string \<Rightarrow> nat gomap \<Rightarrow> nat gomap \<times> field_error list" where
  "validate_path ipath i path pathsToIndices =
     (if path \<noteq> [] then
        (case map_of pathsToIndices path of
           Some existingIndex \<Rightarrow>
             (pathsToIndices, [FieldInvalid (ipath @ [Child ''path'']) path (same_path_as existingIndex)])
         | None \<Rightarrow> (AList.update path i pathsToIndices, []))
      else (pathsToIndices, []))"

fun validate_paths ::
  "field_path \<Rightarrow> nat \<Rightarrow> nat \<Rightarrow> string list \<Rightarrow> nat gomap \<Rightarrow> field_error list \<Rightarrow> nat gomap \<times> field_error list" where
  "validate_paths ipath i j [] pathsToIndices allErrs = (pathsToIndices, allErrs)"
| "validate_paths ipath i j (path # paths) pathsToIndices allErrs =
     (case map_of pathsToIndices path of
        Some existingIndex \<Rightarrow>
          validate_paths ipath i (Suc j) paths pathsToIndices
            (allErrs @ [FieldInvalid (ipath @ [Child ''paths'', Index j]) path
               (if existingIndex = i then ''injection injects into the same path multiple times''
                else same_path_as existingIndex)])
      | None \<Rightarrow> validate_paths ipath i (Suc j) paths (AList.update path i pathsToIndices) allErrs)"

definition validate_parent ::
  "field_path \<Rightarrow> int \<Rightarrow> int gomap \<Rightarrow> int gomap \<Rightarrow> string \<Rightarrow> field_error list" where
  "validate_parent ppath subnetSize parentIDsToSizes tmpIDsToSizes parent =
     (case (map_of parentIDsToSizes parent, map_of tmpIDsToSizes parent) of
        (None, None) \<Rightarrow>
          [FieldInvalid ppath parent
             ''parent ID is neither in the global list of parent CIDRs, nor the id of a previous injection'']
      | (smallest, tmp) \<Rightarrow>
          (case tmp of
             Some tmpSize \<Rightarrow>
               if subnetSize \<le> tmpSize then
                 [FieldInvalid ppath parent (''injection lists '' @ quoted parent @ '' with a subnet size of '' @ fmt_d tmpSize @
                    '' as a possible parent, but requests a subnet of size '' @ fmt_d subnetSize @
                    '' itself, which is not smaller than the parent'')]
               else []
           | None \<Rightarrow> []) @
          (case smallest of
             Some smallestParentSize \<Rightarrow>
               if subnetSize \<le> smallestParentSize then
                 [FieldInvalid ppath parent (''injection lists '' @ quoted parent @
                    '' as a possible parent, but among the possible parent CIDRs is at least one with subnet size '' @
                    fmt_d smallestParentSize @ '', which is not bigger than the subnet size '' @ fmt_d subnetSize @
                    '' requested by the injection'')]
               else []
           | None \<Rightarrow> []))"

fun validate_injections ::
  "field_path \<Rightarrow> int gomap \<Rightarrow> nat \<Rightarrow> SingleCIDRInjection list \<Rightarrow> int gomap \<Rightarrow> nat gomap \<Rightarrow> field_error list \<Rightarrow>
     field_error list" where
  "validate_injections fldPath parentIDsToSizes i [] tmpIDsToSizes pathsToIndices allErrs = allErrs"
| "validate_injections fldPath parentIDsToSizes i (injection # injections) tmpIDsToSizes pathsToIndices allErrs =
     (let ipath = fldPath @ [Index i] @ (if inj_ID injection \<noteq> [] then [Key (inj_ID injection)] else []);
          (tmpIDsToSizes, idErrs) = validate_id ipath injection parentIDsToSizes tmpIDsToSizes;
          reqErrs = (if length (GetPaths injection) = 0
            then [FieldRequired ipath (''at least one path must be specified, either via '' @ quoted ''path'' @
                '' or via '' @ quoted ''paths'')]
            else []);
          (pathsToIndices, pathErrs) = validate_path ipath i (inj_Path injection) pathsToIndices;
          (pathsToIndices, pathsErrs) = validate_paths ipath i 0 (inj_Paths injection) pathsToIndices [];
          parentErrs = concat (map (\<lambda>(j, parent).
              validate_parent (ipath @ [Child ''parents'', Index j]) (inj_SubnetSize injection)
                parentIDsToSizes tmpIDsToSizes parent)
            (enumerate 0 (inj_Parents injection)))
      in validate_injections fldPath parentIDsToSizes (Suc i) injections tmpIDsToSizes pathsToIndices
           (allErrs @ idErrs @ reqErrs @ pathErrs @ pathsErrs @ parentErrs))"

definition validateInjections ::
  "SingleCIDRInjection list \<Rightarrow> int gomap \<Rightarrow> field_path \<Rightarrow> field_error list" where
  "validateInjections injections parentIDsToSizes fldPath =
     validate_injections fldPath parentIDsToSizes 0 injections [] [] []"

subsection \<open>Rules and the whole configuration\<close>

fun validate_rule_list ::
  "field_path \<Rightarrow> int gomap \<Rightarrow> nat \<Rightarrow> CIDRInjection list \<Rightarrow> string list \<Rightarrow> field_error list \<Rightarrow> field_error list" where
  "validate_rule_list fldPath parentIDsToSizes i [] knownIDs allErrs = allErrs"
| "validate_rule_list fldPath parentIDsToSizes i (rule # rules) knownIDs allErrs =
     (let rpath = fldPath @ [Index i, Key (rule_ID rule)];
          dupErrs = (if rule_ID rule \<in> set knownIDs
            then [FieldDuplicate (rpath @ [Child ''id'']) (rule_ID rule)] else [])
      in validate_rule_list fldPath parentIDsToSizes (Suc i) rules (List.insert (rule_ID rule) knownIDs)
           (allErrs @ dupErrs @
            validateInjections (rule_Injections rule) parentIDsToSizes (rpath @ [Child ''injections''])))"

definition validateInjectionRules :: "CIDRInjection list \<Rightarrow> int gomap \<Rightarrow> field_path \<Rightarrow> field_error list" where
  "validateInjectionRules rules parentIDsToSizes fldPath =
     validate_rule_list fldPath parentIDsToSizes 0 rules [] []"

definition validateSpec :: "range_order \<Rightarrow> lib \<Rightarrow> IPAMConfigSpec \<Rightarrow> field_path \<Rightarrow> field_error list go" where
  "validateSpec rng L spec fldPath =
     go_bind (parent_sizes fldPath (go_range rng ''validateSpec'' (ParentCIDRs spec)) [] [])
       (\<lambda>(parentIDsToSizes, allErrs).
         Ret (allErrs @
           validateParentCIDRs rng L (ParentCIDRs spec) (fldPath @ [Child ''parentCIDRs'']) @
           validateInjectionRules (InjectionRules spec) parentIDsToSizes (fldPath @ [Child ''injectionRules''])))"

definition ValidateConfig :: "range_order \<Rightarrow> lib \<Rightarrow> IPAMConfig option \<Rightarrow> field_error list option go" where
  "ValidateConfig rng L cfg =
     (case cfg of
        None \<Rightarrow> Ret None
      | Some c \<Rightarrow> go_bind (validateSpec rng L (Spec c) [Child ''spec'']) (\<lambda>errs. Ret (ToAggregate errs)))"

definition ValidateCreate :: "range_order \<Rightarrow> lib \<Rightarrow> IPAMConfig option \<Rightarrow> field_error list option go" where
  "ValidateCreate rng L cfg = ValidateConfig rng L cfg"

definition ValidateDelete :: "range_order \<Rightarrow> lib \<Rightarrow> IPAMConfig option \<Rightarrow> field_error list option go" where
  "ValidateDelete rng L cfg = Ret None"

definition ValidateUpdate ::
  "range_order \<Rightarrow> lib \<Rightarrow> IPAMConfig option \<Rightarrow> IPAMConfig option \<Rightarrow> field_error list option go" where
  "ValidateUpdate rng L old newCfg = ValidateConfig rng L newCfg"

section \<open>Valid configurations\<close>

definition cidr_wellformed :: "string \<Rightarrow> bool" where
  "cidr_wellformed c \<longleftrightarrow> length (strings_Split (CHR ''/'') c) = 2 \<and> snd (strconv_Atoi (strings_Split (CHR ''/'') c ! 1)) = None"

definition cidr_size :: "string \<Rightarrow> int" where
  "cidr_size c = fst (strconv_Atoi (strings_Split (CHR ''/'') c ! 1))"

definition inj_ids :: "SingleCIDRInjection list \<Rightarrow> string list" where
  "inj_ids injs = filter (\<lambda>i. i \<noteq> []) (map inj_ID injs)"

definition inj_paths :: "SingleCIDRInjection list \<Rightarrow> string list" where
  "inj_paths injs = concat (map (\<lambda>sci. map pws_Path (GetPaths sci)) injs)"

text \<open>A parent of an injection is a parent ID of the config all whose CIDRs are larger networks, or
  the ID of a previous injection that requests a larger network.\<close>

definition parent_ok :: "string list gomap \<Rightarrow> SingleCIDRInjection list \<Rightarrow> SingleCIDRInjection \<Rightarrow> string \<Rightarrow> bool" where
  "parent_ok ps before sci p \<longleftrightarrow>
     (p \<in> fst ` set ps \<or> p \<in> set (inj_ids before)) \<and>
     (case map_of ps p of
        None \<Rightarrow> True
      | Some cidrs \<Rightarrow> 0 < inj_SubnetSize sci \<and> (\<forall>c \<in> set cidrs. cidr_size c < inj_SubnetSize sci)) \<and>
     (\<forall>b \<in> set before. inj_ID b = p \<and> p \<noteq> [] \<longrightarrow> inj_SubnetSize b < inj_SubnetSize sci)"

definition valid_injections :: "string list gomap \<Rightarrow> SingleCIDRInjection list \<Rightarrow> bool" where
  "valid_injections ps injs \<longleftrightarrow>
     distinct (inj_ids injs) \<and> set (inj_ids injs) \<inter> fst ` set ps = {} \<and>
     (\<forall>sci \<in> set injs. GetPaths sci \<noteq> []) \<and> distinct (inj_paths injs) \<and>
     (\<forall>i < length injs. \<forall>p \<in> set (inj_Parents (injs ! i)). parent_ok ps (take i injs) (injs ! i) p)"

definition config_parents :: "IPAMConfig \<Rightarrow> string list" where
  "config_parents cfg = concat (map snd (ParentCIDRs (Spec cfg)))"

definition valid_config :: "lib \<Rightarrow> IPAMConfig \<Rightarrow> bool" where
  "valid_config L cfg \<longleftrightarrow>
     (\<forall>c \<in> set (config_parents cfg). cidr_wellformed c) \<and>
     (\<forall>i < length (config_parents cfg). \<forall>j < length (config_parents cfg). i \<noteq> j \<longrightarrow>
        PrefixesOverlapping L [config_parents cfg ! i] [config_parents cfg ! j] = None) \<and>
     distinct (map rule_ID (InjectionRules (Spec cfg))) \<and>
     (\<forall>rule \<in> set (InjectionRules (Spec cfg)). valid_injections (ParentCIDRs (Spec cfg)) (rule_Injections rule))"

section \<open>Laws: parents\<close>

lemma ToAggregate_None [simp]: "ToAggregate errs = None \<longleftrightarrow> errs = []"
  by (simp add: ToAggregate_def)

lemma Split_short: "length (strings_Split sep s) < 2 \<longleftrightarrow> sep \<notin> set s"
  using strings_Split_single_iff [of sep s] strings_Split_nonempty [of sep s]
  by (cases "strings_Split sep s") (auto simp: less_Suc_eq numeral_2_eq_2)

lemma smallest_size_Ret:
  "\<forall>c \<in> set cidrs. CHR ''/'' \<in> set c \<Longrightarrow>
   \<exists>errs'. smallest_size fp pid i cidrs n errs = Ret (foldl max n (map cidr_size cidrs), errs') \<and>
     (errs' = [] \<longleftrightarrow> errs = [] \<and> (\<forall>c \<in> set cidrs. cidr_wellformed c))"
proof (induction cidrs arbitrary: i n errs)
  case (Cons c cidrs)
  let ?split = "strings_Split (CHR ''/'') c"
  have split: "\<not> length ?split < 2" using Cons.prems by (simp add: Split_short)
  obtain sz err where atoi: "strconv_Atoi (?split ! 1) = (sz, err)" by force
  have sz: "(if sz > n then sz else n) = max n sz" by simp
  obtain errs1 where step: "smallest_size fp pid i (c # cidrs) n errs = smallest_size fp pid (Suc i) cidrs (max n sz) errs1"
    and errs1: "errs1 = [] \<longleftrightarrow> errs = [] \<and> cidr_wellformed c"
    using split atoi by (simp add: Let_def sz cidr_wellformed_def)
  show ?case
    using Cons.IH [of "Suc i" "max n sz" errs1] Cons.prems errs1 atoi unfolding step by (auto simp: cidr_size_def)
qed simp

lemma smallest_size_Panic:
  "c \<in> set cidrs \<Longrightarrow> CHR ''/'' \<notin> set c \<Longrightarrow> smallest_size fp pid i cidrs n errs = Panic IndexOutOfRange"
proof (induction cidrs arbitrary: i n errs)
  case (Cons d cidrs)
  then show ?case by (auto simp: Let_def Split_short split: prod.split)
qed simp

definition size_map :: "string list gomap \<Rightarrow> (string \<rightharpoonup> int)" where
  "size_map ps = map_option (\<lambda>cidrs. foldl max 0 (map cidr_size cidrs)) \<circ> map_of ps"

lemma parent_sizes_Ret:
  assumes "\<forall>c \<in> set (concat (map snd ps)). CHR ''/'' \<in> set c" and "distinct (map fst ps)"
  shows "\<exists>sizes errs'. parent_sizes fp ps acc errs = Ret (sizes, errs') \<and>
     map_of sizes = map_of acc ++ size_map ps \<and>
     (errs' = [] \<longleftrightarrow> errs = [] \<and> (\<forall>c \<in> set (concat (map snd ps)). cidr_wellformed c))"
  using assms
proof (induction ps arbitrary: acc errs)
  case (Cons pc ps)
  obtain pid cidrs where pc: "pc = (pid, cidrs)" by force
  obtain errs1 where 1: "smallest_size fp pid 0 cidrs 0 errs = Ret (foldl max 0 (map cidr_size cidrs), errs1)"
      "errs1 = [] \<longleftrightarrow> errs = [] \<and> (\<forall>c \<in> set cidrs. cidr_wellformed c)"
    using smallest_size_Ret [of cidrs fp pid 0 0 errs] Cons.prems pc by auto
  have fresh: "size_map ps pid = None" using Cons.prems(2) by (simp add: pc size_map_def map_of_eq_None_iff)
  have sm: "map_of (AList.update pid n acc) ++ size_map ps = map_of acc ++ size_map ((pid, cidrs) # ps)"
    if "n = foldl max 0 (map cidr_size cidrs)" for n
    using fresh that by (auto simp: size_map_def map_add_def fun_eq_iff split: option.split)
  have "\<forall>c \<in> set (concat (map snd ps)). CHR ''/'' \<in> set c" "distinct (map fst ps)"
    using Cons.prems by auto
  from Cons.IH [OF this, of "AList.update pid (foldl max 0 (map cidr_size cidrs)) acc" errs1]
  obtain sizes errs' where "parent_sizes fp ps (AList.update pid (foldl max 0 (map cidr_size cidrs)) acc) errs1 = Ret (sizes, errs')"
      "map_of sizes = map_of acc ++ size_map ((pid, cidrs) # ps)"
      "errs' = [] \<longleftrightarrow> errs1 = [] \<and> (\<forall>c \<in> set (concat (map snd ps)). cidr_wellformed c)"
    unfolding sm [OF refl] by blast
  then show ?case using 1 by (auto simp: pc)
qed (simp add: size_map_def)

lemma parent_sizes_Panic:
  assumes "c \<in> set (concat (map snd ps))" and "CHR ''/'' \<notin> set c"
  shows "parent_sizes fp ps acc errs = Panic IndexOutOfRange"
  using assms(1)
proof (induction ps arbitrary: acc errs)
  case (Cons pc ps)
  obtain pid cidrs where pc: "pc = (pid, cidrs)" by force
  show ?case
  proof (cases "\<forall>d \<in> set cidrs. CHR ''/'' \<in> set d")
    case True
    then have "c \<in> set (concat (map snd ps))" using Cons.prems assms(2) pc by auto
    with smallest_size_Ret [OF True, of fp pid 0 0 errs] Cons.IH show ?thesis by (auto simp: pc)
  next
    case False
    then show ?thesis using smallest_size_Panic [of _ cidrs] by (auto simp: pc)
  qed
qed simp

lemma foldl_max_less: "foldl max n xs < (m :: int) \<longleftrightarrow> n < m \<and> (\<forall>x \<in> set xs. x < m)"
  by (induction xs arbitrary: n) auto

section \<open>Laws: disjoint parents\<close>

context map_iteration
begin

lemma overlap_errors_Nil:
  "wf_map seen \<Longrightarrow> overlap_errors rng L fp pid i c seen = [] \<longleftrightarrow>
   (\<forall>d \<in> fst ` set seen. PrefixesOverlapping L [d] [c] = None)"
  by (auto simp: overlap_errors_def split: if_splits)

lemma validate_cidrs_Nil:
  assumes "wf_map seen" and "validate_cidrs rng L fp pid i cidrs seen errs = (seen', errs')"
  shows "wf_map seen' \<and> fst ` set seen' = fst ` set seen \<union> set cidrs \<and>
    (errs' = [] \<longleftrightarrow> errs = [] \<and> sorted_wrt (\<lambda>c d. PrefixesOverlapping L [c] [d] = None) cidrs \<and>
      (\<forall>d \<in> fst ` set seen. \<forall>c \<in> set cidrs. PrefixesOverlapping L [d] [c] = None))"
  using assms
proof (induction cidrs arbitrary: i seen errs)
  case (Cons c cidrs)
  have "wf_map (see_cidr c pid seen)" "fst ` set (see_cidr c pid seen) = insert c (fst ` set seen)"
    using Cons.prems(1) by (simp_all add: see_cidr_def dom_update)
  then show ?case
    using Cons.IH [of "see_cidr c pid seen" "Suc i"] Cons.prems by (auto simp: overlap_errors_Nil)
qed simp

lemma validate_parents_Nil:
  "wf_map seen \<Longrightarrow> validate_parents rng L fp ps seen errs = [] \<longleftrightarrow>
   errs = [] \<and> sorted_wrt (\<lambda>c d. PrefixesOverlapping L [c] [d] = None) (concat (map snd ps)) \<and>
     (\<forall>d \<in> fst ` set seen. \<forall>c \<in> set (concat (map snd ps)). PrefixesOverlapping L [d] [c] = None)"
proof (induction ps arbitrary: seen errs)
  case (Cons pc ps)
  obtain pid cidrs where pc: "pc = (pid, cidrs)" by force
  obtain seen' errs' where v: "validate_cidrs rng L fp pid 0 cidrs seen errs = (seen', errs')" by force
  have IH: "validate_parents rng L fp ps seen' errs' = [] \<longleftrightarrow>
      errs' = [] \<and> sorted_wrt (\<lambda>c d. PrefixesOverlapping L [c] [d] = None) (concat (map snd ps)) \<and>
      (\<forall>d \<in> fst ` set seen'. \<forall>c \<in> set (concat (map snd ps)). PrefixesOverlapping L [d] [c] = None)"
    using validate_cidrs_Nil [OF Cons.prems v] by (intro Cons.IH) simp
  have keys: "fst ` set seen' = fst ` set seen \<union> set cidrs"
    and errs: "errs' = [] \<longleftrightarrow> errs = [] \<and> sorted_wrt (\<lambda>c d. PrefixesOverlapping L [c] [d] = None) cidrs \<and>
      (\<forall>d \<in> fst ` set seen. \<forall>c \<in> set cidrs. PrefixesOverlapping L [d] [c] = None)"
    using validate_cidrs_Nil [OF Cons.prems v] by simp_all
  show ?case
    by (simp only: pc validate_parents.simps v prod.case IH errs keys list.map concat.simps snd_conv
        sorted_wrt_append set_append ball_Un ball_conj_distrib conj_ac)
qed simp

end

section \<open>Laws: injections\<close>

lemma validate_paths_Nil:
  assumes "wf_map m" and "validate_paths ipath i j paths m errs = (m', errs')"
  shows "wf_map m' \<and> fst ` set m' = fst ` set m \<union> set paths \<and>
    (errs' = [] \<longleftrightarrow> errs = [] \<and> distinct paths \<and> set paths \<inter> fst ` set m = {})"
  using assms
proof (induction paths arbitrary: j m errs)
  case (Cons p paths)
  show ?case
  proof (cases "map_of m p")
    case None
    then have "p \<notin> fst ` set m" by (simp add: map_of_None_iff)
    moreover have "fst ` set (AList.update p i m) = insert p (fst ` set m)" by (simp add: dom_update)
    ultimately show ?thesis
      using Cons.IH [of "AList.update p i m" "Suc j" errs] Cons.prems None by auto
  next
    case (Some k)
    then have "p \<in> fst ` set m" by (force dest: map_of_SomeD)
    then show ?thesis using Cons.IH [of m "Suc j" "errs @ [_]"] Cons.prems Some by (simp add: insert_absorb)
  qed
qed simp

lemma validate_path_Nil:
  assumes "wf_map m" and "validate_path ipath i p m = (m', errs')"
  shows "wf_map m' \<and> fst ` set m' = fst ` set m \<union> (if p = [] then {} else {p}) \<and>
    (errs' = [] \<longleftrightarrow> p = [] \<or> p \<notin> fst ` set m)"
proof (cases "map_of m p")
  case None
  then have "p \<notin> fst ` set m" by (simp add: map_of_None_iff)
  moreover have "fst ` set (AList.update p i m) = insert p (fst ` set m)" by (simp add: dom_update)
  ultimately show ?thesis using assms None by (auto simp: validate_path_def split: if_splits)
next
  case (Some k)
  then have "p \<in> fst ` set m" by (force dest: map_of_SomeD)
  then show ?thesis using assms Some by (auto simp: validate_path_def split: if_splits)
qed

lemma inj_paths_Cons: "inj_paths (x # xs) = (if inj_Path x = [] then [] else [inj_Path x]) @ inj_Paths x @ inj_paths xs"
  by (simp add: inj_paths_def GetPaths_paths)

lemma inj_ids_Cons: "inj_ids (x # xs) = (if inj_ID x = [] then [] else [inj_ID x]) @ inj_ids xs"
  by (simp add: inj_ids_def)

lemma validate_parent_Nil:
  "validate_parent ppath n sizes tmp p = [] \<longleftrightarrow>
   (map_of sizes p \<noteq> None \<or> map_of tmp p \<noteq> None) \<and>
   (\<forall>s. map_of sizes p = Some s \<longrightarrow> s < n) \<and> (\<forall>s. map_of tmp p = Some s \<longrightarrow> s < n)"
  by (cases "map_of sizes p"; cases "map_of tmp p") (auto simp: validate_parent_def)

text \<open>The validation of a list of injections after the injections \<open>pre\<close>, which fills the map of the
  sizes of their IDs.\<close>

definition tmp_sizes :: "SingleCIDRInjection list \<Rightarrow> (string \<rightharpoonup> int)" where
  "tmp_sizes pre = (\<lambda>p. if p = [] then None else map_of (rev (map (\<lambda>b. (inj_ID b, inj_SubnetSize b)) pre)) p)"

lemma tmp_sizes_snoc:
  "tmp_sizes (pre @ [x]) = (if inj_ID x = [] then tmp_sizes pre else (tmp_sizes pre)(inj_ID x \<mapsto> inj_SubnetSize x))"
  by (auto simp: tmp_sizes_def fun_eq_iff)

lemma tmp_sizes_None: "tmp_sizes pre p = None \<longleftrightarrow> p \<notin> set (inj_ids pre)"
  by (auto simp: tmp_sizes_def inj_ids_def map_of_eq_None_iff image_image)

lemma tmp_sizes_Some:
  assumes "distinct (inj_ids pre)" and "p \<noteq> []"
  shows "tmp_sizes pre p = Some s \<longleftrightarrow> (\<exists>b \<in> set pre. inj_ID b = p \<and> inj_SubnetSize b = s)"
  using assms(1)
proof (induction pre rule: rev_induct)
  case (snoc x pre)
  have "inj_ID x \<noteq> [] \<Longrightarrow> inj_ID x \<notin> inj_ID ` set pre" using snoc.prems by (simp add: inj_ids_def)
  then have "inj_ID x \<noteq> [] \<Longrightarrow> \<forall>b \<in> set pre. inj_ID b \<noteq> inj_ID x" by (metis imageI)
  moreover have "distinct (inj_ids pre)" using snoc.prems by (simp add: inj_ids_def)
  ultimately show ?case using snoc.IH assms(2) by (auto simp: tmp_sizes_snoc)
qed (simp add: tmp_sizes_def assms)

definition valid_after :: "string list gomap \<Rightarrow> SingleCIDRInjection list \<Rightarrow> SingleCIDRInjection list \<Rightarrow> bool" where
  "valid_after ps pre injs \<longleftrightarrow>
     distinct (inj_ids injs) \<and> set (inj_ids injs) \<inter> (set (inj_ids pre) \<union> fst ` set ps) = {} \<and>
     (\<forall>sci \<in> set injs. GetPaths sci \<noteq> []) \<and>
     distinct (inj_paths injs) \<and> set (inj_paths injs) \<inter> set (inj_paths pre) = {} \<and>
     (\<forall>i < length injs. \<forall>p \<in> set (inj_Parents (injs ! i)). parent_ok ps (pre @ take i injs) (injs ! i) p)"

lemma valid_after_Nil: "valid_after ps [] injs \<longleftrightarrow> valid_injections ps injs"
  by (simp add: valid_after_def valid_injections_def inj_ids_def inj_paths_def)

lemma valid_after_Cons:
  "valid_after ps pre (x # xs) \<longleftrightarrow>
     (inj_ID x \<noteq> [] \<longrightarrow> inj_ID x \<notin> set (inj_ids pre) \<union> fst ` set ps) \<and> GetPaths x \<noteq> [] \<and>
     distinct (inj_paths [x]) \<and> set (inj_paths [x]) \<inter> set (inj_paths pre) = {} \<and>
     (\<forall>p \<in> set (inj_Parents x). parent_ok ps pre x p) \<and> valid_after ps (pre @ [x]) xs"
proof -
  have "(\<forall>i < length (x # xs). \<forall>p \<in> set (inj_Parents ((x # xs) ! i)).
      parent_ok ps (pre @ take i (x # xs)) ((x # xs) ! i) p) \<longleftrightarrow>
    (\<forall>p \<in> set (inj_Parents x). parent_ok ps pre x p) \<and>
    (\<forall>i < length xs. \<forall>p \<in> set (inj_Parents (xs ! i)). parent_ok ps ((pre @ [x]) @ take i xs) (xs ! i) p)"
    by (simp add: All_less_Suc2)
  moreover have "set (inj_ids (pre @ [x])) = set (inj_ids pre) \<union> set (inj_ids [x])"
    "set (inj_paths (pre @ [x])) = set (inj_paths pre) \<union> set (inj_paths [x])"
    by (simp_all add: inj_ids_def inj_paths_def)
  moreover have "inj_paths (x # xs) = inj_paths [x] @ inj_paths xs" "inj_ids (x # xs) = inj_ids [x] @ inj_ids xs"
    by (simp_all add: inj_ids_def inj_paths_def)
  moreover have "inj_ids [x] = (if inj_ID x = [] then [] else [inj_ID x])" by (simp add: inj_ids_def)
  ultimately show ?thesis
    unfolding valid_after_def by (auto simp del: length_Cons)
qed


lemma validate_injections_mono:
  "errs \<noteq> [] \<Longrightarrow> validate_injections fp sizes i injs tmp pths errs \<noteq> []"
  by (induction injs arbitrary: i tmp pths errs) (simp_all add: Let_def split: prod.split)

lemma head_parents:
  assumes sizes: "map_of sizes = size_map ps" and fresh: "inj_ID x \<noteq> [] \<longrightarrow> inj_ID x \<notin> set (inj_ids pre) \<union> fst ` set ps"
    and tmp: "map_of tmp' = tmp_sizes (pre @ [x])" and ids: "distinct (inj_ids pre)"
  shows "validate_parent ppath (inj_SubnetSize x) sizes tmp' p = [] \<longleftrightarrow> parent_ok ps pre x p"
proof (cases "p = inj_ID x \<and> p \<noteq> []")
  case True
  then have "map_of tmp' p = Some (inj_SubnetSize x)" by (auto simp: tmp tmp_sizes_snoc)
  moreover have "\<not> parent_ok ps pre x p" using True fresh by (auto simp: parent_ok_def)
  ultimately show ?thesis by (simp add: validate_parent_Nil)
next
  case False
  then have t: "map_of tmp' p = tmp_sizes pre p" by (auto simp: tmp tmp_sizes_snoc)
  have "map_of sizes p = map_option (\<lambda>cidrs. foldl max 0 (map cidr_size cidrs)) (map_of ps p)"
    by (simp add: sizes size_map_def)
  moreover have "map_of ps p \<noteq> None \<longleftrightarrow> p \<in> fst ` set ps" by (simp add: map_of_eq_None_iff)
  moreover have "tmp_sizes pre p \<noteq> None \<longleftrightarrow> p \<in> set (inj_ids pre)" by (simp add: tmp_sizes_None)
  moreover have "(\<forall>s. tmp_sizes pre p = Some s \<longrightarrow> s < inj_SubnetSize x) \<longleftrightarrow>
      (\<forall>b \<in> set pre. inj_ID b = p \<and> p \<noteq> [] \<longrightarrow> inj_SubnetSize b < inj_SubnetSize x)"
    using tmp_sizes_Some [OF ids] by (cases "p = []") (auto simp: tmp_sizes_def)
  ultimately show ?thesis
    by (cases "map_of ps p") (auto simp: validate_parent_Nil t parent_ok_def foldl_max_less)
qed

lemma validate_injections_Nil:
  assumes "map_of sizes = size_map ps" and "distinct (inj_ids pre)" and "map_of tmp = tmp_sizes pre"
    and "wf_map pths" and "fst ` set pths = set (inj_paths pre)"
  shows "validate_injections fp sizes i injs tmp pths errs = [] \<longleftrightarrow> errs = [] \<and> valid_after ps pre injs"
  using assms
proof (induction injs arbitrary: i pre tmp pths errs)
  case (Cons x xs)
  let ?ipath = "fp @ [Index i] @ (if inj_ID x \<noteq> [] then [Key (inj_ID x)] else [])"
  obtain tmp' idErrs where vid: "validate_id ?ipath x sizes tmp = (tmp', idErrs)" by force
  obtain pths1 e1 where vp: "validate_path ?ipath i (inj_Path x) pths = (pths1, e1)" by force
  obtain pths2 e2 where vps: "validate_paths ?ipath i 0 (inj_Paths x) pths1 [] = (pths2, e2)" by force
  let ?req = "if length (GetPaths x) = 0
      then [FieldRequired ?ipath (''at least one path must be specified, either via '' @ quoted ''path'' @
                '' or via '' @ quoted ''paths'')] else []"
  let ?par = "concat (map (\<lambda>(j, parent). validate_parent (?ipath @ [Child ''parents'', Index j]) (inj_SubnetSize x)
      sizes tmp' parent) (enumerate 0 (inj_Parents x)))"
  have step: "validate_injections fp sizes i (x # xs) tmp pths errs =
      validate_injections fp sizes (Suc i) xs tmp' pths2 (errs @ idErrs @ ?req @ e1 @ e2 @ ?par)"
    by (simp only: validate_injections.simps vid vp vps Let_def prod.case)
  have tmp': "map_of tmp' = tmp_sizes (pre @ [x])"
    using vid Cons.prems(3) by (auto simp: validate_id_def Let_def tmp_sizes_snoc split: if_splits)
  have pths2: "wf_map pths2" "fst ` set pths2 = set (inj_paths (pre @ [x]))"
    and paths: "e1 = [] \<and> e2 = [] \<longleftrightarrow> distinct (inj_paths [x]) \<and> set (inj_paths [x]) \<inter> set (inj_paths pre) = {}"
    using validate_path_Nil [OF Cons.prems(4) vp] validate_paths_Nil [OF _ vps] Cons.prems(5)
    by (auto simp: inj_paths_def GetPaths_paths)
  have ids: "idErrs = [] \<longleftrightarrow> (inj_ID x \<noteq> [] \<longrightarrow> inj_ID x \<notin> set (inj_ids pre) \<union> fst ` set ps)"
    using vid Cons.prems(1,3) tmp_sizes_None [of pre "inj_ID x"]
    by (auto simp: validate_id_def Let_def size_map_def map_of_eq_None_iff split: if_splits)
  show ?case
  proof (cases "idErrs = []")
    case True
    then have "distinct (inj_ids (pre @ [x]))" using ids Cons.prems(2) by (auto simp: inj_ids_def)
    then have "validate_injections fp sizes (Suc i) xs tmp' pths2 (errs @ idErrs @ ?req @ e1 @ e2 @ ?par) = [] \<longleftrightarrow>
        errs @ idErrs @ ?req @ e1 @ e2 @ ?par = [] \<and> valid_after ps (pre @ [x]) xs"
      using Cons.prems(1) tmp' pths2 by (intro Cons.IH)
    moreover have "?par = [] \<longleftrightarrow> (\<forall>p \<in> set (inj_Parents x). parent_ok ps pre x p)"
    proof -
      have "set (inj_Parents x) = snd ` set (enumerate 0 (inj_Parents x))"
        by (metis list.set_map map_snd_enumerate)
      moreover have "validate_parent ppath (inj_SubnetSize x) sizes tmp' p = [] \<longleftrightarrow> parent_ok ps pre x p" for ppath p
        using True ids by (intro head_parents [OF Cons.prems(1) _ tmp' Cons.prems(2)]) simp
      ultimately show ?thesis by (simp add: split_def)
    qed
    ultimately show ?thesis unfolding step using True ids paths by (auto simp: valid_after_Cons)
  next
    case False
    have "validate_injections fp sizes (Suc i) xs tmp' pths2 (errs @ idErrs @ ?req @ e1 @ e2 @ ?par) \<noteq> []"
      using False by (simp add: validate_injections_mono)
    then show ?thesis unfolding step using False ids by (auto simp: valid_after_Cons)
  qed
qed (simp add: valid_after_def inj_ids_def inj_paths_def)

lemma validateInjections_Nil:
  "map_of sizes = size_map ps \<Longrightarrow> validateInjections injs sizes fp = [] \<longleftrightarrow> valid_injections ps injs"
  unfolding validateInjections_def valid_after_Nil [symmetric]
  by (subst validate_injections_Nil [where pre = "[]" and ps = ps])
    (simp_all add: inj_ids_def inj_paths_def tmp_sizes_def fun_eq_iff)

lemma validate_rule_list_Nil:
  assumes "map_of sizes = size_map ps"
  shows "validate_rule_list fp sizes i rules ids errs = [] \<longleftrightarrow>
    errs = [] \<and> distinct (map rule_ID rules) \<and> rule_ID ` set rules \<inter> set ids = {} \<and>
    (\<forall>rule \<in> set rules. valid_injections ps (rule_Injections rule))"
proof (induction rules arbitrary: i ids errs)
  case (Cons rule rules)
  then show ?case by (auto simp: Let_def validateInjections_Nil [OF assms])
qed simp

text \<open>Pairwise conditions on a list that do not depend on the order.\<close>

lemma sorted_wrt_sym:
  assumes "symp P"
  shows "sorted_wrt P xs \<longleftrightarrow> (\<forall>i < length xs. \<forall>j < length xs. i \<noteq> j \<longrightarrow> P (xs ! i) (xs ! j))"
proof
  assume s: "sorted_wrt P xs"
  show "\<forall>i < length xs. \<forall>j < length xs. i \<noteq> j \<longrightarrow> P (xs ! i) (xs ! j)"
  proof (intro allI impI)
    fix i j
    assume "i < length xs" "j < length xs" "i \<noteq> j"
    then show "P (xs ! i) (xs ! j)"
      using sorted_wrt_nth_less [OF s, of i j] sorted_wrt_nth_less [OF s, of j i] sympD [OF assms]
      by (cases i j rule: linorder_cases) auto
  qed
qed (auto simp: sorted_wrt_iff_nth_less)

lemma sorted_wrt_perm:
  assumes "symp P" and "mset xs = mset ys" and "sorted_wrt P xs"
  shows "sorted_wrt P ys"
  using assms(2,3)
proof (induction ys arbitrary: xs)
  case (Cons y ys)
  from Cons.prems(1) have "y \<in> set xs" by (metis list.set_intros(1) mset_eq_setD)
  then obtain us vs where xs: "xs = us @ y # vs" by (meson split_list)
  then have "sorted_wrt P (us @ vs)" and all: "\<forall>z \<in> set (us @ vs). P y z"
    using Cons.prems(2) sympD [OF assms(1)] by (auto simp: sorted_wrt_append)
  moreover have perm: "mset (us @ vs) = mset ys" using Cons.prems(1) xs by simp
  ultimately have "sorted_wrt P ys" by (intro Cons.IH)
  then show ?case using all mset_eq_setD [OF perm] by simp
qed simp

text \<open>What the validation relies on of the overlap check: it does not depend on the order of the two
  prefixes, and prefixes that do not overlap have no address in common.\<close>

locale overlap_contract =
  fixes L :: lib and addrs :: "string \<Rightarrow> int set"
  assumes overlap_sym: "PrefixesOverlapping L [c] [d] = None \<Longrightarrow> PrefixesOverlapping L [d] [c] = None"
    and overlap_disjoint: "PrefixesOverlapping L [c] [d] = None \<Longrightarrow> addrs c \<inter> addrs d = {}"
begin

lemma symp_disjoint: "symp (\<lambda>c d. PrefixesOverlapping L [c] [d] = None)"
  by (rule sympI) (rule overlap_sym)

lemma pairwise_perm:
  "mset cs = mset ds \<Longrightarrow> sorted_wrt (\<lambda>c d. PrefixesOverlapping L [c] [d] = None) cs \<longleftrightarrow>
   sorted_wrt (\<lambda>c d. PrefixesOverlapping L [c] [d] = None) ds"
  using sorted_wrt_perm [OF symp_disjoint, of cs ds] sorted_wrt_perm [OF symp_disjoint, of ds cs] by auto

lemma pairwise_index:
  "sorted_wrt (\<lambda>c d. PrefixesOverlapping L [c] [d] = None) cs \<longleftrightarrow>
   (\<forall>i < length cs. \<forall>j < length cs. i \<noteq> j \<longrightarrow> PrefixesOverlapping L [cs ! i] [cs ! j] = None)"
  by (rule sorted_wrt_sym [OF symp_disjoint])

end

interpretation sim_overlap: overlap_contract sim_lib cidr_addrs
proof
  have iff: "sim_overlapping [c] [d] = None \<longleftrightarrow> cidr_range c \<noteq> None \<and> cidr_range d \<noteq> None \<and> cidr_disjoint c d" for c d
    by (auto simp: sim_overlapping_def split: option.splits if_splits)
  have sym: "cidr_disjoint c d = cidr_disjoint d c" for c d
    by (auto simp: cidr_disjoint_def split: option.splits)
  show "PrefixesOverlapping sim_lib [c] [d] = None \<Longrightarrow> PrefixesOverlapping sim_lib [d] [c] = None" for c d
    using sym [of c d] by (simp add: iff)
  show "PrefixesOverlapping sim_lib [c] [d] = None \<Longrightarrow> cidr_addrs c \<inter> cidr_addrs d = {}" for c d
    by (intro cidr_disjointD) (simp add: iff)
qed

lemma mset_concat_eq:
  assumes "mset xs = mset ys"
  shows "mset (concat (map snd xs)) = mset (concat (map snd ys))"
proof -
  have "mset (concat (map snd zs)) = \<Sum>\<^sub># (image_mset (\<lambda>x. mset (snd x)) (mset zs))" for zs :: "('a \<times> 'b list) list"
    by (induction zs) simp_all
  then show ?thesis using assms by simp
qed

section \<open>The accepted configurations\<close>

lemma ValidateConfig_spec:
  assumes "map_iteration rng" and "overlap_contract L addrs" and wf: "wf_map (ParentCIDRs (Spec cfg))"
  shows "ValidateConfig rng L (Some cfg) = Ret None \<longleftrightarrow> valid_config L cfg"
proof -
  let ?m = "ParentCIDRs (Spec cfg)"
  let ?ps = "go_range rng ''validateSpec'' ?m" and ?qs = "go_range rng ''validateParentCIDRs'' ?m"
  have ps: "mset (concat (map snd ?ps)) = mset (config_parents cfg)" "map_of ?ps = map_of ?m" "distinct (map fst ?ps)"
      "fst ` set ?ps = fst ` set ?m"
    and qs: "mset (concat (map snd ?qs)) = mset (config_parents cfg)"
    using map_iteration.mset_go_range [OF assms(1) wf] map_iteration.map_of_go_range [OF assms(1) wf]
      map_iteration.wf_go_range [OF assms(1) wf] map_iteration.set_go_range [OF assms(1) wf]
    unfolding config_parents_def wf_map_def by (auto intro: mset_concat_eq)
  show ?thesis
  proof (cases "\<forall>c \<in> set (config_parents cfg). CHR ''/'' \<in> set c")
    case True
    then have "\<forall>c \<in> set (concat (map snd ?ps)). CHR ''/'' \<in> set c" using mset_eq_setD [OF ps(1)] by simp
    from parent_sizes_Ret [OF this ps(3), of "[Child ''spec'']" "[]" "[]"] obtain sizes errs where
      r: "parent_sizes [Child ''spec''] ?ps [] [] = Ret (sizes, errs)" "map_of sizes = size_map ?ps"
      "errs = [] \<longleftrightarrow> (\<forall>c \<in> set (config_parents cfg). cidr_wellformed c)"
      unfolding mset_eq_setD [OF ps(1)] by (auto simp del: set_concat)
    have sizes: "map_of sizes = size_map ?m" using r(2) ps(2) by (simp add: size_map_def)
    have "validateParentCIDRs rng L ?m fp = [] \<longleftrightarrow>
        (\<forall>i < length (config_parents cfg). \<forall>j < length (config_parents cfg). i \<noteq> j \<longrightarrow>
          PrefixesOverlapping L [config_parents cfg ! i] [config_parents cfg ! j] = None)" for fp
      unfolding overlap_contract.pairwise_index [OF assms(2), symmetric]
        overlap_contract.pairwise_perm [OF assms(2) qs, symmetric]
      by (simp add: validateParentCIDRs_def map_iteration.validate_parents_Nil [OF assms(1)])
    then show ?thesis
      using r by (simp add: ValidateConfig_def validateSpec_def validateInjectionRules_def
          validate_rule_list_Nil [OF sizes] valid_config_def)
  next
    case False
    then obtain c where c: "c \<in> set (config_parents cfg)" "CHR ''/'' \<notin> set c" by auto
    then have "c \<in> set (concat (map snd ?ps))" using mset_eq_setD [OF ps(1)] by simp
    from parent_sizes_Panic [OF this c(2)] have "ValidateConfig rng L (Some cfg) = Panic IndexOutOfRange"
      by (simp add: ValidateConfig_def validateSpec_def)
    moreover have "\<not> cidr_wellformed c" using c(2) by (simp add: cidr_wellformed_def strings_Split_no_sep)
    ultimately show ?thesis using c(1) by (auto simp: valid_config_def)
  qed
qed

lemma ValidateConfig_panic:
  assumes "map_iteration rng" and wf: "wf_map (ParentCIDRs (Spec cfg))"
  shows "(\<exists>p. ValidateConfig rng L (Some cfg) = Panic p) \<longleftrightarrow> (\<exists>c \<in> set (config_parents cfg). CHR ''/'' \<notin> set c)"
proof -
  let ?ps = "go_range rng ''validateSpec'' (ParentCIDRs (Spec cfg))"
  have ps: "set (concat (map snd ?ps)) = set (config_parents cfg)" "distinct (map fst ?ps)"
    using map_iteration.mset_go_range [OF assms] map_iteration.wf_go_range [OF assms]
    by (auto simp: config_parents_def wf_map_def dest: mset_eq_setD)
  show ?thesis
  proof (cases "\<forall>c \<in> set (config_parents cfg). CHR ''/'' \<in> set c")
    case True
    then have "\<exists>r. parent_sizes [Child ''spec''] ?ps [] [] = Ret r"
      using parent_sizes_Ret [OF _ ps(2), of "[Child ''spec'']" "[]" "[]"] ps(1) by force
    then show ?thesis using True by (auto simp: ValidateConfig_def validateSpec_def)
  next
    case False
    then obtain c where c: "c \<in> set (config_parents cfg)" "CHR ''/'' \<notin> set c" by auto
    then have "c \<in> set (concat (map snd ?ps))" using ps(1) by simp
    from parent_sizes_Panic [OF this c(2)] show ?thesis
      using c by (auto simp: ValidateConfig_def validateSpec_def)
  qed
qed

text \<open>C11: the validating webhook accepts exactly the valid configurations, whatever the order in which
  the maps are visited: all parent CIDRs have an integer size and are pairwise disjoint, the rule IDs
  are distinct, and in each rule the injection IDs are distinct and no parent IDs, every injection has
  a path, no path occurs twice, and each parent is a parent ID of larger networks or the ID of an
  earlier injection that requests a larger network.\<close>

theorem ValidateConfig_valid:
  assumes "map_iteration rng" and "overlap_contract L addrs" and "wf_map (ParentCIDRs (Spec cfg))"
  shows "ValidateConfig rng L (Some cfg) = Ret None \<longleftrightarrow> valid_config L cfg"
  by (rule ValidateConfig_spec [OF assms])

text \<open>C40: the validation of a configuration panics exactly if a parent CIDR has no slash: the format
  error is recorded, but the size is read from the missing second part all the same.\<close>

theorem ValidateConfig_panics:
  assumes "map_iteration rng" and "wf_map (ParentCIDRs (Spec cfg))"
  shows "(\<exists>p. ValidateConfig rng L (Some cfg) = Panic p) \<longleftrightarrow> (\<exists>c \<in> set (config_parents cfg). CHR ''/'' \<notin> set c)"
  by (rule ValidateConfig_panic [OF assms])

text \<open>The configuration \<^verbatim>\<open>testdata/config-validation/valid-0.yaml\<close>, without its selectors.\<close>

definition cfg_test :: "(string \<times> string list) list \<Rightarrow> IPAMConfig" where
  "cfg_test ps = \<lparr>Name = ''ipam'', Namespace = [], UID = [], Labels = [], Annotations = [], Finalizers = [],
     OwnerReferences = [], DeletionTimestamp = None,
     Spec = \<lparr>ParentCIDRs = ps,
       InjectionRules =
         [\<lparr>rule_ID = ''mcp-clusters'', rule_Selector = sim_selector, rule_Injections =
            [\<lparr>inj_ID = [], inj_Path = ''.spec.network.cidr'', inj_Paths = [], inj_Parents = [''foo'', ''bar''], inj_SubnetSize = 28\<rparr>]\<rparr>,
          \<lparr>rule_ID = ''test'', rule_Selector = sim_selector, rule_Injections =
            [\<lparr>inj_ID = ''test-cidr'', inj_Path = ''/spec/network/subnetA'', inj_Paths = [], inj_Parents = [''foo''], inj_SubnetSize = 24\<rparr>,
             \<lparr>inj_ID = [], inj_Path = ''.spec.network.subnetB'', inj_Paths = [], inj_Parents = [''test-cidr''], inj_SubnetSize = 30\<rparr>,
             \<lparr>inj_ID = [], inj_Path = ''.spec.network.subnetC'', inj_Paths = [], inj_Parents = [], inj_SubnetSize = 30\<rparr>]\<rparr>],
       InternalStateRefreshCycleDuration = Some 86400000000000\<rparr>\<rparr>"

theorem ValidateConfig_valid_witness:
  "valid_config sim_lib (cfg_test [(''foo'', [''10.27.0.0/16'']), (''bar'', [''10.28.0.0/24''])]) \<and>
   \<not> valid_config sim_lib (cfg_test [(''foo'', [''10.27.0.0/16'']), (''bar'', [''10.27.0.64/16''])])"
proof -
  let ?a = "cfg_test [(''foo'', [''10.27.0.0/16'']), (''bar'', [''10.28.0.0/24''])]"
  let ?b = "cfg_test [(''foo'', [''10.27.0.0/16'']), (''bar'', [''10.27.0.64/16''])]"
  have wf: "wf_map (ParentCIDRs (Spec ?a))" "wf_map (ParentCIDRs (Spec ?b))" by code_simp+
  have "ValidateConfig insertion_order sim_lib (Some ?a) = Ret None" by code_simp
  moreover have "ValidateConfig insertion_order sim_lib (Some ?b) \<noteq> Ret None" by code_simp
  ultimately show ?thesis
    using ValidateConfig_valid [OF insertion.map_iteration_axioms sim_overlap.overlap_contract_axioms wf(1)]
      ValidateConfig_valid [OF insertion.map_iteration_axioms sim_overlap.overlap_contract_axioms wf(2)]
    by simp
qed

theorem ValidateConfig_panics_witness:
  "\<exists>p. ValidateConfig insertion_order sim_lib (Some (cfg_test [(''foo'', [''10.27.0.0''])])) = Panic p"
proof -
  have "wf_map (ParentCIDRs (Spec (cfg_test [(''foo'', [''10.27.0.0''])])))" by code_simp
  moreover have "\<exists>c \<in> set (config_parents (cfg_test [(''foo'', [''10.27.0.0''])])). CHR ''/'' \<notin> set c" by code_simp
  ultimately show ?thesis using ValidateConfig_panics [OF insertion.map_iteration_axioms] by blast
qed

end
