(* ===== verification/Cluster_Mutation.thy ===== *)
theory Cluster_Mutation
  imports Utils
begin

text \<open>
  \<^verbatim>\<open>internal/webhooks/cluster-mutation.go\<close>: the mutating webhook that references the
  ClusterConfigs of the matching rules in a Cluster.
\<close>

section \<open>The webhook\<close>

text \<open>The references to inject, with the ID of their rule, and whether the placeholder is among them.
  The loop ends at the placeholder.\<close>

fun rule_refs ::
  "lib \<Rightarrow> cluster \<Rightarrow> CIDRInjection list \<Rightarrow> string gomap \<Rightarrow> (string gomap \<times> bool) result" where
  "rule_refs L cl [] refs = Inr (refs, False)"
| "rule_refs L cl (rule # rules) refs =
     (if Matches L (rule_Selector rule) cl then
        (case GenerateClusterConfigName L (Some cl) (rule_ID rule) of
           Inl e \<Rightarrow> Inl (Errorf ''failed to generate ClusterConfig name for rule'' [rule_ID rule] (Some e))
         | Inr name \<Rightarrow>
             if name = EmptyClusterNamePlaceholder then Inr (AList.update name [] refs, True)
             else rule_refs L cl rules (AList.update name (rule_ID rule) refs))
      else rule_refs L cl rules refs)"

text \<open>Removing the first placeholder reference.\<close>

fun remove_placeholder :: "string list \<Rightarrow> string list" where
  "remove_placeholder [] = []"
| "remove_placeholder (r # rs) =
     (if r = EmptyClusterNamePlaceholder then rs else r # remove_placeholder rs)"

fun add_refs :: "string list \<Rightarrow> string list \<Rightarrow> string list" where
  "add_refs [] existing = existing"
| "add_refs (ref # refs) existing = add_refs refs (if ref \<in> set existing then existing else existing @ [ref])"

definition Default ::
  "range_order \<Rightarrow> lib \<Rightarrow> ('s, 'w) shared \<Rightarrow> cluster \<Rightarrow> goerr option \<times> cluster" where
  "Default rng L st cl =
     (case GetConfig st of
        None \<Rightarrow> (Some (Errorf ''config not found, unable to inject ClusterConfig references into Cluster'' [] None), cl)
      | Some cfg \<Rightarrow>
          (case rule_refs L cl (InjectionRules (Spec cfg)) [] of
             Inl e \<Rightarrow> (Some e, cl)
           | Inr (refs, generatedPlaceholder) \<Rightarrow>
               let existing = (if generatedPlaceholder then ClusterConfigs cl
                               else remove_placeholder (ClusterConfigs cl))
               in (None, cl\<lparr>ClusterConfigs := add_refs (go_keys rng ''Default'' refs) existing\<rparr>)))"

section \<open>Laws\<close>

lemma set_add_refs [simp]: "set (add_refs refs existing) = set refs \<union> set existing"
  by (induction refs arbitrary: existing) auto

lemma add_refs_prefix: "\<exists>new. add_refs refs existing = existing @ new \<and> distinct new \<and> set new \<inter> set existing = {}"
proof (induction refs arbitrary: existing)
  case (Cons r refs)
  from Cons.IH [of "if r \<in> set existing then existing else existing @ [r]"]
  obtain new where "add_refs (r # refs) existing = (if r \<in> set existing then existing else existing @ [r]) @ new"
    "distinct new" "set new \<inter> set (if r \<in> set existing then existing else existing @ [r]) = {}" by auto
  then show ?case by (intro exI [of _ "if r \<in> set existing then new else r # new"]) auto
qed simp

lemma add_refs_present: "set refs \<subseteq> set existing \<Longrightarrow> add_refs refs existing = existing"
  by (induction refs) auto

lemma remove_placeholder_filter:
  "filter (\<lambda>r. r \<noteq> EmptyClusterNamePlaceholder) (remove_placeholder rs) = filter (\<lambda>r. r \<noteq> EmptyClusterNamePlaceholder) rs"
  by (induction rs) auto

lemma remove_placeholder_subset: "set (remove_placeholder rs) \<subseteq> set rs"
  by (induction rs) auto

lemma remove_placeholder_absent: "EmptyClusterNamePlaceholder \<notin> set rs \<Longrightarrow> remove_placeholder rs = rs"
  by (induction rs) auto

lemma remove_placeholder_once:
  "count_list rs EmptyClusterNamePlaceholder \<le> 1 \<Longrightarrow> EmptyClusterNamePlaceholder \<notin> set (remove_placeholder rs)"
  by (induction rs) (auto simp: count_list_0_iff)

text \<open>The names of the ClusterConfigs of the rules that match.\<close>

definition ref_names :: "lib \<Rightarrow> cluster \<Rightarrow> CIDRInjection list \<Rightarrow> string set" where
  "ref_names L cl rules =
     {n. \<exists>rule \<in> set rules. Matches L (rule_Selector rule) cl \<and> GenerateClusterConfigName L (Some cl) (rule_ID rule) = Inr n}"

lemma ref_names_simps [simp]:
  "ref_names L cl [] = {}"
  "ref_names L cl (rule # rules) =
     (if Matches L (rule_Selector rule) cl
      then (case GenerateClusterConfigName L (Some cl) (rule_ID rule) of Inl _ \<Rightarrow> {} | Inr n \<Rightarrow> {n}) else {}) \<union>
     ref_names L cl rules"
  by (auto simp: ref_names_def split: sum.split)

lemma unnamed_refs: "Name cl = [] \<Longrightarrow> ref_names L cl rules \<subseteq> {EmptyClusterNamePlaceholder}"
  by (auto simp: ref_names_def GenerateClusterConfigName_def split: if_splits)

lemma rule_refs_names:
  assumes "wf_map refs" and "rule_refs L cl rules refs = Inr (refs', ph)"
  shows "wf_map refs' \<and> (\<not> ph \<longrightarrow> fst ` set refs' = fst ` set refs \<union> ref_names L cl rules) \<and>
    (ph \<longleftrightarrow> EmptyClusterNamePlaceholder \<in> ref_names L cl rules) \<and>
    (ph \<longrightarrow> EmptyClusterNamePlaceholder \<in> fst ` set refs' \<and> fst ` set refs' \<subseteq> fst ` set refs \<union> ref_names L cl rules)"
  using assms
proof (induction rules arbitrary: refs)
  case (Cons rule rules)
  have upd: "fst ` set (AList.update n v refs) = insert n (fst ` set refs)" for n and v :: string
    by (simp add: dom_update)
  have wf: "wf_map (AList.update n v refs)" for n and v :: string using Cons.prems(1) by simp
  show ?case
  proof (cases "Matches L (rule_Selector rule) cl")
    case True
    then obtain n where n: "GenerateClusterConfigName L (Some cl) (rule_ID rule) = Inr n"
      using Cons.prems(2) by (cases "GenerateClusterConfigName L (Some cl) (rule_ID rule)") simp_all
    show ?thesis
    proof (cases "n = EmptyClusterNamePlaceholder")
      case eq: True
      then have "refs' = AList.update n [] refs" "ph" using Cons.prems(2) True n by simp_all
      then show ?thesis using True n eq wf by (simp add: upd) blast
    next
      case False
      then have "rule_refs L cl rules (AList.update n (rule_ID rule) refs) = Inr (refs', ph)"
        using Cons.prems(2) True n by simp
      from Cons.IH [OF wf this] show ?thesis using True n False unfolding upd by auto
    qed
  next
    case False
    then show ?thesis using Cons.IH [OF Cons.prems(1)] Cons.prems(2) by simp
  qed
qed simp

text \<open>How a successful mutation came about.\<close>

lemma Default_ok:
  assumes "map_iteration rng" and "Default rng L st cl = (None, cl')"
  obtains cfg refs where "config st = Some cfg"
    and "cl' = cl\<lparr>ClusterConfigs := add_refs refs
      (if EmptyClusterNamePlaceholder \<in> ref_names L cl (InjectionRules (Spec cfg)) then ClusterConfigs cl
       else remove_placeholder (ClusterConfigs cl))\<rparr>"
    and "set refs \<subseteq> ref_names L cl (InjectionRules (Spec cfg))"
    and "if EmptyClusterNamePlaceholder \<in> ref_names L cl (InjectionRules (Spec cfg))
      then EmptyClusterNamePlaceholder \<in> set refs else set refs = ref_names L cl (InjectionRules (Spec cfg))"
proof -
  obtain cfg where cfg: "config st = Some cfg"
    using assms(2) by (cases "config st") (simp_all add: Default_def GetConfig_def)
  let ?rules = "InjectionRules (Spec cfg)"
  obtain m ph where r: "rule_refs L cl ?rules [] = Inr (m, ph)"
    using assms(2) cfg by (cases "rule_refs L cl ?rules []") (auto simp: Default_def GetConfig_def)
  note names = rule_refs_names [OF wf_map_Nil r]
  have "cl' = cl\<lparr>ClusterConfigs := add_refs (go_keys rng ''Default'' m)
      (if EmptyClusterNamePlaceholder \<in> ref_names L cl ?rules then ClusterConfigs cl
       else remove_placeholder (ClusterConfigs cl))\<rparr>"
    using assms(2) cfg r names by (auto simp: Default_def GetConfig_def Let_def)
  moreover have "set (go_keys rng ''Default'' m) = fst ` set m" by (rule map_iteration.set_go_keys [OF assms(1)])
  ultimately show thesis using that [OF cfg, of "go_keys rng ''Default'' m"] names by (cases ph) simp_all
qed

text \<open>Selectors read the identity, the labels and the purposes of a Cluster, not its references.\<close>

locale selector_contract =
  fixes L :: lib
  assumes Matches_refs: "Matches L sel (cl\<lparr>ClusterConfigs := rs\<rparr>) = Matches L sel cl"
begin

lemma Generate_refs: "GenerateClusterConfigName L (Some (cl\<lparr>ClusterConfigs := rs\<rparr>)) r = GenerateClusterConfigName L (Some cl) r"
  by (simp add: GenerateClusterConfigName_def)

lemma rule_refs_frame: "rule_refs L (cl\<lparr>ClusterConfigs := rs\<rparr>) rules refs = rule_refs L cl rules refs"
  by (induction rules arbitrary: refs) (auto simp: Matches_refs Generate_refs split: sum.split)

end

interpretation sim_selectors: selector_contract sim_lib
  by unfold_locales (simp add: sim_matches_def split: option.split)

text \<open>C22: when the mutating webhook succeeds, only the references of the Cluster have changed; the
  ClusterConfigs of all matching rules are referenced (the placeholder if the Cluster has no name
  yet); apart from the placeholder no reference was lost or moved, and only references of matching
  rules were added; a placeholder that is no longer needed is gone, if it occurred once.\<close>

theorem Default_references:
  assumes "map_iteration rng" and "Default rng L st cl = (None, cl')"
  shows "\<exists>cfg. config st = Some cfg \<and> cl' = cl\<lparr>ClusterConfigs := ClusterConfigs cl'\<rparr> \<and>
    (let names = ref_names L cl (InjectionRules (Spec cfg)) in
     (Name cl = [] \<or> EmptyClusterNamePlaceholder \<notin> names \<longrightarrow> names \<subseteq> set (ClusterConfigs cl')) \<and>
     set (ClusterConfigs cl') \<subseteq> set (ClusterConfigs cl) \<union> names \<and>
     prefix (filter (\<lambda>r. r \<noteq> EmptyClusterNamePlaceholder) (ClusterConfigs cl))
       (filter (\<lambda>r. r \<noteq> EmptyClusterNamePlaceholder) (ClusterConfigs cl')) \<and>
     (EmptyClusterNamePlaceholder \<notin> names \<and> count_list (ClusterConfigs cl) EmptyClusterNamePlaceholder \<le> 1 \<longrightarrow>
       EmptyClusterNamePlaceholder \<notin> set (ClusterConfigs cl')))"
  using assms
proof (rule Default_ok)
  fix cfg :: IPAMConfig and refs
  let ?names = "ref_names L cl (InjectionRules (Spec cfg))"
  let ?old = "if EmptyClusterNamePlaceholder \<in> ?names then ClusterConfigs cl else remove_placeholder (ClusterConfigs cl)"
  assume cfg: "config st = Some cfg" and cl': "cl' = cl\<lparr>ClusterConfigs := add_refs refs ?old\<rparr>"
    and refs: "set refs \<subseteq> ?names"
      "if EmptyClusterNamePlaceholder \<in> ?names then EmptyClusterNamePlaceholder \<in> set refs else set refs = ?names"
  obtain new where new: "add_refs refs ?old = ?old @ new" using add_refs_prefix by blast
  have all: "Name cl = [] \<or> EmptyClusterNamePlaceholder \<notin> ?names \<longrightarrow> ?names \<subseteq> set (ClusterConfigs cl')"
    using refs(2) unnamed_refs [of cl L "InjectionRules (Spec cfg)"] by (auto simp: cl' split: if_splits)
  have "set ?old \<subseteq> set (ClusterConfigs cl)"
    using remove_placeholder_subset by auto
  then have only: "set (ClusterConfigs cl') \<subseteq> set (ClusterConfigs cl) \<union> ?names"
    using refs(1) by (auto simp: cl')
  have kept: "prefix (filter (\<lambda>r. r \<noteq> EmptyClusterNamePlaceholder) (ClusterConfigs cl))
      (filter (\<lambda>r. r \<noteq> EmptyClusterNamePlaceholder) (ClusterConfigs cl'))"
    by (simp add: cl' new remove_placeholder_filter)
  have gone: "EmptyClusterNamePlaceholder \<notin> ?names \<and> count_list (ClusterConfigs cl) EmptyClusterNamePlaceholder \<le> 1 \<longrightarrow>
      EmptyClusterNamePlaceholder \<notin> set (ClusterConfigs cl')"
    using refs(1) remove_placeholder_once [of "ClusterConfigs cl"] by (auto simp: cl')
  have "cl' = cl\<lparr>ClusterConfigs := ClusterConfigs cl'\<rparr>" unfolding cl' by simp
  then show ?thesis using cfg all only kept gone unfolding Let_def by blast
qed


text \<open>C27: the reference the webhook injects is the one of the ClusterConfig the controller generates:
  a successful mutation of a named Cluster references, for every matching rule, the ClusterConfig that
  is generated from any injections of that rule (the generated placeholder excepted).\<close>

theorem Default_names_generated:
  assumes "map_iteration rng" and "Default rng L st cl = (None, cl')" and "config st = Some cfg"
    and "rule \<in> set (InjectionRules (Spec cfg))" and "Matches L (rule_Selector rule) cl"
    and "EmptyClusterNamePlaceholder \<notin> ref_names L cl (InjectionRules (Spec cfg))"
    and "GenerateClusterConfigForInjectionList rng L st cl (rule_ID rule) injections = Ret (Inr cc)"
  shows "Name cc \<in> set (ClusterConfigs cl') \<and> Namespace cc = Namespace cl'"
proof -
  have "GenerateClusterConfigName L (Some cl) (rule_ID rule) = Inr (Name cc)" and ns: "Namespace cc = Namespace cl"
    using assms(7) by (auto simp: GenerateClusterConfigForInjectionList_def split: sum.splits)
  then have "Name cc \<in> ref_names L cl (InjectionRules (Spec cfg))"
    using assms(4,5) by (auto simp: ref_names_def)
  with assms(1,2) show ?thesis
    using assms(3,6) ns by (elim Default_ok) (auto split: if_splits)
qed

section \<open>Witnesses\<close>

definition st_hook :: "(sim, world) shared" where
  "st_hook = sim_state [] \<lparr>w_clusters = [], w_ccs = [], w_config = Some
     \<lparr>Name = ''p'', Namespace = [], UID = [], Labels = [], Annotations = [], Finalizers = [],
      OwnerReferences = [], DeletionTimestamp = None,
      Spec = \<lparr>ParentCIDRs = [], InjectionRules =
        [\<lparr>rule_ID = ''r1'', rule_Selector = sim_selector, rule_Injections = []\<rparr>,
         \<lparr>rule_ID = ''r2'', rule_Selector = sim_selector, rule_Injections = []\<rparr>],
        InternalStateRefreshCycleDuration = None\<rparr>\<rparr>\<rparr>"

definition cl_hook :: cluster where
  "cl_hook = (sim_cluster ''c'')\<lparr>ClusterConfigs := [''other'', EmptyClusterNamePlaceholder, ''c--ipam--r2'']\<rparr>"

definition cl_hooked :: cluster where
  "cl_hooked = (sim_cluster ''c'')\<lparr>ClusterConfigs := [''other'', ''c--ipam--r2'', ''c--ipam--r1'']\<rparr>"

lemma Default_hook: "Default insertion_order sim_lib st_hook cl_hook = (None, cl_hooked)"
  by code_simp

theorem Default_references_witness:
  "prefix (filter (\<lambda>r. r \<noteq> EmptyClusterNamePlaceholder) (ClusterConfigs cl_hook))
     (filter (\<lambda>r. r \<noteq> EmptyClusterNamePlaceholder) (ClusterConfigs cl_hooked))"
  using Default_references [OF insertion.map_iteration_axioms Default_hook] by (auto simp: Let_def)


theorem Default_names_generated_witness:
  "case GenerateClusterConfigForInjectionList insertion_order sim_lib st_hook cl_hook ''r1'' [(''/a'', ''10.0.0.0/24'')] of
     Ret (Inr cc) \<Rightarrow> Name cc \<in> set (ClusterConfigs cl_hooked) | _ \<Rightarrow> False"
proof -
  let ?r = "GenerateClusterConfigForInjectionList insertion_order sim_lib st_hook cl_hook ''r1'' [(''/a'', ''10.0.0.0/24'')]"
  have "(case ?r of Ret (Inr _) \<Rightarrow> True | _ \<Rightarrow> False)" by code_simp
  then obtain cc where cc: "?r = Ret (Inr cc)" by (auto split: go.splits sum.splits)
  obtain cfg where cfg: "config st_hook = Some cfg" and rules: "InjectionRules (Spec cfg) =
      [\<lparr>rule_ID = ''r1'', rule_Selector = sim_selector, rule_Injections = []\<rparr>,
       \<lparr>rule_ID = ''r2'', rule_Selector = sim_selector, rule_Injections = []\<rparr>]"
    by (simp add: st_hook_def sim_state_def)
  have "Matches sim_lib sim_selector cl_hook" by code_simp
  moreover have "GenerateClusterConfigName sim_lib (Some cl_hook) ''r1'' = Inr ''c--ipam--r1''"
    "GenerateClusterConfigName sim_lib (Some cl_hook) ''r2'' = Inr ''c--ipam--r2''" by code_simp+
  moreover have "EmptyClusterNamePlaceholder \<noteq> ''c--ipam--r1''" "EmptyClusterNamePlaceholder \<noteq> ''c--ipam--r2''"
    by code_simp+
  ultimately have "EmptyClusterNamePlaceholder \<notin> ref_names sim_lib cl_hook (InjectionRules (Spec cfg))"
    and "Matches sim_lib (rule_Selector (hd (InjectionRules (Spec cfg)))) cl_hook"
    by (simp_all add: rules)
  then show ?thesis
    using Default_names_generated [OF insertion.map_iteration_axioms Default_hook cfg, of "hd (InjectionRules (Spec cfg))"]
      cc rules by simp
qed

end
