(* ===== verification/System.thy ===== *)
theory System
  imports App Config_Validation Cluster_Mutation
begin

text \<open>
  The running program: after start-up the manager runs the reconciliations of both controllers, in
  any order and any number, while others write to the API server.  A step relation describes this
  at the granularity of whole reconciliations; what holds in all reachable states is shown by
  induction over the steps.
\<close>

section \<open>The system and its steps\<close>

record ('s, 'w) system =
  sys :: "('s, 'w) shared"
  cfgCtrl :: IPAMConfigController

text \<open>
  A step is a reconciliation of a Cluster (for an event of the Cluster or one of its
  ClusterConfigs), the receipt of a queued Cluster with its reconciliation, a reconciliation of the
  config, or a change of the objects in the API server by someone else.  The order of map
  iterations and the clock are arbitrary in each step.
\<close>

inductive sys_step ::
  "'s goipam \<Rightarrow> lib \<Rightarrow> 'w platform_client \<Rightarrow> ('s, 'w) system \<Rightarrow> ('s, 'w) system \<Rightarrow> bool"
  for G :: "'s goipam" and L :: lib and C :: "'w platform_client" where
  cluster: "Reconcile rng G L C er ns name (sys x) = Ret (r, st) \<Longrightarrow> sys_step G L C x (x\<lparr>sys := st\<rparr>)"
| queued: "ClusterWatch (sys x) = cl # cls \<Longrightarrow>
    Reconcile rng G L C er (Namespace cl) (Name cl) ((sys x)\<lparr>ClusterWatch := cls\<rparr>) = Ret (r, st) \<Longrightarrow>
    sys_step G L C x (x\<lparr>sys := st\<rparr>)"
| config: "config_Reconcile rng G L C t name (cfgCtrl x) (sys x) = Ret ((r, c), st) \<Longrightarrow>
    sys_step G L C x \<lparr>sys = st, cfgCtrl = c\<rparr>"
| environment: "sys_step G L C x (x\<lparr>sys := (sys x)\<lparr>platform := w\<rparr>\<rparr>)"

text \<open>The states that can be reached after a start-up that registered the controllers.\<close>

inductive reachable ::
  "'s goipam \<Rightarrow> lib \<Rightarrow> 'w platform_client \<Rightarrow> ('s, 'w) system \<Rightarrow> bool"
  for G :: "'s goipam" and L :: lib and C :: "'w platform_client" where
  start: "IPAM st = None \<Longrightarrow> Run rng G L C E ro st = Ret ((e, steps), st') \<Longrightarrow> steps \<noteq> [] \<Longrightarrow>
    reachable G L C \<lparr>sys = st', cfgCtrl = NewIPAMConfigController (opt_ProviderName (ro_Shared ro)) er now\<rparr>"
| step: "reachable G L C x \<Longrightarrow> sys_step G L C x y \<Longrightarrow> reachable G L C y"

inductive_cases sys_stepE: "sys_step G L C x y"

section \<open>Invariants of the IPAM state\<close>

text \<open>A call that may also wait for the queue of Clusters.\<close>

definition ends_in :: "('s Ipamer option \<Rightarrow> bool) \<Rightarrow> ('a \<times> ('s, 'w) shared) go \<Rightarrow> bool" where
  "ends_in P m = (case m of Ret (a, st) \<Rightarrow> P (IPAM st) | _ \<Rightarrow> True)"

lemma ends_in_simps [simp]:
  "ends_in P (Ret (a, st)) = P (IPAM st)" "ends_in P (Panic p)" "ends_in P Block"
  by (simp_all add: ends_in_def)

lemma ends_in_runs: "runs_within P m \<Longrightarrow> ends_in P m"
  by (cases m) auto

lemma ends_in_bind:
  "ends_in P m \<Longrightarrow> (\<And>a st. P (IPAM st) \<Longrightarrow> ends_in Q (f (a, st))) \<Longrightarrow> ends_in Q (go_bind m f)"
  by (cases m) auto

lemma ends_in_queue:
  "P (IPAM st) \<Longrightarrow> ends_in P (go_bind (queue_clusters cls st) (\<lambda>st'. Ret (a, st')))"
  by (cases "queue_clusters cls st") (auto dest: queue_clusters_Ret)

lemma store_config_ends:
  assumes "P (IPAM st)"
  shows "ends_in P (store_config rng L C cfg st)"
proof -
  have "ends_in P (queue_affected rng L C cfg st)"
    unfolding queue_affected_def
    using assms by (auto intro!: ends_in_bind [OF ends_in_runs [OF FetchRelevantClusters_runs [of P]]]
        ends_in_queue split: sum.split)
  then show ?thesis
    unfolding store_config_def using assms
    by (auto intro!: ends_in_bind [of P] simp: SetConfig_def split: option.split)
qed

context ipam_invariant
begin

lemma refresh_state_ends:
  assumes "ipam_sat False I (IPAM st)"
  shows "ends_in (ipam_sat False I) (refresh_state rng G L C t cfg c st)"
  unfolding refresh_state_def Let_def using assms
  by (auto intro!: ends_in_bind [OF ends_in_runs [OF Restore_sat]] split: option.split)

lemma config_reconcile_ends:
  assumes "ipam_sat False I (IPAM st)"
  shows "ends_in (ipam_sat False I) (config_reconcile rng G L C t name c st)"
proof -
  have "ends_in (ipam_sat False I) (reconcile_stored rng G L C t cfg c st1)" if "ipam_sat False I (IPAM st1)" for cfg st1
    unfolding reconcile_stored_def using that
    by (auto intro!: ends_in_bind [OF store_config_ends] refresh_state_ends split: option.split)
  then show ?thesis
    unfolding config_reconcile_def using assms
    by (auto simp: SetConfig_def split: prod.split sum.split option.split)
qed

lemma config_Reconcile_ends:
  assumes "ipam_sat False I (IPAM st)"
  shows "ends_in (ipam_sat False I) (config_Reconcile rng G L C t name c st)"
  unfolding config_Reconcile_def
  by (auto intro!: ends_in_bind [OF config_reconcile_ends [OF assms]])

lemma sys_step_sat:
  assumes "sys_step G L C x y" and "ipam_sat False I (IPAM (sys x))"
  shows "ipam_sat False I (IPAM (sys y))"
  using assms
proof cases
  case (cluster rng er ns name r st)
  then show ?thesis using Reconcile_runs [OF assms(2), of rng L C er ns name] by simp
next
  case (queued cl cls rng er r st)
  then show ?thesis
    using Reconcile_runs [of "(sys x)\<lparr>ClusterWatch := cls\<rparr>" rng L C er "Namespace cl" "Name cl"] assms(2) by simp
next
  case (config rng t name r c st)
  then show ?thesis using config_Reconcile_ends [OF assms(2), of rng L C t name "cfgCtrl x"] by simp
qed (use assms in simp)

lemma reachable_sat: "reachable G L C x \<Longrightarrow> ipam_sat False I (IPAM (sys x))"
proof (induction rule: reachable.induct)
  case (start st rng E ro e steps st' er now)
  show ?case
  proof (rule Run_steps [OF start(2,3)])
    fix w cfg
    assume "RestoreIPAMFromClusterState rng G L C (st\<lparr>platform := w, config := Some cfg\<rparr>) = Ret (None, st')"
    then show ?thesis
      using Restore_sat [of "st\<lparr>platform := w, config := Some cfg\<rparr>" rng L C] start(1) by simp
  qed
qed (rule sys_step_sat)

end

end
