(* ===== verification/Watches.thy ===== *)
theory Watches
  imports Shared_State
begin

text \<open>
  The \<^verbatim>\<open>SetupWithManager\<close> methods of both controllers: which events of the watched
  resources lead to a reconciliation.  The single predicates come from controller-runtime and
  controller-utils and are a parameter; the conjunctions, disjunctions and negations in which the
  methods combine them are those of the code.
\<close>

section \<open>Events and predicates\<close>

datatype 'o event = CreateEvent 'o | UpdateEvent 'o 'o | DeleteEvent 'o | GenericEvent 'o

text \<open>The object \<^verbatim>\<open>NewPredicateFuncs\<close> passes to its function: the new one of an update.\<close>

fun event_object :: "'o event \<Rightarrow> 'o" where
  "event_object (CreateEvent ob) = ob"
| "event_object (UpdateEvent old new) = new"
| "event_object (DeleteEvent ob) = ob"
| "event_object (GenericEvent ob) = ob"

record 'o predicates =
  OnCreatePredicate :: "'o event \<Rightarrow> bool"
  OnUpdatePredicate :: "'o event \<Rightarrow> bool"
  OnDeletePredicate :: "'o event \<Rightarrow> bool"
  GotAnnotationPredicate :: "string \<Rightarrow> string \<Rightarrow> 'o event \<Rightarrow> bool"
  LostAnnotationPredicate :: "string \<Rightarrow> string \<Rightarrow> 'o event \<Rightarrow> bool"
  HasAnnotationPredicate :: "string \<Rightarrow> string \<Rightarrow> 'o event \<Rightarrow> bool"
  HasLabelPredicate :: "string \<Rightarrow> string \<Rightarrow> 'o event \<Rightarrow> bool"
  ExactNamePredicate :: "string \<Rightarrow> string \<Rightarrow> 'o event \<Rightarrow> bool"
  GenerationChangedPredicate :: "'o event \<Rightarrow> bool"
  DeletionTimestampChangedPredicate :: "'o event \<Rightarrow> bool"

section \<open>The cluster controller\<close>

text \<open>Clusters that match a rule of the current config.\<close>

definition cluster_selected :: "lib \<Rightarrow> ('s, 'w) shared \<Rightarrow> cluster \<Rightarrow> bool" where
  "cluster_selected L st cl =
     (case GetConfig st of
        None \<Rightarrow> False
      | Some cfg \<Rightarrow> list_ex (\<lambda>rule. Matches L (rule_Selector rule) cl) (InjectionRules (Spec cfg)))"

definition cluster_watch :: "cluster predicates \<Rightarrow> lib \<Rightarrow> ('s, 'w) shared \<Rightarrow> cluster event \<Rightarrow> bool" where
  "cluster_watch P L st ev \<longleftrightarrow>
     cluster_selected L st (event_object ev) \<and>
     (OnCreatePredicate P ev \<or> OnDeletePredicate P ev \<or>
      GotAnnotationPredicate P OperationAnnotation OperationAnnotationValueReconcile ev \<or>
      LostAnnotationPredicate P OperationAnnotation OperationAnnotationValueIgnore ev) \<and>
     \<not> HasAnnotationPredicate P OperationAnnotation OperationAnnotationValueIgnore ev"

text \<open>The names are read when the watch is set up.\<close>

definition clusterconfig_watch ::
  "clusterConfig predicates \<Rightarrow> ('s, 'w) shared \<Rightarrow> (clusterConfig event \<Rightarrow> bool) go" where
  "clusterconfig_watch P st =
     go_bind (ProviderName st) (\<lambda>pn. go_bind (Environment st) (\<lambda>env.
       Ret (\<lambda>ev.
         HasLabelPredicate P ManagedByLabel pn ev \<and>
         HasLabelPredicate P ManagedPurposeLabel ManagedPurposeLabelValue ev \<and>
         HasLabelPredicate P EnvironmentLabel env ev \<and>
         (OnUpdatePredicate P ev \<or> OnDeletePredicate P ev \<or>
          GotAnnotationPredicate P OperationAnnotation OperationAnnotationValueReconcile ev \<or>
          LostAnnotationPredicate P OperationAnnotation OperationAnnotationValueIgnore ev) \<and>
         \<not> HasAnnotationPredicate P OperationAnnotation OperationAnnotationValueIgnore ev)))"

section \<open>The config controller\<close>

definition config_watch :: "IPAMConfig predicates \<Rightarrow> string \<Rightarrow> IPAMConfig event \<Rightarrow> bool" where
  "config_watch P name ev \<longleftrightarrow>
     ExactNamePredicate P name [] ev \<and>
     (GenerationChangedPredicate P ev \<or> DeletionTimestampChangedPredicate P ev \<or>
      GotAnnotationPredicate P OperationAnnotation OperationAnnotationValueReconcile ev \<or>
      LostAnnotationPredicate P OperationAnnotation OperationAnnotationValueIgnore ev) \<and>
     \<not> HasAnnotationPredicate P OperationAnnotation OperationAnnotationValueIgnore ev"

section \<open>Laws\<close>

text \<open>What the predicates are documented to do, for objects with the given annotations and labels.\<close>

locale predicate_contract =
  fixes P :: "'o predicates" and anns :: "'o \<Rightarrow> string gomap" and labels :: "'o \<Rightarrow> string gomap"
  assumes OnCreate: "OnCreatePredicate P ev \<longleftrightarrow> (\<exists>ob. ev = CreateEvent ob)"
    and OnUpdate: "OnUpdatePredicate P ev \<longleftrightarrow> (\<exists>old new. ev = UpdateEvent old new)"
    and OnDelete: "OnDeletePredicate P ev \<longleftrightarrow> (\<exists>ob. ev = DeleteEvent ob)"
    and GotAnnotation: "GotAnnotationPredicate P k v (UpdateEvent old new) \<longleftrightarrow>
      map_of (anns old) k \<noteq> Some v \<and> map_of (anns new) k = Some v"
    and LostAnnotation: "LostAnnotationPredicate P k v (UpdateEvent old new) \<longleftrightarrow>
      map_of (anns old) k = Some v \<and> map_of (anns new) k \<noteq> Some v"
    and HasAnnotation: "HasAnnotationPredicate P k v ev \<longleftrightarrow> map_of (anns (event_object ev)) k = Some v"
    and HasLabel: "HasLabelPredicate P k v ev \<longleftrightarrow> map_of (labels (event_object ev)) k = Some v"
begin

lemma operation_change:
  "GotAnnotationPredicate P k v (UpdateEvent old new) \<or> LostAnnotationPredicate P k v' (UpdateEvent old new) \<Longrightarrow>
   map_of (anns old) k \<noteq> map_of (anns new) k"
  by (auto simp: GotAnnotation LostAnnotation)

end

text \<open>A simple instance, for the witnesses.\<close>

definition std_predicates :: "('o \<Rightarrow> string gomap) \<Rightarrow> ('o \<Rightarrow> string gomap) \<Rightarrow> 'o predicates" where
  "std_predicates anns labels =
     \<lparr>OnCreatePredicate = (\<lambda>ev. case ev of CreateEvent _ \<Rightarrow> True | _ \<Rightarrow> False),
      OnUpdatePredicate = (\<lambda>ev. case ev of UpdateEvent _ _ \<Rightarrow> True | _ \<Rightarrow> False),
      OnDeletePredicate = (\<lambda>ev. case ev of DeleteEvent _ \<Rightarrow> True | _ \<Rightarrow> False),
      GotAnnotationPredicate = (\<lambda>k v ev. case ev of UpdateEvent old new \<Rightarrow>
        map_of (anns old) k \<noteq> Some v \<and> map_of (anns new) k = Some v | _ \<Rightarrow> False),
      LostAnnotationPredicate = (\<lambda>k v ev. case ev of UpdateEvent old new \<Rightarrow>
        map_of (anns old) k = Some v \<and> map_of (anns new) k \<noteq> Some v | _ \<Rightarrow> False),
      HasAnnotationPredicate = (\<lambda>k v ev. map_of (anns (event_object ev)) k = Some v),
      HasLabelPredicate = (\<lambda>k v ev. map_of (labels (event_object ev)) k = Some v),
      ExactNamePredicate = (\<lambda>_ _ _. True), GenerationChangedPredicate = (\<lambda>_. True),
      DeletionTimestampChangedPredicate = (\<lambda>_. True)\<rparr>"

interpretation std_clusters: predicate_contract "std_predicates Annotations Labels :: cluster predicates" Annotations Labels
  by unfold_locales (auto simp: std_predicates_def split: event.splits)

interpretation std_ccs: predicate_contract "std_predicates Annotations Labels :: clusterConfig predicates" Annotations Labels
  by unfold_locales (auto simp: std_predicates_def split: event.splits)

text \<open>C33: the creation and the deletion of a Cluster lead to a reconciliation exactly if a rule of the
  current config matches the Cluster and it is not marked to be ignored; an update does so only if the
  operation annotation changes, whatever else changes. In particular, without a config no event leads
  to a reconciliation, and a Cluster that comes to match a rule by an update has to wait for another
  event.\<close>

theorem cluster_watch_events:
  assumes "predicate_contract P Annotations labels"
  shows "(\<forall>ev \<in> {CreateEvent cl, DeleteEvent cl}. cluster_watch P L st ev \<longleftrightarrow> cluster_selected L st cl \<and>
      map_of (Annotations cl) OperationAnnotation \<noteq> Some OperationAnnotationValueIgnore) \<and>
    (cluster_watch P L st (UpdateEvent old cl) \<longrightarrow>
      map_of (Annotations old) OperationAnnotation \<noteq> map_of (Annotations cl) OperationAnnotation) \<and>
    (config st = None \<longrightarrow> \<not> cluster_watch P L st ev)"
proof -
  note laws = predicate_contract.OnCreate [OF assms] predicate_contract.OnDelete [OF assms]
    predicate_contract.HasAnnotation [OF assms]
  have "\<forall>ev \<in> {CreateEvent cl, DeleteEvent cl}. cluster_watch P L st ev \<longleftrightarrow> cluster_selected L st cl \<and>
      map_of (Annotations cl) OperationAnnotation \<noteq> Some OperationAnnotationValueIgnore"
    by (auto simp: cluster_watch_def laws)
  moreover have "cluster_watch P L st (UpdateEvent old cl) \<longrightarrow>
      map_of (Annotations old) OperationAnnotation \<noteq> map_of (Annotations cl) OperationAnnotation"
  proof
    assume "cluster_watch P L st (UpdateEvent old cl)"
    then have "GotAnnotationPredicate P OperationAnnotation OperationAnnotationValueReconcile (UpdateEvent old cl) \<or>
        LostAnnotationPredicate P OperationAnnotation OperationAnnotationValueIgnore (UpdateEvent old cl)"
      by (auto simp: cluster_watch_def laws)
    then show "map_of (Annotations old) OperationAnnotation \<noteq> map_of (Annotations cl) OperationAnnotation"
      by (rule predicate_contract.operation_change [OF assms])
  qed
  moreover have "config st = None \<longrightarrow> \<not> cluster_watch P L st ev"
    by (simp add: cluster_watch_def cluster_selected_def GetConfig_def)
  ultimately show ?thesis by blast
qed

theorem cluster_watch_events_witness:
  "\<not> cluster_watch (std_predicates Annotations Labels) sim_lib (sim_state [] \<lparr>w_clusters = [], w_ccs = [], w_config = None\<rparr>)
     (CreateEvent (sim_cluster ''c''))"
proof -
  have "config (sim_state [] \<lparr>w_clusters = [], w_ccs = [], w_config = None\<rparr>) = None" by (simp add: sim_state_def)
  then show ?thesis using cluster_watch_events [OF std_clusters.predicate_contract_axioms] by blast
qed

text \<open>The watch on ClusterConfigs can be set up once the names of the provider and the environment
  are set. An update or a deletion of a ClusterConfig leads to a reconciliation of its Cluster exactly if
  the ClusterConfig carries the labels the program itself sets for this provider and environment, and
  is not marked to be ignored.\<close>

theorem clusterconfig_watch_events:
  assumes "predicate_contract P Annotations Labels" and "configured st"
  shows "\<exists>watch. clusterconfig_watch P st = Ret watch \<and>
    (\<forall>ev \<in> {UpdateEvent old cc, DeleteEvent cc}. watch ev \<longleftrightarrow>
      map_of (Labels cc) ManagedByLabel = Some (providerName st) \<and>
      map_of (Labels cc) ManagedPurposeLabel = Some ManagedPurposeLabelValue \<and>
      map_of (Labels cc) EnvironmentLabel = Some (environment st) \<and>
      map_of (Annotations cc) OperationAnnotation \<noteq> Some OperationAnnotationValueIgnore)"
  using assms(2) predicate_contract.OnUpdate [OF assms(1)] predicate_contract.OnDelete [OF assms(1)]
    predicate_contract.HasAnnotation [OF assms(1)] predicate_contract.HasLabel [OF assms(1)]
  by (auto simp: clusterconfig_watch_def configured_def ProviderName_def Environment_def)

theorem clusterconfig_watch_events_witness:
  "case clusterconfig_watch (std_predicates Annotations Labels) (sim_state [] \<lparr>w_clusters = [], w_ccs = [], w_config = None\<rparr>) of
     Ret watch \<Rightarrow> watch (DeleteEvent (sim_cc ''c'' ''r'' [] [])) | _ \<Rightarrow> False"
proof -
  let ?st = "sim_state [] \<lparr>w_clusters = [], w_ccs = [], w_config = None\<rparr>"
  let ?cc = "sim_cc ''c'' ''r'' [] []"
  have "map_of (Labels ?cc) ManagedByLabel = Some (providerName ?st)"
    "map_of (Labels ?cc) ManagedPurposeLabel = Some ManagedPurposeLabelValue"
    "map_of (Labels ?cc) EnvironmentLabel = Some (environment ?st)"
    "map_of (Annotations ?cc) OperationAnnotation \<noteq> Some OperationAnnotationValueIgnore"
    by code_simp+
  moreover obtain watch where "clusterconfig_watch (std_predicates Annotations Labels) ?st = Ret watch"
    and "watch (DeleteEvent ?cc) \<longleftrightarrow>
      map_of (Labels ?cc) ManagedByLabel = Some (providerName ?st) \<and>
      map_of (Labels ?cc) ManagedPurposeLabel = Some ManagedPurposeLabelValue \<and>
      map_of (Labels ?cc) EnvironmentLabel = Some (environment ?st) \<and>
      map_of (Annotations ?cc) OperationAnnotation \<noteq> Some OperationAnnotationValueIgnore"
    using clusterconfig_watch_events [OF std_ccs.predicate_contract_axioms sim_state_ready(2),
        of "[]" "\<lparr>w_clusters = [], w_ccs = [], w_config = None\<rparr>" ?cc ?cc] by blast
  ultimately show ?thesis by simp
qed

end
