(* ===== verification/Go_Memory.thy ===== *)
theory Go_Memory
  imports Prelude
begin

text \<open>
  The memory of a Go program as far as aliasing matters: slices, maps and pointers refer to
  cells, a struct that is copied shares the cells its fields refer to.  The theory has the
  allocation and the writes, the interface of a deep copy (a copy that denotes the same value,
  lies in new cells only, and shares no cell within itself) and the ways the generated
  \<^verbatim>\<open>DeepCopyInto\<close> functions build deep copies of slices, maps, pointers and structs from
  those of their parts.
\<close>

section \<open>Cells, allocation and writes\<close>

text \<open>
  Addresses below \<open>limit\<close> are allocated.  A reference is nil or an address; a slice is
  represented by the reference to its array, whose length is the length of the slice.
\<close>

type_synonym addr = nat
type_synonym goref = "addr option"

record 'c memory =
  cells :: "addr \<Rightarrow> 'c option"
  limit :: addr

definition new_cell :: "'c \<Rightarrow> 'c memory \<Rightarrow> addr \<times> 'c memory" where
  "new_cell c m = (limit m, \<lparr>cells = (cells m)(limit m \<mapsto> c), limit = Suc (limit m)\<rparr>)"

definition write_cell :: "addr \<Rightarrow> 'c \<Rightarrow> 'c memory \<Rightarrow> 'c memory" where
  "write_cell a c m = m\<lparr>cells := (cells m)(a \<mapsto> c)\<rparr>"

text \<open>The content of a cell, seen through the view \<open>des\<close> of the type of the reference.\<close>

definition content :: "('c \<Rightarrow> 'e option) \<Rightarrow> 'c memory \<Rightarrow> addr \<Rightarrow> 'e option" where
  "content des m a = Option.bind (cells m a) des"

lemma new_cell_simps [simp]:
  "fst (new_cell c m) = limit m" "limit (snd (new_cell c m)) = Suc (limit m)"
  "cells (snd (new_cell c m)) = (cells m)(limit m \<mapsto> c)"
  by (simp_all add: new_cell_def)

lemma write_cell_simps [simp]:
  "limit (write_cell a c m) = limit m" "cells (write_cell a c m) = (cells m)(a \<mapsto> c)"
  by (simp_all add: write_cell_def)

text \<open>
  \<open>agree A m m'\<close>: nothing was freed and the cells in \<open>A\<close> have kept their content.
  \<open>extends m m'\<close>: this holds for all cells that were allocated.
\<close>

definition agree :: "addr set \<Rightarrow> 'c memory \<Rightarrow> 'c memory \<Rightarrow> bool" where
  "agree A m m' \<longleftrightarrow> limit m \<le> limit m' \<and> (\<forall>a \<in> A. cells m' a = cells m a)"

abbreviation extends :: "'c memory \<Rightarrow> 'c memory \<Rightarrow> bool" where
  "extends m \<equiv> agree {..<limit m} m"

lemma agree_refl [simp]: "agree A m m"
  by (simp add: agree_def)

lemma agree_mono: "agree B m m' \<Longrightarrow> A \<subseteq> B \<Longrightarrow> agree A m m'"
  by (auto simp: agree_def)

lemma agree_trans: "agree A m m' \<Longrightarrow> agree A m' m'' \<Longrightarrow> agree A m m''"
  by (auto simp: agree_def)

lemma agree_limit: "agree A m m' \<Longrightarrow> limit m \<le> limit m'"
  by (simp add: agree_def)

lemma extends_trans: "extends m m' \<Longrightarrow> extends m' m'' \<Longrightarrow> extends m m''"
  by (auto simp: agree_def)

lemma extends_new_cell: "extends m (snd (new_cell c m))"
  by (simp add: agree_def)

lemma agree_write_cell: "a \<notin> A \<Longrightarrow> agree A m (write_cell a c m)"
  by (auto simp: agree_def)

lemma extends_write_cell: "extends m m' \<Longrightarrow> limit m \<le> a \<Longrightarrow> extends m (write_cell a c m')"
  by (auto simp: agree_def)

lemma content_agree: "agree A m m' \<Longrightarrow> a \<in> A \<Longrightarrow> content des m' a = content des m a"
  by (simp add: agree_def content_def)

section \<open>Values in memory and deep copies of them\<close>

text \<open>
  A type of Go values with references: \<open>ok m h\<close> says that the references of \<open>h\<close> refer
  to allocated cells of the right type, \<open>reach m h\<close> lists the cells it refers to, directly
  and indirectly, and \<open>val m h\<close> is the value it denotes, without addresses.
\<close>

locale go_value =
  fixes ok :: "'c memory \<Rightarrow> 'h \<Rightarrow> bool"
    and reach :: "'c memory \<Rightarrow> 'h \<Rightarrow> addr list"
    and val :: "'c memory \<Rightarrow> 'h \<Rightarrow> 'v"
  assumes reach_allocated: "ok m h \<Longrightarrow> set (reach m h) \<subseteq> {..<limit m}"
    and ok_frame: "ok m h \<Longrightarrow> agree (set (reach m h)) m m' \<Longrightarrow> ok m' h"
    and reach_frame: "ok m h \<Longrightarrow> agree (set (reach m h)) m m' \<Longrightarrow> reach m' h = reach m h"
    and val_frame: "ok m h \<Longrightarrow> agree (set (reach m h)) m m' \<Longrightarrow> val m' h = val m h"
begin

lemmas frame = ok_frame reach_frame val_frame

lemma reach_agree: "ok m h \<Longrightarrow> extends m m' \<Longrightarrow> agree (set (reach m h)) m m'"
  by (rule agree_mono [OF _ reach_allocated])

lemma extended:
  assumes "ok m h" and "extends m m'"
  shows "ok m' h" "reach m' h = reach m h" "val m' h = val m h"
  using frame [OF assms(1) reach_agree [OF assms]] by auto

text \<open>Writes to cells that are not reachable change nothing.\<close>

lemma written:
  assumes "ok m h" and "a \<notin> set (reach m h)"
  shows "ok (write_cell a c m) h" "reach (write_cell a c m) h = reach m h"
    "val (write_cell a c m) h = val m h"
  using frame [OF assms(1) agree_write_cell [OF assms(2)]] by auto

end

locale deep_copier = go_value ok reach val
  for ok :: "'c memory \<Rightarrow> 'h \<Rightarrow> bool" and reach :: "'c memory \<Rightarrow> 'h \<Rightarrow> addr list"
    and val :: "'c memory \<Rightarrow> 'h \<Rightarrow> 'v" +
  fixes deepcopy :: "'h \<Rightarrow> 'c memory \<Rightarrow> 'h \<times> 'c memory"
  assumes copy_extends: "ok m h \<Longrightarrow> deepcopy h m = (h', m') \<Longrightarrow> extends m m'"
    and copy_ok: "ok m h \<Longrightarrow> deepcopy h m = (h', m') \<Longrightarrow> ok m' h'"
    and copy_val: "ok m h \<Longrightarrow> deepcopy h m = (h', m') \<Longrightarrow> val m' h' = val m h"
    and copy_fresh: "ok m h \<Longrightarrow> deepcopy h m = (h', m') \<Longrightarrow> set (reach m' h') \<subseteq> {limit m..<limit m'}"
    and copy_unshared: "ok m h \<Longrightarrow> deepcopy h m = (h', m') \<Longrightarrow> distinct (reach m' h')"
begin

lemmas copied = copy_extends copy_ok copy_val copy_fresh copy_unshared

lemma copy_allocated:
  assumes "ok m h" and "deepcopy h m = (h', m')"
  shows "set (reach m' h') \<subseteq> {limit m..<limit m'}" "limit m \<le> limit m'"
  using copy_fresh [OF assms] agree_limit [OF copy_extends [OF assms]] by auto

text \<open>
  The copy is independent of the original: after the copy, the original denotes the value it had
  until one of its own cells is written, and the copy until one of the new cells is.
\<close>

lemma original_kept:
  assumes "ok m h" and "deepcopy h m = (h', m')" and "agree (set (reach m h)) m' m''"
  shows "ok m'' h \<and> val m'' h = val m h"
proof -
  have "agree (set (reach m h)) m m''"
    using reach_agree [OF assms(1) copy_extends [OF assms(1,2)]] assms(3) by (rule agree_trans)
  then show ?thesis
    using ok_frame [OF assms(1)] val_frame [OF assms(1)] by blast
qed

lemma copy_kept:
  assumes "ok m h" and "deepcopy h m = (h', m')" and "agree {limit m..<limit m'} m' m''"
  shows "ok m'' h' \<and> val m'' h' = val m h"
  using frame [OF copy_ok [OF assms(1,2)] agree_mono [OF assms(3) copy_fresh [OF assms(1,2)]]]
    copy_val [OF assms(1,2)] by simp

end

text \<open>Values without references are copied by assignment.\<close>

definition plain_copy :: "'h \<Rightarrow> 'c memory \<Rightarrow> 'h \<times> 'c memory" where
  "plain_copy h m = (h, m)"

interpretation plain: deep_copier "\<lambda>m h. True" "\<lambda>m h. []" "\<lambda>m h. h" plain_copy
  by unfold_locales (auto simp: plain_copy_def)

section \<open>Copying into a fresh array or map\<close>

text \<open>
  The loops of the generated functions: every element is copied and the copy is put into the
  container in cell \<open>b\<close>, which was made before the loop.
\<close>

fun copy_loop ::
  "('e \<Rightarrow> 'c) \<Rightarrow> ('c \<Rightarrow> 'e option) \<Rightarrow> ('k \<Rightarrow> 'h \<Rightarrow> 'e \<Rightarrow> 'e) \<Rightarrow> ('h \<Rightarrow> 'c memory \<Rightarrow> 'h \<times> 'c memory) \<Rightarrow>
     addr \<Rightarrow> ('k \<times> 'h) list \<Rightarrow> 'c memory \<Rightarrow> 'c memory" where
  "copy_loop con des put f b [] m = m"
| "copy_loop con des put f b ((k, h) # items) m =
     (case f h m of (h', m') \<Rightarrow>
        copy_loop con des put f b items (write_cell b (con (put k h' (the (content des m' b)))) m'))"

definition put_all :: "('k \<Rightarrow> 'h \<Rightarrow> 'e \<Rightarrow> 'e) \<Rightarrow> ('k \<times> 'h) list \<Rightarrow> 'e \<Rightarrow> 'e" where
  "put_all put = fold (\<lambda>(k, h). put k h)"

context deep_copier
begin

lemma copy_unreached_write:
  assumes ok: "ok m h" and c: "deepcopy h m = (h', m')" and "b < limit m"
  shows "ok (write_cell b c m') h'" "val (write_cell b c m') h' = val m h"
    "reach (write_cell b c m') h' = reach m' h'"
proof -
  have "b \<notin> set (reach m' h')"
    using copy_fresh [OF ok c] \<open>b < limit m\<close> by auto
  note w = written [OF copy_ok [OF ok c] this]
  show "ok (write_cell b c m') h'" "reach (write_cell b c m') h' = reach m' h'"
    by (rule w)+
  show "val (write_cell b c m') h' = val m h"
    unfolding w(3) by (rule copy_val [OF ok c])
qed

lemma copy_loop_spec:
  assumes con: "\<And>e. des (con e) = Some e"
  assumes "\<forall>(k, h) \<in> set items. ok m0 h" and "extends m0 m" and "limit m0 \<le> b" and "b < limit m"
    and "content des m b = Some e" and "copy_loop con des put deepcopy b items m = m'"
  shows "\<exists>hs. extends m0 m' \<and> agree ({..<limit m} - {b}) m m' \<and>
    list_all2 (\<lambda>(k, h) h'. ok m' h' \<and> val m' h' = val m0 h) items hs \<and>
    set (concat (map (reach m') hs)) \<subseteq> {limit m..<limit m'} \<and> distinct (concat (map (reach m') hs)) \<and>
    content des m' b = Some (put_all put (zip (map fst items) hs) e)"
  using assms(2-)
proof (induction items arbitrary: m e)
  case Nil
  then show ?case by (auto simp: put_all_def)
next
  case (Cons item items)
  obtain k h where item [simp]: "item = (k, h)" by (cases item)
  obtain h1 m1 where c: "deepcopy h m = (h1, m1)" by (cases "deepcopy h m")
  have okh0: "ok m0 h" and ok0: "\<forall>(k, h) \<in> set items. ok m0 h"
    using Cons.prems(1) by auto
  note okh = extended(1) [OF okh0 Cons.prems(2)] and valh = extended(3) [OF okh0 Cons.prems(2)]
  have ext1: "extends m m1" by (rule copy_extends [OF okh c])
  have b1: "content des m1 b = Some e"
    using content_agree [OF ext1, of b des] Cons.prems(4,5) by simp
  define m2 where "m2 = write_cell b (con (put k h1 e)) m1"
  have m2: "limit m2 = limit m1" "extends m0 m2" "content des m2 b = Some (put k h1 e)" "b < limit m2"
    using extends_write_cell [OF extends_trans [OF Cons.prems(2) ext1] Cons.prems(3)]
      agree_limit [OF ext1] Cons.prems(4) by (auto simp: m2_def content_def con)
  have loop: "copy_loop con des put deepcopy b items m2 = m'"
    using Cons.prems(6) by (simp add: c b1 m2_def)
  obtain hs where IH: "extends m0 m'" "agree ({..<limit m2} - {b}) m2 m'"
    "list_all2 (\<lambda>(k, h) h'. ok m' h' \<and> val m' h' = val m0 h) items hs"
    "set (concat (map (reach m') hs)) \<subseteq> {limit m2..<limit m'}" "distinct (concat (map (reach m') hs))"
    "content des m' b = Some (put_all put (zip (map fst items) hs) (put k h1 e))"
    using Cons.IH [OF ok0 m2(2) Cons.prems(3) m2(4,3) loop] by blast
  note h1 = copy_unreached_write [OF okh c Cons.prems(4), of "con (put k h1 e)", folded m2_def]
  have r1: "set (reach m2 h1) \<subseteq> {limit m..<limit m1}"
    using copy_fresh [OF okh c] by (simp add: h1(3))
  have "agree (set (reach m2 h1)) m2 m'"
    using r1 Cons.prems(4) by (intro agree_mono [OF IH(2)]) (auto simp: m2(1))
  note fr = frame [OF h1(1) this]
  have head: "ok m' h1" "val m' h1 = val m0 h" "reach m' h1 = reach m1 h1"
    using fr by (simp_all add: h1 valh)
  have "agree ({..<limit m} - {b}) m m2"
    using ext1 by (auto simp: m2_def agree_def)
  moreover have "agree ({..<limit m} - {b}) m2 m'"
    by (rule agree_mono [OF IH(2)]) (use agree_limit [OF ext1] in \<open>auto simp: m2(1)\<close>)
  ultimately have ag: "agree ({..<limit m} - {b}) m m'" by (rule agree_trans)
  have sub: "set (concat (map (reach m') (h1 # hs))) \<subseteq> {limit m..<limit m'}"
    using r1 IH(4) agree_limit [OF IH(2)] agree_limit [OF ext1] by (fastforce simp: head(3) h1(3) m2(1))
  have dis: "distinct (concat (map (reach m') (h1 # hs)))"
    using r1 IH(4,5) copy_unshared [OF okh c] by (fastforce simp: head(3) h1(3) m2(1))
  show ?case
    using IH(1,3,6) ag sub dis head(1,2) by (intro exI [of _ "h1 # hs"]) (simp add: put_all_def)
qed

end

section \<open>References to arrays, maps and structs\<close>

text \<open>
  What a reference to a cell with content \<open>e\<close> denotes, from its elements \<open>elems e\<close>, the
  well-formedness \<open>valid\<close> of the content and the value \<open>shape e vs\<close> the content denotes when
  its elements denote \<open>vs\<close>.
\<close>

definition ok_ref ::
  "('c \<Rightarrow> 'e option) \<Rightarrow> ('e \<Rightarrow> bool) \<Rightarrow> ('e \<Rightarrow> 'h list) \<Rightarrow> ('c memory \<Rightarrow> 'h \<Rightarrow> bool) \<Rightarrow> 'c memory \<Rightarrow> goref \<Rightarrow> bool" where
  "ok_ref des valid elems ok m r =
     (case r of
        None \<Rightarrow> True
      | Some a \<Rightarrow> a < limit m \<and>
          (case content des m a of None \<Rightarrow> False | Some e \<Rightarrow> valid e \<and> list_all (ok m) (elems e)))"

definition reach_ref ::
  "('c \<Rightarrow> 'e option) \<Rightarrow> ('e \<Rightarrow> 'h list) \<Rightarrow> ('c memory \<Rightarrow> 'h \<Rightarrow> addr list) \<Rightarrow> 'c memory \<Rightarrow> goref \<Rightarrow> addr list" where
  "reach_ref des elems reach m r =
     (case r of
        None \<Rightarrow> []
      | Some a \<Rightarrow> a # (case content des m a of None \<Rightarrow> [] | Some e \<Rightarrow> concat (map (reach m) (elems e))))"

definition val_ref ::
  "('c \<Rightarrow> 'e option) \<Rightarrow> ('e \<Rightarrow> 'h list) \<Rightarrow> ('e \<Rightarrow> 'v list \<Rightarrow> 'w) \<Rightarrow> ('c memory \<Rightarrow> 'h \<Rightarrow> 'v) \<Rightarrow>
     'c memory \<Rightarrow> goref \<Rightarrow> 'w option" where
  "val_ref des elems shape val m r =
     Option.bind r (\<lambda>a. map_option (\<lambda>e. shape e (map (val m) (elems e))) (content des m a))"

lemmas ref_defs = ok_ref_def reach_ref_def val_ref_def

locale ref_value = go_value ok reach val
  for ok :: "'c memory \<Rightarrow> 'h \<Rightarrow> bool" and reach :: "'c memory \<Rightarrow> 'h \<Rightarrow> addr list"
    and val :: "'c memory \<Rightarrow> 'h \<Rightarrow> 'v" +
  fixes des :: "'c \<Rightarrow> 'e option" and valid :: "'e \<Rightarrow> bool" and elems :: "'e \<Rightarrow> 'h list"
    and shape :: "'e \<Rightarrow> 'v list \<Rightarrow> 'w"
begin

lemma elems_frame:
  assumes "ok_ref des valid elems ok m (Some a)"
    and "agree (set (reach_ref des elems reach m (Some a))) m m'"
  shows "\<exists>e. content des m a = Some e \<and> content des m' a = Some e \<and> valid e \<and> a < limit m' \<and>
    (\<forall>h \<in> set (elems e). ok m h \<and> ok m' h \<and> reach m' h = reach m h \<and> val m' h = val m h)"
proof -
  obtain e where e: "content des m a = Some e" "valid e" "\<forall>h \<in> set (elems e). ok m h" "a < limit m"
    using assms(1) by (auto simp: ok_ref_def list_all_iff split: option.splits)
  have "agree (set (reach m h)) m m'" if "h \<in> set (elems e)" for h
    using that by (intro agree_mono [OF assms(2)]) (auto simp: reach_ref_def e(1))
  then have "\<forall>h \<in> set (elems e). ok m h \<and> ok m' h \<and> reach m' h = reach m h \<and> val m' h = val m h"
    using frame e(3) by blast
  moreover have "content des m' a = Some e"
    using content_agree [OF assms(2), of a des] by (simp add: reach_ref_def e(1))
  ultimately show ?thesis
    using e agree_limit [OF assms(2)] by auto
qed

end

sublocale ref_value \<subseteq> ref: go_value "ok_ref des valid elems ok" "reach_ref des elems reach"
  "val_ref des elems shape val"
proof unfold_locales
  fix m r
  assume "ok_ref des valid elems ok m r"
  then show "set (reach_ref des elems reach m r) \<subseteq> {..<limit m}"
    using reach_allocated by (fastforce simp: ref_defs list_all_iff split: option.splits)
next
  fix m r m'
  assume r: "ok_ref des valid elems ok m r" "agree (set (reach_ref des elems reach m r)) m m'"
  have "ok_ref des valid elems ok m' r \<and> reach_ref des elems reach m' r = reach_ref des elems reach m r \<and>
    val_ref des elems shape val m' r = val_ref des elems shape val m r"
  proof (cases r)
    case (Some a)
    obtain e where e: "content des m a = Some e" "content des m' a = Some e" "valid e" "a < limit m'"
      "\<forall>h \<in> set (elems e). ok m h \<and> ok m' h \<and> reach m' h = reach m h \<and> val m' h = val m h"
      using elems_frame r unfolding Some by blast
    show ?thesis
      using e by (simp add: Some ref_defs list_all_iff cong: map_cong)
  qed (simp add: ref_defs)
  then show "ok_ref des valid elems ok m' r" "reach_ref des elems reach m' r = reach_ref des elems reach m r"
    "val_ref des elems shape val m' r = val_ref des elems shape val m r"
    by blast+
qed

text \<open>
  The copy of a reference: nil stays nil; otherwise a new cell with the initial content
  \<open>init e\<close> is filled in the loop over \<open>items e\<close>.
\<close>

definition copy_ref ::
  "('e \<Rightarrow> 'c) \<Rightarrow> ('c \<Rightarrow> 'e option) \<Rightarrow> ('e \<Rightarrow> 'e) \<Rightarrow> ('e \<Rightarrow> ('k \<times> 'h) list) \<Rightarrow> ('k \<Rightarrow> 'h \<Rightarrow> 'e \<Rightarrow> 'e) \<Rightarrow>
     ('h \<Rightarrow> 'c memory \<Rightarrow> 'h \<times> 'c memory) \<Rightarrow> goref \<Rightarrow> 'c memory \<Rightarrow> goref \<times> 'c memory" where
  "copy_ref con des init items put f r m =
     (case r of
        None \<Rightarrow> (None, m)
      | Some a \<Rightarrow>
          let e = the (content des m a)
          in case new_cell (con (init e)) m of
               (b, m1) \<Rightarrow> (Some b, copy_loop con des put f b (items e) m1))"

locale ref_copier = deep_copier ok reach val deepcopy + ref_value ok reach val des valid elems shape
  for ok :: "'c memory \<Rightarrow> 'h \<Rightarrow> bool" and reach :: "'c memory \<Rightarrow> 'h \<Rightarrow> addr list"
    and val :: "'c memory \<Rightarrow> 'h \<Rightarrow> 'v" and deepcopy :: "'h \<Rightarrow> 'c memory \<Rightarrow> 'h \<times> 'c memory"
    and des :: "'c \<Rightarrow> 'e option" and valid :: "'e \<Rightarrow> bool" and elems :: "'e \<Rightarrow> 'h list"
    and shape :: "'e \<Rightarrow> 'v list \<Rightarrow> 'w" +
  fixes con :: "'e \<Rightarrow> 'c" and init :: "'e \<Rightarrow> 'e" and items :: "'e \<Rightarrow> ('k \<times> 'h) list"
    and put :: "'k \<Rightarrow> 'h \<Rightarrow> 'e \<Rightarrow> 'e"
  assumes des_con: "des (con e) = Some e"
    and items_elems: "valid e \<Longrightarrow> set (map snd (items e)) = set (elems e)"
    and filled_valid: "valid e \<Longrightarrow> length hs = length (items e) \<Longrightarrow>
      valid (put_all put (zip (map fst (items e)) hs) (init e))"
    and filled_elems: "valid e \<Longrightarrow> length hs = length (items e) \<Longrightarrow>
      elems (put_all put (zip (map fst (items e)) hs) (init e)) = hs"
    and filled_shape: "valid e \<Longrightarrow> length hs = length (items e) \<Longrightarrow>
      shape (put_all put (zip (map fst (items e)) hs) (init e)) (map (g \<circ> snd) (items e)) =
        shape e (map g (elems e))"
begin

lemma copy_ref_spec:
  assumes "ok_ref des valid elems ok m (Some a)"
    and "copy_ref con des init items put deepcopy (Some a) m = (r', m')"
  shows "\<exists>e hs. content des m a = Some e \<and> valid e \<and> r' = Some (limit m) \<and> extends m m' \<and> limit m < limit m' \<and>
    list_all2 (\<lambda>(k, h) h'. ok m' h' \<and> val m' h' = val m h) (items e) hs \<and>
    set (concat (map (reach m') hs)) \<subseteq> {Suc (limit m)..<limit m'} \<and> distinct (concat (map (reach m') hs)) \<and>
    content des m' (limit m) = Some (put_all put (zip (map fst (items e)) hs) (init e))"
proof -
  obtain e where e: "content des m a = Some e" "valid e" "\<forall>h \<in> set (elems e). ok m h"
    using assms(1) by (auto simp: ok_ref_def list_all_iff split: option.splits)
  define m1 where "m1 = snd (new_cell (con (init e)) m)"
  have m': "copy_loop con des put deepcopy (limit m) (items e) m1 = m'" and r': "r' = Some (limit m)"
    using assms(2) by (simp_all add: copy_ref_def e(1) m1_def Let_def split_beta)
  have "set (map snd (items e)) = set (elems e)" by (rule items_elems [OF e(2)])
  then have oks: "\<forall>(k, h) \<in> set (items e). ok m h"
    using e(3) by force
  have m1: "extends m m1" "limit m < limit m1" "content des m1 (limit m) = Some (init e)"
    by (simp_all add: m1_def extends_new_cell content_def des_con)
  obtain hs where "extends m m'" and ag: "agree ({..<limit m1} - {limit m}) m1 m'"
    and "list_all2 (\<lambda>(k, h) h'. ok m' h' \<and> val m' h' = val m h) (items e) hs"
    and "set (concat (map (reach m') hs)) \<subseteq> {limit m1..<limit m'}" "distinct (concat (map (reach m') hs))"
    and "content des m' (limit m) = Some (put_all put (zip (map fst (items e)) hs) (init e))"
    using copy_loop_spec [OF des_con oks m1(1) order_refl m1(2,3) m'] by blast
  moreover have "limit m1 = Suc (limit m)" "limit m < limit m'"
    using agree_limit [OF ag] by (simp_all add: m1_def)
  ultimately show ?thesis
    using e(1,2) r' by auto
qed

end

context ref_copier
begin

lemma copy_ref_value:
  assumes r: "ok_ref des valid elems ok m r" and c: "copy_ref con des init items put deepcopy r m = (r', m')"
  shows "extends m m' \<and> ok_ref des valid elems ok m' r' \<and>
    val_ref des elems shape val m' r' = val_ref des elems shape val m r \<and>
    set (reach_ref des elems reach m' r') \<subseteq> {limit m..<limit m'} \<and> distinct (reach_ref des elems reach m' r')"
proof (cases r)
  case None
  then show ?thesis using c by (auto simp: copy_ref_def ref_defs)
next
  case (Some a)
  obtain e hs where e: "content des m a = Some e" "valid e" "r' = Some (limit m)" "extends m m'" "limit m < limit m'"
    and hs: "list_all2 (\<lambda>(k, h) h'. ok m' h' \<and> val m' h' = val m h) (items e) hs"
    and reach: "set (concat (map (reach m') hs)) \<subseteq> {Suc (limit m)..<limit m'}" "distinct (concat (map (reach m') hs))"
    and filled: "content des m' (limit m) = Some (put_all put (zip (map fst (items e)) hs) (init e))"
    using copy_ref_spec r c unfolding Some by blast
  have len: "length hs = length (items e)"
    using list_all2_lengthD [OF hs] by simp
  have vals: "map (val m') hs = map (val m \<circ> snd) (items e)"
    using hs by (auto intro!: nth_equalityI simp: list_all2_conv_all_nth split_beta)
  have oks: "list_all (ok m') hs"
    using hs by (auto simp: list_all2_conv_all_nth list_all_length split_beta)
  show ?thesis
    using e reach oks filled filled_valid [OF e(2) len] filled_elems [OF e(2) len]
      filled_shape [OF e(2) len, of "val m"]
    by (auto simp: Some ref_defs vals)
qed

end

sublocale ref_copier \<subseteq> refc: deep_copier "ok_ref des valid elems ok" "reach_ref des elems reach"
  "val_ref des elems shape val" "copy_ref con des init items put deepcopy"
  by unfold_locales (use copy_ref_value in blast)+

subsection \<open>Slices\<close>

definition slice_put :: "nat \<Rightarrow> 'h \<Rightarrow> 'h list \<Rightarrow> 'h list" where
  "slice_put i h xs = xs[i := h]"

text \<open>
  \<^verbatim>\<open>*out = make([]T, len(*in))\<close> and the loop over the indices; \<open>zero\<close> is the zero
  value of the element type.
\<close>

abbreviation "copy_slice con des zero \<equiv>
  copy_ref con des (\<lambda>xs. replicate (length xs) zero) (enumerate 0) slice_put"
abbreviation "ok_slice des \<equiv> ok_ref des (\<lambda>_. True) (\<lambda>xs. xs)"
abbreviation "reach_slice des \<equiv> reach_ref des (\<lambda>xs. xs)"
abbreviation "val_slice des \<equiv> val_ref des (\<lambda>xs. xs) (\<lambda>_ vs. vs)"

lemma fill_slice_from:
  assumes "length ys = i + length hs"
  shows "put_all slice_put (zip [i..<i + length hs] hs) ys = take i ys @ hs"
  using assms
proof (induction hs arbitrary: i ys)
  case Nil
  then show ?case by (simp add: put_all_def)
next
  case (Cons h hs)
  have "[i..<i + length (h # hs)] = i # [Suc i..<Suc i + length hs]"
    using upt_conv_Cons [of i "i + length (h # hs)"] by simp
  then show ?case
    using Cons.IH [of "ys[i := h]" "Suc i"] Cons.prems
    by (simp add: put_all_def slice_put_def take_Suc_conv_app_nth)
qed

lemma fill_slice:
  assumes "length hs = length xs"
  shows "put_all slice_put (zip [0..<length xs] hs) (replicate (length xs) zero) = hs"
  using fill_slice_from [of "replicate (length xs) zero" 0 hs] assms by simp

locale slice_copier = deep_copier ok reach val deepcopy
  for ok :: "'c memory \<Rightarrow> 'h \<Rightarrow> bool" and reach :: "'c memory \<Rightarrow> 'h \<Rightarrow> addr list"
    and val :: "'c memory \<Rightarrow> 'h \<Rightarrow> 'v" and deepcopy :: "'h \<Rightarrow> 'c memory \<Rightarrow> 'h \<times> 'c memory" +
  fixes con :: "'h list \<Rightarrow> 'c" and des :: "'c \<Rightarrow> 'h list option" and zero :: 'h
  assumes des_con: "des (con xs) = Some xs"

sublocale slice_copier \<subseteq> slice: ref_copier ok reach val deepcopy des "\<lambda>_. True" "\<lambda>xs. xs" "\<lambda>_ vs. vs"
  con "\<lambda>xs. replicate (length xs) zero" "enumerate 0" slice_put
  by unfold_locales (auto simp: des_con fill_slice simp flip: map_map)

context slice_copier
begin

lemma copier: "deep_copier (ok_slice des ok) (reach_slice des reach) (val_slice des val) (copy_slice con des zero deepcopy)"
  by (rule slice.refc.deep_copier_axioms)

end

subsection \<open>Maps\<close>

text \<open>
  \<^verbatim>\<open>make\<close> and the loop over the map in the order \<open>rng\<close>; a nil element is written twice.
  The value of a map does not depend on the order of its entries.
\<close>

definition map_put :: "string \<Rightarrow> goref \<Rightarrow> goref gomap \<Rightarrow> goref gomap" where
  "map_put k r m = AList.update k r (if r = None then AList.update k None m else m)"

abbreviation "copy_map rng site put con des \<equiv> copy_ref con des (\<lambda>_. []) (go_range rng site) put"

abbreviation "ok_map des \<equiv> ok_ref des wf_map (map snd)"
abbreviation "reach_map des \<equiv> reach_ref des (map snd)"
abbreviation "val_map des \<equiv> val_ref des (map snd) (\<lambda>e vs. map_of (zip (map fst e) vs))"

lemma map_put_update: "map_put k r m = AList.update k r m"
  by (induction m) (auto simp: map_put_def)

lemma update_new_key: "k \<notin> fst ` set m \<Longrightarrow> AList.update k v m = m @ [(k, v)]"
  by (induction m) auto

lemma fill_map_from:
  assumes "length hs = length ks" and "distinct (map fst m @ ks)"
  shows "put_all AList.update (zip ks hs) m = m @ zip ks hs"
  using assms
proof (induction ks hs arbitrary: m rule: list_induct2')
  case (4 k ks h hs)
  then show ?case
    by (simp add: put_all_def update_new_key)
qed (simp_all add: put_all_def)

locale map_copier = deep_copier ok reach val deepcopy + map_iteration rng
  for ok :: "'c memory \<Rightarrow> 'h \<Rightarrow> bool" and reach :: "'c memory \<Rightarrow> 'h \<Rightarrow> addr list"
    and val :: "'c memory \<Rightarrow> 'h \<Rightarrow> 'v" and deepcopy :: "'h \<Rightarrow> 'c memory \<Rightarrow> 'h \<times> 'c memory"
    and rng :: range_order +
  fixes con :: "'h gomap \<Rightarrow> 'c" and des :: "'c \<Rightarrow> 'h gomap option" and site :: string
    and put :: "string \<Rightarrow> 'h \<Rightarrow> 'h gomap \<Rightarrow> 'h gomap"
  assumes des_con: "des (con e) = Some e" and put_update: "put k h e = AList.update k h e"
begin

lemma fill_map:
  assumes "distinct ks" and "length hs = length ks"
  shows "put_all put (zip ks hs) [] = zip ks hs"
proof -
  have "put = AList.update"
    by (intro ext) (rule put_update)
  then show ?thesis
    using fill_map_from [of hs ks "[]"] assms by simp
qed

end

sublocale map_copier \<subseteq> gomap: ref_copier ok reach val deepcopy des wf_map "map snd"
  "\<lambda>e vs. map_of (zip (map fst e) vs)" con "\<lambda>_. []" "go_range rng site" put
proof unfold_locales
  fix e :: "'h gomap" and hs :: "'h list"
  assume e: "wf_map e" and "length hs = length (go_range rng site e)"
  then have len: "length hs = length (rng site (map fst e))"
    by (simp add: go_range_def)
  have d: "distinct (rng site (map fst e))"
    using e by (simp add: wf_map_def)
  note filled = fill_map [OF d len]
  show "wf_map (put_all put (zip (map fst (go_range rng site e)) hs) [])"
    using d len by (simp add: filled wf_map_def)
  show "map snd (put_all put (zip (map fst (go_range rng site e)) hs) []) = hs"
    using len by (simp add: filled)
  fix g :: "'h \<Rightarrow> 'v"
  have "zip (rng site (map fst e)) (map (g \<circ> snd) (go_range rng site e)) = map (\<lambda>(k, r). (k, g r)) (go_range rng site e)"
    by (simp add: go_range_def zip_map2 zip_same_conv_map comp_def split_def)
  moreover have "map_of (map (\<lambda>(k, r). (k, g r)) (go_range rng site e)) = map_of (map (\<lambda>(k, r). (k, g r)) e)"
    using e by (simp add: map_of_map)
  ultimately show "map_of (zip (map fst (put_all put (zip (map fst (go_range rng site e)) hs) []))
      (map (g \<circ> snd) (go_range rng site e))) = map_of (zip (map fst e) (map g (map snd e)))"
    using len by (simp add: filled zip_map_map zip_same_conv_map comp_def split_def)
qed (auto simp: des_con)


context map_copier
begin

lemma copier: "deep_copier (ok_map des ok) (reach_map des reach) (val_map des val) (copy_map rng site put con des deepcopy)"
  by (rule gomap.refc.deep_copier_axioms)

end

subsection \<open>Pointers\<close>

text \<open>\<^verbatim>\<open>out := new(T); in.DeepCopyInto(out)\<close>, with the zero value \<open>zero\<close> of the struct.\<close>

definition copy_pointer ::
  "('h \<Rightarrow> 'c) \<Rightarrow> ('c \<Rightarrow> 'h option) \<Rightarrow> 'h \<Rightarrow> ('h \<Rightarrow> 'c memory \<Rightarrow> 'h \<times> 'c memory) \<Rightarrow>
     goref \<Rightarrow> 'c memory \<Rightarrow> goref \<times> 'c memory" where
  "copy_pointer con des zero f r m =
     (case r of
        None \<Rightarrow> (None, m)
      | Some a \<Rightarrow>
          let v = the (content des m a)
          in case new_cell (con zero) m of
               (b, m1) \<Rightarrow> (case f v m1 of (v', m2) \<Rightarrow> (Some b, write_cell b (con v') m2)))"

abbreviation "ok_pointer des \<equiv> ok_ref des (\<lambda>_. True) (\<lambda>x. [x])"
abbreviation "reach_pointer des \<equiv> reach_ref des (\<lambda>x. [x])"
abbreviation "val_pointer des \<equiv> val_ref des (\<lambda>x. [x]) (\<lambda>_ vs. hd vs)"

lemma copy_pointer_ref:
  "copy_pointer con des zero f = copy_ref con des (\<lambda>_. zero) (\<lambda>x. [((), x)]) (\<lambda>_ v _. v) f"
  by (simp add: copy_pointer_def copy_ref_def Let_def split_def fun_eq_iff split: option.splits)

locale pointer_copier = deep_copier ok reach val deepcopy
  for ok :: "'c memory \<Rightarrow> 'h \<Rightarrow> bool" and reach :: "'c memory \<Rightarrow> 'h \<Rightarrow> addr list"
    and val :: "'c memory \<Rightarrow> 'h \<Rightarrow> 'v" and deepcopy :: "'h \<Rightarrow> 'c memory \<Rightarrow> 'h \<times> 'c memory" +
  fixes con :: "'h \<Rightarrow> 'c" and des :: "'c \<Rightarrow> 'h option" and zero :: 'h
  assumes des_con: "des (con x) = Some x"

sublocale pointer_copier \<subseteq> pointer: ref_copier ok reach val deepcopy des "\<lambda>_. True" "\<lambda>x. [x]" "\<lambda>_ vs. hd vs"
  con "\<lambda>_. zero" "\<lambda>x. [((), x)]" "\<lambda>_ v _. v"
  by unfold_locales (auto simp: des_con put_all_def length_Suc_conv)

context pointer_copier
begin

lemma copier:
  "deep_copier (ok_pointer des ok) (reach_pointer des reach) (val_pointer des val) (copy_pointer con des zero deepcopy)"
  unfolding copy_pointer_ref by (rule pointer.refc.deep_copier_axioms)

end

section \<open>Structs\<close>

text \<open>Two fields that are copied one after the other.\<close>

definition copy_both ::
  "('g \<Rightarrow> 'c memory \<Rightarrow> 'g \<times> 'c memory) \<Rightarrow> ('h \<Rightarrow> 'c memory \<Rightarrow> 'h \<times> 'c memory) \<Rightarrow> 'g \<times> 'h \<Rightarrow> 'c memory \<Rightarrow>
     ('g \<times> 'h) \<times> 'c memory" where
  "copy_both f g p m =
     (case f (fst p) m of (x', m1) \<Rightarrow> (case g (snd p) m1 of (y', m2) \<Rightarrow> ((x', y'), m2)))"

locale field_copiers = one: deep_copier ok1 reach1 val1 copy1 + two: deep_copier ok2 reach2 val2 copy2
  for ok1 :: "'c memory \<Rightarrow> 'g \<Rightarrow> bool" and reach1 :: "'c memory \<Rightarrow> 'g \<Rightarrow> addr list"
    and val1 :: "'c memory \<Rightarrow> 'g \<Rightarrow> 'u" and copy1 :: "'g \<Rightarrow> 'c memory \<Rightarrow> 'g \<times> 'c memory"
    and ok2 :: "'c memory \<Rightarrow> 'h \<Rightarrow> bool" and reach2 :: "'c memory \<Rightarrow> 'h \<Rightarrow> addr list"
    and val2 :: "'c memory \<Rightarrow> 'h \<Rightarrow> 'v" and copy2 :: "'h \<Rightarrow> 'c memory \<Rightarrow> 'h \<times> 'c memory"
begin

lemma copy_both_spec:
  assumes ok: "ok1 m x" "ok2 m y" and c: "copy_both copy1 copy2 (x, y) m = ((x', y'), m')"
  shows "extends m m' \<and> ok1 m' x' \<and> ok2 m' y' \<and> val1 m' x' = val1 m x \<and> val2 m' y' = val2 m y \<and>
    set (reach1 m' x' @ reach2 m' y') \<subseteq> {limit m..<limit m'} \<and> distinct (reach1 m' x' @ reach2 m' y')"
proof -
  obtain m1 where c1: "copy1 x m = (x', m1)" and c2: "copy2 y m1 = (y', m')"
    using c by (auto simp: copy_both_def split: prod.splits)
  note ext1 = one.copy_extends [OF ok(1) c1]
  note y = two.extended [OF ok(2) ext1]
  note ext2 = two.copy_extends [OF y(1) c2]
  note x' = one.extended [OF one.copy_ok [OF ok(1) c1] ext2]
  have r1: "set (reach1 m' x') \<subseteq> {limit m..<limit m1}" "distinct (reach1 m' x')"
    unfolding x'(2) by (rule one.copy_fresh [OF ok(1) c1] one.copy_unshared [OF ok(1) c1])+
  have r2: "set (reach2 m' y') \<subseteq> {limit m1..<limit m'}" "distinct (reach2 m' y')"
    by (rule two.copy_fresh [OF y(1) c2] two.copy_unshared [OF y(1) c2])+
  have "val1 m' x' = val1 m x" "val2 m' y' = val2 m y"
    using x'(3) one.copy_val [OF ok(1) c1] two.copy_val [OF y(1) c2] y(3) by (simp_all only:)
  moreover have "limit m \<le> limit m1" "limit m1 \<le> limit m'"
    by (rule agree_limit [OF ext1] agree_limit [OF ext2])+
  ultimately show ?thesis
    using extends_trans [OF ext1 ext2] x'(1) two.copy_ok [OF y(1) c2] r1 r2 by fastforce
qed

end

sublocale field_copiers \<subseteq> both: deep_copier "\<lambda>m p. ok1 m (fst p) \<and> ok2 m (snd p)"
  "\<lambda>m p. reach1 m (fst p) @ reach2 m (snd p)" "\<lambda>m p. (val1 m (fst p), val2 m (snd p))"
  "copy_both copy1 copy2"
proof unfold_locales
  fix m p
  assume "ok1 m (fst p) \<and> ok2 m (snd p)"
  then show "set (reach1 m (fst p) @ reach2 m (snd p)) \<subseteq> {..<limit m}"
    using one.reach_allocated two.reach_allocated by fastforce
next
  fix m m' p
  assume p: "ok1 m (fst p) \<and> ok2 m (snd p)" "agree (set (reach1 m (fst p) @ reach2 m (snd p))) m m'"
  have a: "agree (set (reach1 m (fst p))) m m'" "agree (set (reach2 m (snd p))) m m'"
    by (rule agree_mono [OF p(2)], simp)+
  note f = one.frame [OF conjunct1 [OF p(1)] a(1)] two.frame [OF conjunct2 [OF p(1)] a(2)]
  show "ok1 m' (fst p) \<and> ok2 m' (snd p)"
    "reach1 m' (fst p) @ reach2 m' (snd p) = reach1 m (fst p) @ reach2 m (snd p)"
    "(val1 m' (fst p), val2 m' (snd p)) = (val1 m (fst p), val2 m (snd p))"
    by (simp_all add: f)
next
  fix m m' p p'
  assume "ok1 m (fst p) \<and> ok2 m (snd p)" and "copy_both copy1 copy2 p m = (p', m')"
  then have "extends m m' \<and> ok1 m' (fst p') \<and> ok2 m' (snd p') \<and> val1 m' (fst p') = val1 m (fst p) \<and>
    val2 m' (snd p') = val2 m (snd p) \<and> set (reach1 m' (fst p') @ reach2 m' (snd p')) \<subseteq> {limit m..<limit m'} \<and>
    distinct (reach1 m' (fst p') @ reach2 m' (snd p'))"
    using copy_both_spec [of m "fst p" "snd p" "fst p'" "snd p'" m'] by simp
  then show "extends m m'" "ok1 m' (fst p') \<and> ok2 m' (snd p')"
    "(val1 m' (fst p'), val2 m' (snd p')) = (val1 m (fst p), val2 m (snd p))"
    "set (reach1 m' (fst p') @ reach2 m' (snd p')) \<subseteq> {limit m..<limit m'}"
    "distinct (reach1 m' (fst p') @ reach2 m' (snd p'))"
    by blast+
qed


context field_copiers
begin

lemma copier: "deep_copier (\<lambda>m p. ok1 m (fst p) \<and> ok2 m (snd p)) (\<lambda>m p. reach1 m (fst p) @ reach2 m (snd p))
  (\<lambda>m p. (val1 m (fst p), val2 m (snd p))) (copy_both copy1 copy2)"
  by (rule both.deep_copier_axioms)

end

text \<open>
  A struct whose fields with references are \<open>get s\<close>: the shallow copy \<^verbatim>\<open>*out = *in\<close> in
  which these fields are replaced by copies.
\<close>

definition copy_struct ::
  "('s \<Rightarrow> 'h) \<Rightarrow> ('h \<Rightarrow> 's \<Rightarrow> 's) \<Rightarrow> ('h \<Rightarrow> 'c memory \<Rightarrow> 'h \<times> 'c memory) \<Rightarrow> 's \<Rightarrow> 'c memory \<Rightarrow> 's \<times> 'c memory" where
  "copy_struct get upd f s m = (case f (get s) m of (h, m') \<Rightarrow> (upd h s, m'))"

locale struct_copier = deep_copier ok reach val deepcopy
  for ok :: "'c memory \<Rightarrow> 'h \<Rightarrow> bool" and reach :: "'c memory \<Rightarrow> 'h \<Rightarrow> addr list"
    and val :: "'c memory \<Rightarrow> 'h \<Rightarrow> 'v" and deepcopy :: "'h \<Rightarrow> 'c memory \<Rightarrow> 'h \<times> 'c memory" +
  fixes get :: "'s \<Rightarrow> 'h" and upd :: "'h \<Rightarrow> 's \<Rightarrow> 's" and build :: "'s \<Rightarrow> 'v \<Rightarrow> 'w"
  assumes get_upd: "get (upd h s) = h" and build_upd: "build (upd h s) v = build s v"

sublocale struct_copier \<subseteq> struct: deep_copier "\<lambda>m s. ok m (get s)" "\<lambda>m s. reach m (get s)"
  "\<lambda>m s. build s (val m (get s))" "copy_struct get upd deepcopy"
proof unfold_locales
  fix m s s' m'
  assume s: "ok m (get s)" and "copy_struct get upd deepcopy s m = (s', m')"
  then obtain h where c: "deepcopy (get s) m = (h, m')" and s': "s' = upd h s"
    by (auto simp: copy_struct_def split: prod.splits)
  show "extends m m'" "ok m' (get s')" "build s' (val m' (get s')) = build s (val m (get s))"
    "set (reach m' (get s')) \<subseteq> {limit m..<limit m'}" "distinct (reach m' (get s'))"
    using copied [OF s c] by (simp_all add: s' get_upd build_upd)
next
  fix m s m'
  assume s: "ok m (get s)" "agree (set (reach m (get s))) m m'"
  show "ok m' (get s)" "reach m' (get s) = reach m (get s)"
    "build s (val m' (get s)) = build s (val m (get s))"
    by (rule frame [OF s] arg_cong [OF val_frame [OF s]])+
qed (rule reach_allocated)


context struct_copier
begin

lemma copier: "deep_copier (\<lambda>m s. ok m (get s)) (\<lambda>m s. reach m (get s)) (\<lambda>m s. build s (val m (get s)))
  (copy_struct get upd deepcopy)"
  by (rule struct.deep_copier_axioms)

end

section \<open>Arrays without references\<close>

text \<open>The builtin \<^verbatim>\<open>copy(dst, src)\<close> copies as many elements as both slices have.\<close>

definition go_copy :: "'a list \<Rightarrow> 'a list \<Rightarrow> 'a list" where
  "go_copy dst src = take (length dst) src @ drop (length src) dst"

lemma go_copy_made: "go_copy (replicate (length xs) z) xs = xs"
  by (simp add: go_copy_def)

definition copy_array :: "('a list \<Rightarrow> 'c) \<Rightarrow> ('c \<Rightarrow> 'a list option) \<Rightarrow> 'a \<Rightarrow> goref \<Rightarrow> 'c memory \<Rightarrow> goref \<times> 'c memory" where
  "copy_array con des zero r m =
     (case r of
        None \<Rightarrow> (None, m)
      | Some a \<Rightarrow>
          let xs = the (content des m a); made = replicate (length xs) zero
          in case new_cell (con made) m of
               (b, m1) \<Rightarrow> (Some b, write_cell b (con (go_copy made xs)) m1))"

abbreviation "ok_array des \<equiv> ok_ref des (\<lambda>_. True) (\<lambda>_. [] :: unit list) (\<lambda>_ _. True)"
abbreviation "reach_array des \<equiv> reach_ref des (\<lambda>_. [] :: unit list) (\<lambda>_ _. [])"
abbreviation "val_array des \<equiv> val_ref des (\<lambda>_. [] :: unit list) (\<lambda>xs _. xs) (\<lambda>_ h. h)"

lemma copy_array_ref:
  "copy_array con des zero =
     copy_ref con des (\<lambda>xs. xs) (\<lambda>_. [] :: (unit \<times> unit) list) (\<lambda>_ _ xs. xs) plain_copy"
  by (auto simp: copy_array_def copy_ref_def go_copy_made Let_def new_cell_def write_cell_def fun_eq_iff
      split: option.splits)

locale array_copier =
  fixes con :: "'a list \<Rightarrow> 'c" and des :: "'c \<Rightarrow> 'a list option" and zero :: 'a
  assumes des_con: "des (con xs) = Some xs"

sublocale array_copier \<subseteq> arr: ref_copier "\<lambda>_ _. True" "\<lambda>_ _. []" "\<lambda>_ h. h" plain_copy des "\<lambda>_. True"
  "\<lambda>_. [] :: unit list" "\<lambda>xs _. xs" con "\<lambda>xs. xs" "\<lambda>_. [] :: (unit \<times> unit) list" "\<lambda>_ _ xs. xs"
  by unfold_locales (simp_all add: des_con put_all_def)

context array_copier
begin

lemma copier: "deep_copier (ok_array des) (reach_array des) (val_array des) (copy_array con des zero)"
  unfolding copy_array_ref by (rule arr.refc.deep_copier_axioms)

end

end
