(* ===== verification/Deep_Copy.thy ===== *)
theory Deep_Copy
  imports Go_Memory Shared_State
begin

text \<open>
  \<^verbatim>\<open>api/ipam/v1alpha1/zz_generated.deepcopy.go\<close> over an explicit memory: every generated
  function is proved to be a deep copy in the sense of \<^theory_text>\<open>Go_Memory\<close>.  The other theories treat
  configurations and annotations as plain values; the last sections show that this is justified
  for the shared configuration (\<^verbatim>\<open>internal/shared/config.go\<close>), whatever the callers do
  to the objects they put in or got out, and for the normalization of paths in place.
\<close>

section \<open>The types in memory\<close>

text \<open>
  The structs of \<^verbatim>\<open>config_types.go\<close>, with a type parameter for the fields that are
  references: a reference in memory, or what it denotes.
\<close>

record 'l injection_struct =
  si_ID :: string
  si_Path :: string
  si_Paths :: 'l
  si_Parents :: 'l
  si_SubnetSize :: int

record ('x, 'l) rule_struct =
  sr_ID :: string
  sr_Selector :: 'x
  sr_Injections :: 'l

record ('p, 'r, 'd) spec_struct =
  ss_ParentCIDRs :: 'p
  ss_InjectionRules :: 'r
  ss_InternalStateRefreshCycleDuration :: 'd

record ('x, 's) config_struct =
  sc_TypeMeta :: "string \<times> string"
  sc_ObjectMeta :: 'x
  sc_Spec :: 's

record ('x, 'l) configlist_struct =
  sl_TypeMeta :: "string \<times> string"
  sl_ListMeta :: 'x
  sl_Items :: 'l

type_synonym injection_mem = "goref injection_struct"
type_synonym 'x rule_mem = "('x, goref) rule_struct"
type_synonym spec_mem = "(goref, goref, goref) spec_struct"
type_synonym 'x config_mem = "('x, spec_mem) config_struct"
type_synonym 'x configlist_mem = "('x, goref) configlist_struct"

text \<open>
  What a cell may hold; \<open>'x\<close> are the values of types of other packages (selectors, object and
  list metadata), whose own cells are \<open>Foreign\<close>.
\<close>

datatype 'x cell =
    StringArray "string list"
  | StringMap "string gomap"
  | SliceMap "goref gomap"
  | MapMap "goref gomap"
  | InjectionArray "injection_mem list"
  | RuleArray "'x rule_mem list"
  | ConfigArray "'x config_mem list"
  | DurationCell int
  | PathCell "PathWithSource"
  | InjectionCell "injection_mem"
  | RuleCell "'x rule_mem"
  | SpecCell "spec_mem"
  | ConfigCell "'x config_mem"
  | ConfigListCell "'x configlist_mem"
  | Foreign "'x"

type_synonym 'x mem = "'x cell memory"

text \<open>The views of a cell for the types of references.\<close>

fun as_StringArray :: "'x cell \<Rightarrow> string list option" where
  "as_StringArray (StringArray v) = Some v"
| "as_StringArray _ = None"

fun as_StringMap :: "'x cell \<Rightarrow> string gomap option" where
  "as_StringMap (StringMap v) = Some v"
| "as_StringMap _ = None"

fun as_SliceMap :: "'x cell \<Rightarrow> goref gomap option" where
  "as_SliceMap (SliceMap v) = Some v"
| "as_SliceMap _ = None"

fun as_MapMap :: "'x cell \<Rightarrow> goref gomap option" where
  "as_MapMap (MapMap v) = Some v"
| "as_MapMap _ = None"

fun as_InjectionArray :: "'x cell \<Rightarrow> injection_mem list option" where
  "as_InjectionArray (InjectionArray v) = Some v"
| "as_InjectionArray _ = None"

fun as_RuleArray :: "'x cell \<Rightarrow> 'x rule_mem list option" where
  "as_RuleArray (RuleArray v) = Some v"
| "as_RuleArray _ = None"

fun as_ConfigArray :: "'x cell \<Rightarrow> 'x config_mem list option" where
  "as_ConfigArray (ConfigArray v) = Some v"
| "as_ConfigArray _ = None"

fun as_DurationCell :: "'x cell \<Rightarrow> int option" where
  "as_DurationCell (DurationCell v) = Some v"
| "as_DurationCell _ = None"

fun as_PathCell :: "'x cell \<Rightarrow> PathWithSource option" where
  "as_PathCell (PathCell v) = Some v"
| "as_PathCell _ = None"

fun as_InjectionCell :: "'x cell \<Rightarrow> injection_mem option" where
  "as_InjectionCell (InjectionCell v) = Some v"
| "as_InjectionCell _ = None"

fun as_RuleCell :: "'x cell \<Rightarrow> 'x rule_mem option" where
  "as_RuleCell (RuleCell v) = Some v"
| "as_RuleCell _ = None"

fun as_SpecCell :: "'x cell \<Rightarrow> spec_mem option" where
  "as_SpecCell (SpecCell v) = Some v"
| "as_SpecCell _ = None"

fun as_ConfigCell :: "'x cell \<Rightarrow> 'x config_mem option" where
  "as_ConfigCell (ConfigCell v) = Some v"
| "as_ConfigCell _ = None"

fun as_ConfigListCell :: "'x cell \<Rightarrow> 'x configlist_mem option" where
  "as_ConfigListCell (ConfigListCell v) = Some v"
| "as_ConfigListCell _ = None"

section \<open>The functions of other packages\<close>

text \<open>
  The \<^verbatim>\<open>DeepCopyInto\<close> methods of \<^verbatim>\<open>IdentityLabelPurposeSelector\<close>,
  \<^verbatim>\<open>ObjectMeta\<close> and \<^verbatim>\<open>ListMeta\<close>.
\<close>

record 'x foreign_copy =
  Selector_DeepCopyInto :: "'x \<Rightarrow> 'x mem \<Rightarrow> 'x \<times> 'x mem"
  ObjectMeta_DeepCopyInto :: "'x \<Rightarrow> 'x mem \<Rightarrow> 'x \<times> 'x mem"
  ListMeta_DeepCopyInto :: "'x \<Rightarrow> 'x mem \<Rightarrow> 'x \<times> 'x mem"

section \<open>The generated functions\<close>

abbreviation "copy_strings \<equiv> copy_array StringArray as_StringArray ([] :: string)"

definition SingleCIDRInjection_DeepCopyInto :: "injection_mem \<Rightarrow> 'x mem \<Rightarrow> injection_mem \<times> 'x mem" where
  "SingleCIDRInjection_DeepCopyInto i m =
     (case copy_strings (si_Paths i) m of
        (paths, m1) \<Rightarrow>
          (case copy_strings (si_Parents i) m1 of
             (pars, m2) \<Rightarrow> (i\<lparr>si_Paths := paths, si_Parents := pars\<rparr>, m2)))"

definition zero_injection :: injection_mem where
  "zero_injection = \<lparr>si_ID = [], si_Path = [], si_Paths = None, si_Parents = None, si_SubnetSize = 0\<rparr>"

definition SingleCIDRInjection_DeepCopy :: "goref \<Rightarrow> 'x mem \<Rightarrow> goref \<times> 'x mem" where
  "SingleCIDRInjection_DeepCopy =
     copy_pointer InjectionCell as_InjectionCell zero_injection SingleCIDRInjection_DeepCopyInto"

definition PathWithSource_DeepCopyInto :: "PathWithSource \<Rightarrow> 'x mem \<Rightarrow> PathWithSource \<times> 'x mem" where
  "PathWithSource_DeepCopyInto p m = (p, m)"

definition PathWithSource_DeepCopy :: "goref \<Rightarrow> 'x mem \<Rightarrow> goref \<times> 'x mem" where
  "PathWithSource_DeepCopy =
     copy_pointer PathCell as_PathCell \<lparr>pws_Path = [], pws_Index = 0\<rparr> PathWithSource_DeepCopyInto"

text \<open>The zero value of the types of other packages is a parameter.\<close>

definition CIDRInjection_DeepCopyInto :: "'x foreign_copy \<Rightarrow> 'x rule_mem \<Rightarrow> 'x mem \<Rightarrow> 'x rule_mem \<times> 'x mem" where
  "CIDRInjection_DeepCopyInto F rule m =
     (case Selector_DeepCopyInto F (sr_Selector rule) m of
        (selr, m1) \<Rightarrow>
          (case copy_slice InjectionArray as_InjectionArray zero_injection SingleCIDRInjection_DeepCopyInto
                  (sr_Injections rule) m1 of
             (injs, m2) \<Rightarrow> (rule\<lparr>sr_Selector := selr, sr_Injections := injs\<rparr>, m2)))"

definition zero_rule :: "'x \<Rightarrow> 'x rule_mem" where
  "zero_rule z = \<lparr>sr_ID = [], sr_Selector = z, sr_Injections = None\<rparr>"

definition CIDRInjection_DeepCopy :: "'x foreign_copy \<Rightarrow> 'x \<Rightarrow> goref \<Rightarrow> 'x mem \<Rightarrow> goref \<times> 'x mem" where
  "CIDRInjection_DeepCopy F z = copy_pointer RuleCell as_RuleCell (zero_rule z) (CIDRInjection_DeepCopyInto F)"

text \<open>The order \<open>rng\<close> in which a map is visited is a parameter, as everywhere.\<close>

definition IPAMConfigSpec_DeepCopyInto ::
  "range_order \<Rightarrow> 'x foreign_copy \<Rightarrow> 'x \<Rightarrow> spec_mem \<Rightarrow> 'x mem \<Rightarrow> spec_mem \<times> 'x mem" where
  "IPAMConfigSpec_DeepCopyInto rng F z spec m =
     (case copy_map rng ''IPAMConfigSpec'' map_put SliceMap as_SliceMap copy_strings (ss_ParentCIDRs spec) m of
        (pars, m1) \<Rightarrow>
          (case copy_slice RuleArray as_RuleArray (zero_rule z) (CIDRInjection_DeepCopyInto F)
                  (ss_InjectionRules spec) m1 of
             (rules, m2) \<Rightarrow>
               (case copy_pointer DurationCell as_DurationCell 0 plain_copy
                       (ss_InternalStateRefreshCycleDuration spec) m2 of
                  (cycle, m3) \<Rightarrow>
                    (spec\<lparr>ss_ParentCIDRs := pars, ss_InjectionRules := rules,
                       ss_InternalStateRefreshCycleDuration := cycle\<rparr>, m3))))"

definition zero_spec :: spec_mem where
  "zero_spec = \<lparr>ss_ParentCIDRs = None, ss_InjectionRules = None, ss_InternalStateRefreshCycleDuration = None\<rparr>"

definition IPAMConfigSpec_DeepCopy ::
  "range_order \<Rightarrow> 'x foreign_copy \<Rightarrow> 'x \<Rightarrow> goref \<Rightarrow> 'x mem \<Rightarrow> goref \<times> 'x mem" where
  "IPAMConfigSpec_DeepCopy rng F z =
     copy_pointer SpecCell as_SpecCell zero_spec (IPAMConfigSpec_DeepCopyInto rng F z)"

definition IPAMConfig_DeepCopyInto ::
  "range_order \<Rightarrow> 'x foreign_copy \<Rightarrow> 'x \<Rightarrow> 'x config_mem \<Rightarrow> 'x mem \<Rightarrow> 'x config_mem \<times> 'x mem" where
  "IPAMConfig_DeepCopyInto rng F z cfg m =
     (case ObjectMeta_DeepCopyInto F (sc_ObjectMeta cfg) m of
        (meta, m1) \<Rightarrow>
          (case IPAMConfigSpec_DeepCopyInto rng F z (sc_Spec cfg) m1 of
             (spec, m2) \<Rightarrow> (cfg\<lparr>sc_ObjectMeta := meta, sc_Spec := spec\<rparr>, m2)))"

definition zero_config :: "'x \<Rightarrow> 'x config_mem" where
  "zero_config z = \<lparr>sc_TypeMeta = ([], []), sc_ObjectMeta = z, sc_Spec = zero_spec\<rparr>"

definition IPAMConfig_DeepCopy ::
  "range_order \<Rightarrow> 'x foreign_copy \<Rightarrow> 'x \<Rightarrow> goref \<Rightarrow> 'x mem \<Rightarrow> goref \<times> 'x mem" where
  "IPAMConfig_DeepCopy rng F z =
     copy_pointer ConfigCell as_ConfigCell (zero_config z) (IPAMConfig_DeepCopyInto rng F z)"

definition IPAMConfigList_DeepCopyInto ::
  "range_order \<Rightarrow> 'x foreign_copy \<Rightarrow> 'x \<Rightarrow> 'x configlist_mem \<Rightarrow> 'x mem \<Rightarrow> 'x configlist_mem \<times> 'x mem" where
  "IPAMConfigList_DeepCopyInto rng F z l m =
     (case ListMeta_DeepCopyInto F (sl_ListMeta l) m of
        (meta, m1) \<Rightarrow>
          (case copy_slice ConfigArray as_ConfigArray (zero_config z) (IPAMConfig_DeepCopyInto rng F z)
                  (sl_Items l) m1 of
             (items, m2) \<Rightarrow> (l\<lparr>sl_ListMeta := meta, sl_Items := items\<rparr>, m2)))"

definition IPAMConfigList_DeepCopy ::
  "range_order \<Rightarrow> 'x foreign_copy \<Rightarrow> 'x \<Rightarrow> goref \<Rightarrow> 'x mem \<Rightarrow> goref \<times> 'x mem" where
  "IPAMConfigList_DeepCopy rng F z =
     copy_pointer ConfigListCell as_ConfigListCell \<lparr>sl_TypeMeta = ([], []), sl_ListMeta = z, sl_Items = None\<rparr>
       (IPAMConfigList_DeepCopyInto rng F z)"

text \<open>
  \<^verbatim>\<open>DeepCopyObject\<close> gives the copy as a \<^verbatim>\<open>runtime.Object\<close>, which is nil only if
  the pointer is: the copied pointer is tested before the conversion.
\<close>

datatype runtime_Object = NilObject | ConfigObject goref | ConfigListObject goref

definition IPAMConfig_DeepCopyObject ::
  "range_order \<Rightarrow> 'x foreign_copy \<Rightarrow> 'x \<Rightarrow> goref \<Rightarrow> 'x mem \<Rightarrow> runtime_Object \<times> 'x mem" where
  "IPAMConfig_DeepCopyObject rng F z r m =
     (case IPAMConfig_DeepCopy rng F z r m of
        (c, m') \<Rightarrow> (if c \<noteq> None then ConfigObject c else NilObject, m'))"

definition IPAMConfigList_DeepCopyObject ::
  "range_order \<Rightarrow> 'x foreign_copy \<Rightarrow> 'x \<Rightarrow> goref \<Rightarrow> 'x mem \<Rightarrow> runtime_Object \<times> 'x mem" where
  "IPAMConfigList_DeepCopyObject rng F z r m =
     (case IPAMConfigList_DeepCopy rng F z r m of
        (c, m') \<Rightarrow> (if c \<noteq> None then ConfigListObject c else NilObject, m'))"

text \<open>
  The annotation is a map of maps.  \<^verbatim>\<open>DeepCopyInto\<close> makes a map without testing for nil,
  which \<^verbatim>\<open>DeepCopy\<close> does first.
\<close>

abbreviation "copy_string_map rng \<equiv>
  copy_map rng ''AppliedRulesAnnotation.inner'' AList.update StringMap as_StringMap plain_copy"

definition AppliedRulesAnnotation_DeepCopyInto :: "range_order \<Rightarrow> goref \<Rightarrow> 'x mem \<Rightarrow> goref \<times> 'x mem" where
  "AppliedRulesAnnotation_DeepCopyInto rng r m =
     (let e = (case r of None \<Rightarrow> [] | Some a \<Rightarrow> the (content as_MapMap m a))
      in case new_cell (MapMap []) m of
           (b, m1) \<Rightarrow> (Some b, copy_loop MapMap as_MapMap map_put (copy_string_map rng) b
                                  (go_range rng ''AppliedRulesAnnotation'' e) m1))"

definition AppliedRulesAnnotation_DeepCopy :: "range_order \<Rightarrow> goref \<Rightarrow> 'x mem \<Rightarrow> goref \<times> 'x mem" where
  "AppliedRulesAnnotation_DeepCopy rng r m =
     (if r = None then (None, m) else AppliedRulesAnnotation_DeepCopyInto rng r m)"

section \<open>The generated functions are deep copies\<close>

abbreviation "ok_strings \<equiv> ok_array as_StringArray"
abbreviation "reach_strings \<equiv> reach_array as_StringArray"
abbreviation "val_strings \<equiv> val_array as_StringArray"

definition ok_injection :: "'x mem \<Rightarrow> injection_mem \<Rightarrow> bool" where
  "ok_injection m i \<longleftrightarrow> ok_strings m (si_Paths i) \<and> ok_strings m (si_Parents i)"

definition reach_injection :: "'x mem \<Rightarrow> injection_mem \<Rightarrow> addr list" where
  "reach_injection m i = reach_strings m (si_Paths i) @ reach_strings m (si_Parents i)"

definition val_injection :: "'x mem \<Rightarrow> injection_mem \<Rightarrow> string list option injection_struct" where
  "val_injection m i =
     \<lparr>si_ID = si_ID i, si_Path = si_Path i, si_Paths = val_strings m (si_Paths i),
      si_Parents = val_strings m (si_Parents i), si_SubnetSize = si_SubnetSize i\<rparr>"

lemmas injection_defs = ok_injection_def reach_injection_def val_injection_def

interpretation strings: array_copier StringArray as_StringArray "[]"
  by unfold_locales simp

interpretation two_strings: field_copiers ok_strings reach_strings val_strings copy_strings
  ok_strings reach_strings val_strings copy_strings
  by (intro field_copiers.intro strings.copier)

interpretation injection_fields: struct_copier
  "\<lambda>m p. ok_strings m (fst p) \<and> ok_strings m (snd p)" "\<lambda>m p. reach_strings m (fst p) @ reach_strings m (snd p)"
  "\<lambda>m p. (val_strings m (fst p), val_strings m (snd p))" "copy_both copy_strings copy_strings"
  "\<lambda>i. (si_Paths i, si_Parents i)" "\<lambda>(ps, qs) i. i\<lparr>si_Paths := ps, si_Parents := qs\<rparr>"
  "\<lambda>i (ps, qs). \<lparr>si_ID = si_ID i, si_Path = si_Path i, si_Paths = ps, si_Parents = qs,
     si_SubnetSize = si_SubnetSize i\<rparr>"
  by (intro struct_copier.intro two_strings.copier, unfold_locales) (auto split: prod.splits)

lemma SingleCIDRInjection_struct:
  "SingleCIDRInjection_DeepCopyInto =
     copy_struct (\<lambda>i. (si_Paths i, si_Parents i)) (\<lambda>(ps, qs) i. i\<lparr>si_Paths := ps, si_Parents := qs\<rparr>)
       (copy_both copy_strings copy_strings)"
  by (simp add: SingleCIDRInjection_DeepCopyInto_def copy_struct_def copy_both_def fun_eq_iff split: prod.splits)

interpretation injection: deep_copier ok_injection reach_injection val_injection SingleCIDRInjection_DeepCopyInto
  unfolding SingleCIDRInjection_struct injection_defs [abs_def]
  using injection_fields.copier by simp

interpretation injections: slice_copier ok_injection reach_injection val_injection SingleCIDRInjection_DeepCopyInto
  InjectionArray as_InjectionArray zero_injection
  by unfold_locales simp

interpretation duration: pointer_copier "\<lambda>_ _. True" "\<lambda>_ _. []" "\<lambda>_ d. d" plain_copy DurationCell as_DurationCell 0
  by unfold_locales simp

interpretation injection_pointer: pointer_copier ok_injection reach_injection val_injection
  SingleCIDRInjection_DeepCopyInto InjectionCell as_InjectionCell zero_injection
  by unfold_locales simp

text \<open>
  What the \<^verbatim>\<open>DeepCopyInto\<close> methods of the other packages are relied on for: their values
  are described by \<open>fok\<close>, \<open>freach\<close> and \<open>fval\<close>, and their copies are deep copies.
\<close>

locale foreign_copies = map_iteration rng +
  sel: deep_copier fok freach fval "Selector_DeepCopyInto F" +
  meta: deep_copier fok freach fval "ObjectMeta_DeepCopyInto F" +
  lmeta: deep_copier fok freach fval "ListMeta_DeepCopyInto F"
  for rng :: range_order and F :: "'x foreign_copy" and fok :: "'x mem \<Rightarrow> 'x \<Rightarrow> bool"
    and freach :: "'x mem \<Rightarrow> 'x \<Rightarrow> addr list" and fval :: "'x mem \<Rightarrow> 'x \<Rightarrow> 'v"

subsection \<open>Rules\<close>

definition ok_rule :: "('x mem \<Rightarrow> 'x \<Rightarrow> bool) \<Rightarrow> 'x mem \<Rightarrow> 'x rule_mem \<Rightarrow> bool" where
  "ok_rule fok m r \<longleftrightarrow> fok m (sr_Selector r) \<and> ok_slice as_InjectionArray ok_injection m (sr_Injections r)"

definition reach_rule :: "('x mem \<Rightarrow> 'x \<Rightarrow> addr list) \<Rightarrow> 'x mem \<Rightarrow> 'x rule_mem \<Rightarrow> addr list" where
  "reach_rule freach m r =
     freach m (sr_Selector r) @ reach_slice as_InjectionArray reach_injection m (sr_Injections r)"

type_synonym injection_val = "string list option injection_struct"
type_synonym 'v rule_val = "('v, injection_val list option) rule_struct"

definition val_rule :: "('x mem \<Rightarrow> 'x \<Rightarrow> 'v) \<Rightarrow> 'x mem \<Rightarrow> 'x rule_mem \<Rightarrow> 'v rule_val" where
  "val_rule fval m r =
     \<lparr>sr_ID = sr_ID r, sr_Selector = fval m (sr_Selector r),
      sr_Injections = val_slice as_InjectionArray val_injection m (sr_Injections r)\<rparr>"

lemmas rule_defs = ok_rule_def reach_rule_def val_rule_def

lemma CIDRInjection_struct:
  "CIDRInjection_DeepCopyInto F =
     copy_struct (\<lambda>r. (sr_Selector r, sr_Injections r)) (\<lambda>p r. r\<lparr>sr_Selector := fst p, sr_Injections := snd p\<rparr>)
       (copy_both (Selector_DeepCopyInto F)
          (copy_slice InjectionArray as_InjectionArray zero_injection SingleCIDRInjection_DeepCopyInto))"
  by (simp add: CIDRInjection_DeepCopyInto_def copy_struct_def copy_both_def fun_eq_iff split: prod.splits)

sublocale foreign_copies \<subseteq> rule_parts: field_copiers fok freach fval "Selector_DeepCopyInto F"
  "ok_slice as_InjectionArray ok_injection" "reach_slice as_InjectionArray reach_injection"
  "val_slice as_InjectionArray val_injection"
  "copy_slice InjectionArray as_InjectionArray zero_injection SingleCIDRInjection_DeepCopyInto"
  by (intro field_copiers.intro injections.copier sel.deep_copier_axioms)

sublocale foreign_copies \<subseteq> rule_fields: struct_copier
  "\<lambda>m p. fok m (fst p) \<and> ok_slice as_InjectionArray ok_injection m (snd p)"
  "\<lambda>m p. freach m (fst p) @ reach_slice as_InjectionArray reach_injection m (snd p)"
  "\<lambda>m p. (fval m (fst p), val_slice as_InjectionArray val_injection m (snd p))"
  "copy_both (Selector_DeepCopyInto F)
     (copy_slice InjectionArray as_InjectionArray zero_injection SingleCIDRInjection_DeepCopyInto)"
  "\<lambda>r. (sr_Selector r, sr_Injections r)" "\<lambda>p r. r\<lparr>sr_Selector := fst p, sr_Injections := snd p\<rparr>"
  "\<lambda>r p. \<lparr>sr_ID = sr_ID r, sr_Selector = fst p, sr_Injections = snd p\<rparr>"
  by (intro struct_copier.intro rule_parts.copier, unfold_locales) simp_all

sublocale foreign_copies \<subseteq> rule: deep_copier "ok_rule fok" "reach_rule freach" "val_rule fval"
  "CIDRInjection_DeepCopyInto F"
  unfolding CIDRInjection_struct rule_defs [abs_def] using rule_fields.copier by simp

sublocale foreign_copies \<subseteq> rules: slice_copier "ok_rule fok" "reach_rule freach" "val_rule fval"
  "CIDRInjection_DeepCopyInto F" RuleArray as_RuleArray "zero_rule z" for z
  by unfold_locales simp

subsection \<open>The specification of a configuration\<close>

abbreviation "ok_parents \<equiv> ok_map as_SliceMap ok_strings"
abbreviation "reach_parents \<equiv> reach_map as_SliceMap reach_strings"
abbreviation "val_parents \<equiv> val_map as_SliceMap val_strings"
abbreviation "copy_parents rng \<equiv> copy_map rng ''IPAMConfigSpec'' map_put SliceMap as_SliceMap copy_strings"

abbreviation "ok_rules fok \<equiv> ok_slice as_RuleArray (ok_rule fok)"
abbreviation "reach_rules freach \<equiv> reach_slice as_RuleArray (reach_rule freach)"
abbreviation "val_rules fval \<equiv> val_slice as_RuleArray (val_rule fval)"
abbreviation "copy_rules F z \<equiv> copy_slice RuleArray as_RuleArray (zero_rule z) (CIDRInjection_DeepCopyInto F)"

abbreviation "ok_duration \<equiv> ok_pointer as_DurationCell (\<lambda>_ _. True)"
abbreviation "reach_duration \<equiv> reach_pointer as_DurationCell (\<lambda>_ _. [])"
abbreviation "val_duration \<equiv> val_pointer as_DurationCell (\<lambda>_ d. d)"
abbreviation "copy_duration \<equiv> copy_pointer DurationCell as_DurationCell 0 plain_copy"

definition ok_spec :: "('x mem \<Rightarrow> 'x \<Rightarrow> bool) \<Rightarrow> 'x mem \<Rightarrow> spec_mem \<Rightarrow> bool" where
  "ok_spec fok m s \<longleftrightarrow> ok_parents m (ss_ParentCIDRs s) \<and> ok_rules fok m (ss_InjectionRules s) \<and>
     ok_duration m (ss_InternalStateRefreshCycleDuration s)"

definition reach_spec :: "('x mem \<Rightarrow> 'x \<Rightarrow> addr list) \<Rightarrow> 'x mem \<Rightarrow> spec_mem \<Rightarrow> addr list" where
  "reach_spec freach m s =
     reach_parents m (ss_ParentCIDRs s) @ reach_rules freach m (ss_InjectionRules s) @
     reach_duration m (ss_InternalStateRefreshCycleDuration s)"

type_synonym 'v spec_val =
  "((string \<rightharpoonup> string list option) option, 'v rule_val list option, int option) spec_struct"

definition val_spec :: "('x mem \<Rightarrow> 'x \<Rightarrow> 'v) \<Rightarrow> 'x mem \<Rightarrow> spec_mem \<Rightarrow> 'v spec_val" where
  "val_spec fval m s =
     \<lparr>ss_ParentCIDRs = val_parents m (ss_ParentCIDRs s), ss_InjectionRules = val_rules fval m (ss_InjectionRules s),
      ss_InternalStateRefreshCycleDuration = val_duration m (ss_InternalStateRefreshCycleDuration s)\<rparr>"

lemmas spec_defs = ok_spec_def reach_spec_def val_spec_def

abbreviation "spec_refs s \<equiv> (ss_ParentCIDRs s, ss_InjectionRules s, ss_InternalStateRefreshCycleDuration s)"
abbreviation "set_spec_refs p s \<equiv>
  s\<lparr>ss_ParentCIDRs := fst p, ss_InjectionRules := fst (snd p), ss_InternalStateRefreshCycleDuration := snd (snd p)\<rparr>"

lemma IPAMConfigSpec_struct:
  "IPAMConfigSpec_DeepCopyInto rng F z =
     copy_struct (\<lambda>s. spec_refs s) (\<lambda>p s. set_spec_refs p s)
       (copy_both (copy_parents rng) (copy_both (copy_rules F z) copy_duration))"
  by (simp add: IPAMConfigSpec_DeepCopyInto_def copy_struct_def copy_both_def fun_eq_iff split: prod.splits)

sublocale foreign_copies \<subseteq> parents: map_copier ok_strings reach_strings val_strings copy_strings
  rng SliceMap as_SliceMap "''IPAMConfigSpec''" map_put
  by (intro map_copier.intro strings.copier map_iteration_axioms, unfold_locales) (simp_all add: map_put_update)

sublocale foreign_copies \<subseteq> rules_duration: field_copiers "ok_rules fok" "reach_rules freach" "val_rules fval"
  "copy_rules F z" ok_duration reach_duration val_duration copy_duration for z
  by (intro field_copiers.intro rules.copier duration.copier)

sublocale foreign_copies \<subseteq> spec_parts: field_copiers ok_parents reach_parents val_parents "copy_parents rng"
  "\<lambda>m p. ok_rules fok m (fst p) \<and> ok_duration m (snd p)"
  "\<lambda>m p. reach_rules freach m (fst p) @ reach_duration m (snd p)"
  "\<lambda>m p. (val_rules fval m (fst p), val_duration m (snd p))"
  "copy_both (copy_rules F z) copy_duration" for z
  by (intro field_copiers.intro parents.copier rules_duration.copier)

context foreign_copies
begin

lemma spec_copier: "deep_copier (ok_spec fok) (reach_spec freach) (val_spec fval) (IPAMConfigSpec_DeepCopyInto rng F z)"
proof -
  have "struct_copier_axioms (\<lambda>s. spec_refs s) (\<lambda>p s. set_spec_refs p s)
    (\<lambda>s p. \<lparr>ss_ParentCIDRs = fst p, ss_InjectionRules = fst (snd p),
              ss_InternalStateRefreshCycleDuration = snd (snd p)\<rparr>)"
    by unfold_locales simp_all
  from struct_copier.copier [OF struct_copier.intro [OF spec_parts.copier this]]
  show ?thesis
    unfolding IPAMConfigSpec_struct spec_defs [abs_def] by simp
qed

end

sublocale foreign_copies \<subseteq> spec: deep_copier "ok_spec fok" "reach_spec freach" "val_spec fval"
  "IPAMConfigSpec_DeepCopyInto rng F z" for z
  by (rule spec_copier)

subsection \<open>Configurations and lists of them\<close>

definition ok_config :: "('x mem \<Rightarrow> 'x \<Rightarrow> bool) \<Rightarrow> 'x mem \<Rightarrow> 'x config_mem \<Rightarrow> bool" where
  "ok_config fok m c \<longleftrightarrow> fok m (sc_ObjectMeta c) \<and> ok_spec fok m (sc_Spec c)"

definition reach_config :: "('x mem \<Rightarrow> 'x \<Rightarrow> addr list) \<Rightarrow> 'x mem \<Rightarrow> 'x config_mem \<Rightarrow> addr list" where
  "reach_config freach m c = freach m (sc_ObjectMeta c) @ reach_spec freach m (sc_Spec c)"

type_synonym 'v config_val = "('v, 'v spec_val) config_struct"

definition val_config :: "('x mem \<Rightarrow> 'x \<Rightarrow> 'v) \<Rightarrow> 'x mem \<Rightarrow> 'x config_mem \<Rightarrow> 'v config_val" where
  "val_config fval m c =
     \<lparr>sc_TypeMeta = sc_TypeMeta c, sc_ObjectMeta = fval m (sc_ObjectMeta c), sc_Spec = val_spec fval m (sc_Spec c)\<rparr>"

lemmas config_defs = ok_config_def reach_config_def val_config_def

lemma IPAMConfig_struct:
  "IPAMConfig_DeepCopyInto rng F z =
     copy_struct (\<lambda>c. (sc_ObjectMeta c, sc_Spec c)) (\<lambda>p c. c\<lparr>sc_ObjectMeta := fst p, sc_Spec := snd p\<rparr>)
       (copy_both (ObjectMeta_DeepCopyInto F) (IPAMConfigSpec_DeepCopyInto rng F z))"
  by (simp add: IPAMConfig_DeepCopyInto_def copy_struct_def copy_both_def fun_eq_iff split: prod.splits)

definition ok_configlist :: "('x mem \<Rightarrow> 'x \<Rightarrow> bool) \<Rightarrow> 'x mem \<Rightarrow> 'x configlist_mem \<Rightarrow> bool" where
  "ok_configlist fok m l \<longleftrightarrow> fok m (sl_ListMeta l) \<and> ok_slice as_ConfigArray (ok_config fok) m (sl_Items l)"

definition reach_configlist :: "('x mem \<Rightarrow> 'x \<Rightarrow> addr list) \<Rightarrow> 'x mem \<Rightarrow> 'x configlist_mem \<Rightarrow> addr list" where
  "reach_configlist freach m l =
     freach m (sl_ListMeta l) @ reach_slice as_ConfigArray (reach_config freach) m (sl_Items l)"

definition val_configlist ::
  "('x mem \<Rightarrow> 'x \<Rightarrow> 'v) \<Rightarrow> 'x mem \<Rightarrow> 'x configlist_mem \<Rightarrow> ('v, 'v config_val list option) configlist_struct" where
  "val_configlist fval m l =
     \<lparr>sl_TypeMeta = sl_TypeMeta l, sl_ListMeta = fval m (sl_ListMeta l),
      sl_Items = val_slice as_ConfigArray (val_config fval) m (sl_Items l)\<rparr>"

lemmas configlist_defs = ok_configlist_def reach_configlist_def val_configlist_def

lemma IPAMConfigList_struct:
  "IPAMConfigList_DeepCopyInto rng F z =
     copy_struct (\<lambda>l. (sl_ListMeta l, sl_Items l)) (\<lambda>p l. l\<lparr>sl_ListMeta := fst p, sl_Items := snd p\<rparr>)
       (copy_both (ListMeta_DeepCopyInto F)
          (copy_slice ConfigArray as_ConfigArray (zero_config z) (IPAMConfig_DeepCopyInto rng F z)))"
  by (simp add: IPAMConfigList_DeepCopyInto_def copy_struct_def copy_both_def fun_eq_iff split: prod.splits)

context foreign_copies
begin

lemma config_copier:
  "deep_copier (ok_config fok) (reach_config freach) (val_config fval) (IPAMConfig_DeepCopyInto rng F z)"
proof -
  have "struct_copier_axioms (\<lambda>c :: 'x config_mem. (sc_ObjectMeta c, sc_Spec c))
    (\<lambda>p c. c\<lparr>sc_ObjectMeta := fst p, sc_Spec := snd p\<rparr>)
    (\<lambda>c p. \<lparr>sc_TypeMeta = sc_TypeMeta c, sc_ObjectMeta = fst p, sc_Spec = snd p\<rparr>)"
    by unfold_locales simp_all
  note struct = struct_copier.intro [OF _ this]
  show ?thesis
    using struct_copier.copier
      [OF struct [OF field_copiers.copier [OF field_copiers.intro [OF meta.deep_copier_axioms spec_copier]]]]
    unfolding IPAMConfig_struct config_defs [abs_def] by simp
qed

end

sublocale foreign_copies \<subseteq> config: deep_copier "ok_config fok" "reach_config freach" "val_config fval"
  "IPAMConfig_DeepCopyInto rng F z" for z
  by (rule config_copier)

sublocale foreign_copies \<subseteq> configs: slice_copier "ok_config fok" "reach_config freach" "val_config fval"
  "IPAMConfig_DeepCopyInto rng F z" ConfigArray as_ConfigArray "zero_config z" for z
  by unfold_locales simp

sublocale foreign_copies \<subseteq> config_pointer: pointer_copier "ok_config fok" "reach_config freach" "val_config fval"
  "IPAMConfig_DeepCopyInto rng F z" ConfigCell as_ConfigCell "zero_config z" for z
  by unfold_locales simp

context foreign_copies
begin

lemma configlist_copier:
  "deep_copier (ok_configlist fok) (reach_configlist freach) (val_configlist fval) (IPAMConfigList_DeepCopyInto rng F z)"
proof -
  have "struct_copier_axioms (\<lambda>l :: 'x configlist_mem. (sl_ListMeta l, sl_Items l))
    (\<lambda>p l. l\<lparr>sl_ListMeta := fst p, sl_Items := snd p\<rparr>)
    (\<lambda>l p. \<lparr>sl_TypeMeta = sl_TypeMeta l, sl_ListMeta = fst p, sl_Items = snd p\<rparr>)"
    by unfold_locales simp_all
  note struct = struct_copier.intro [OF _ this]
  show ?thesis
    using struct_copier.copier
      [OF struct [OF field_copiers.copier [OF field_copiers.intro [OF lmeta.deep_copier_axioms configs.copier]]]]
    unfolding IPAMConfigList_struct configlist_defs [abs_def] by simp
qed

end

sublocale foreign_copies \<subseteq> configlist_pointer: pointer_copier "ok_configlist fok" "reach_configlist freach"
  "val_configlist fval" "IPAMConfigList_DeepCopyInto rng F z" ConfigListCell as_ConfigListCell
  "\<lparr>sl_TypeMeta = ([], []), sl_ListMeta = z, sl_Items = None\<rparr>" for z
  by (intro pointer_copier.intro configlist_copier, unfold_locales) simp

sublocale foreign_copies \<subseteq> spec_pointer: pointer_copier "ok_spec fok" "reach_spec freach" "val_spec fval"
  "IPAMConfigSpec_DeepCopyInto rng F z" SpecCell as_SpecCell zero_spec for z
  by unfold_locales simp

sublocale foreign_copies \<subseteq> rule_pointer: pointer_copier "ok_rule fok" "reach_rule freach" "val_rule fval"
  "CIDRInjection_DeepCopyInto F" RuleCell as_RuleCell "zero_rule z" for z
  by unfold_locales simp

context foreign_copies
begin

lemma pointer_copiers:
  "deep_copier (ok_pointer as_RuleCell (ok_rule fok)) (reach_pointer as_RuleCell (reach_rule freach))
     (val_pointer as_RuleCell (val_rule fval))
     (copy_pointer RuleCell as_RuleCell (zero_rule z) (CIDRInjection_DeepCopyInto F))"
  "deep_copier (ok_pointer as_SpecCell (ok_spec fok)) (reach_pointer as_SpecCell (reach_spec freach))
     (val_pointer as_SpecCell (val_spec fval))
     (copy_pointer SpecCell as_SpecCell zero_spec (IPAMConfigSpec_DeepCopyInto rng F z))"
  "deep_copier (ok_pointer as_ConfigCell (ok_config fok)) (reach_pointer as_ConfigCell (reach_config freach))
     (val_pointer as_ConfigCell (val_config fval))
     (copy_pointer ConfigCell as_ConfigCell (zero_config z) (IPAMConfig_DeepCopyInto rng F z))"
  "deep_copier (ok_pointer as_ConfigListCell (ok_configlist fok))
     (reach_pointer as_ConfigListCell (reach_configlist freach))
     (val_pointer as_ConfigListCell (val_configlist fval))
     (copy_pointer ConfigListCell as_ConfigListCell
        \<lparr>sl_TypeMeta = ([], []), sl_ListMeta = z, sl_Items = None\<rparr> (IPAMConfigList_DeepCopyInto rng F z))"
  by (rule rule_pointer.copier spec_pointer.copier config_pointer.copier configlist_pointer.copier)+

end

lemma PathWithSource_plain: "PathWithSource_DeepCopyInto = plain_copy"
  by (simp add: PathWithSource_DeepCopyInto_def plain_copy_def fun_eq_iff)

interpretation path_pointer: pointer_copier "\<lambda>_ _. True" "\<lambda>_ _. []" "\<lambda>_ p. p" PathWithSource_DeepCopyInto
  PathCell as_PathCell "\<lparr>pws_Path = [], pws_Index = 0\<rparr>"
  unfolding PathWithSource_plain by unfold_locales simp

subsection \<open>The annotation\<close>

abbreviation "ok_string_map \<equiv> ok_map as_StringMap (\<lambda>_ _. True)"
abbreviation "reach_string_map \<equiv> reach_map as_StringMap (\<lambda>_ _. [])"
abbreviation "val_string_map \<equiv> val_map as_StringMap (\<lambda>_ s. s)"

abbreviation "ok_annotation \<equiv> ok_map as_MapMap ok_string_map"
abbreviation "reach_annotation \<equiv> reach_map as_MapMap reach_string_map"
abbreviation "val_annotation \<equiv> val_map as_MapMap val_string_map"

lemma AppliedRulesAnnotation_copy:
  "AppliedRulesAnnotation_DeepCopy rng =
     copy_map rng ''AppliedRulesAnnotation'' map_put MapMap as_MapMap (copy_string_map rng)"
  by (simp add: AppliedRulesAnnotation_DeepCopy_def AppliedRulesAnnotation_DeepCopyInto_def copy_ref_def
      fun_eq_iff split: option.splits)

text \<open>A nil receiver of \<^verbatim>\<open>DeepCopyInto\<close> gives an empty map that is not nil.\<close>

lemma AppliedRulesAnnotation_DeepCopyInto_nil:
  assumes "map_iteration rng"
  shows "AppliedRulesAnnotation_DeepCopyInto rng None m = (Some (limit m), snd (new_cell (MapMap []) m))"
  by (simp add: AppliedRulesAnnotation_DeepCopyInto_def new_cell_def map_iteration.go_range_Nil [OF assms])

lemma map_copier_axioms_update:
  "(\<And>e. des (con e) = Some e) \<Longrightarrow> (\<And>k h e. put k h e = AList.update k h e) \<Longrightarrow> map_copier_axioms con des put"
  by unfold_locales

lemma annotation_copier:
  assumes "map_iteration rng"
  shows "deep_copier ok_annotation reach_annotation val_annotation (AppliedRulesAnnotation_DeepCopy rng)"
proof -
  have maps: "map_copier_axioms StringMap as_StringMap AList.update" "map_copier_axioms MapMap as_MapMap map_put"
    by (rule map_copier_axioms_update; simp add: map_put_update)+
  note inner = map_copier.copier [OF map_copier.intro [OF plain.deep_copier_axioms assms maps(1)]]
  show ?thesis
    unfolding AppliedRulesAnnotation_copy by (rule map_copier.copier [OF map_copier.intro [OF inner assms maps(2)]])
qed

text \<open>C21: Every generated \<^verbatim>\<open>DeepCopy\<close> function is a deep copy, if the
  \<^verbatim>\<open>DeepCopyInto\<close> methods of the selector and of the metadata types are: nil is copied to
  nil, the copy denotes the same value as the original in every field, nil slices and maps stay
  nil, no allocated cell is written, the copy consists of new cells only and no two of its
  references share a cell.  The order in which maps are visited plays no role.\<close>

theorem DeepCopy_deep:
  assumes "foreign_copies rng F fok freach fval"
  shows "deep_copier (ok_pointer as_PathCell (\<lambda>_ _. True)) (reach_pointer as_PathCell (\<lambda>_ _. []))
      (val_pointer as_PathCell (\<lambda>_ p. p)) PathWithSource_DeepCopy \<and>
    deep_copier (ok_pointer as_InjectionCell ok_injection) (reach_pointer as_InjectionCell reach_injection)
      (val_pointer as_InjectionCell val_injection) SingleCIDRInjection_DeepCopy \<and>
    deep_copier (ok_pointer as_RuleCell (ok_rule fok)) (reach_pointer as_RuleCell (reach_rule freach))
      (val_pointer as_RuleCell (val_rule fval)) (CIDRInjection_DeepCopy F z) \<and>
    deep_copier (ok_pointer as_SpecCell (ok_spec fok)) (reach_pointer as_SpecCell (reach_spec freach))
      (val_pointer as_SpecCell (val_spec fval)) (IPAMConfigSpec_DeepCopy rng F z) \<and>
    deep_copier (ok_pointer as_ConfigCell (ok_config fok)) (reach_pointer as_ConfigCell (reach_config freach))
      (val_pointer as_ConfigCell (val_config fval)) (IPAMConfig_DeepCopy rng F z) \<and>
    deep_copier (ok_pointer as_ConfigListCell (ok_configlist fok))
      (reach_pointer as_ConfigListCell (reach_configlist freach))
      (val_pointer as_ConfigListCell (val_configlist fval)) (IPAMConfigList_DeepCopy rng F z) \<and>
    deep_copier ok_annotation reach_annotation val_annotation (AppliedRulesAnnotation_DeepCopy rng)"
  unfolding PathWithSource_DeepCopy_def SingleCIDRInjection_DeepCopy_def CIDRInjection_DeepCopy_def
    IPAMConfigSpec_DeepCopy_def IPAMConfig_DeepCopy_def IPAMConfigList_DeepCopy_def
  using foreign_copies.axioms(1) [OF assms]
  by (intro conjI path_pointer.copier injection_pointer.copier annotation_copier
      foreign_copies.pointer_copiers [OF assms])

subsection \<open>An instance for the other packages\<close>

text \<open>A value of another package that refers to a cell of its own, or has no references.\<close>

datatype sim_foreign = Handle goref | Datum string

fun as_Datum :: "sim_foreign cell \<Rightarrow> string option" where
  "as_Datum (Foreign (Datum s)) = Some s"
| "as_Datum _ = None"

abbreviation "ok_datum \<equiv> ok_pointer as_Datum (\<lambda>_ _. True)"
abbreviation "reach_datum \<equiv> reach_pointer as_Datum (\<lambda>_ _. [])"
abbreviation "val_datum \<equiv> val_pointer as_Datum (\<lambda>_ s. s)"

fun sim_fok :: "sim_foreign mem \<Rightarrow> sim_foreign \<Rightarrow> bool" where
  "sim_fok m (Handle r) = ok_datum m r"
| "sim_fok m (Datum s) = True"

fun sim_freach :: "sim_foreign mem \<Rightarrow> sim_foreign \<Rightarrow> addr list" where
  "sim_freach m (Handle r) = reach_datum m r"
| "sim_freach m (Datum s) = []"

fun sim_fval :: "sim_foreign mem \<Rightarrow> sim_foreign \<Rightarrow> string option" where
  "sim_fval m (Handle r) = val_datum m r"
| "sim_fval m (Datum s) = Some s"

fun sim_fcopy :: "sim_foreign \<Rightarrow> sim_foreign mem \<Rightarrow> sim_foreign \<times> sim_foreign mem" where
  "sim_fcopy (Handle r) m =
     (case copy_pointer (\<lambda>s. Foreign (Datum s)) as_Datum [] plain_copy r m of (r', m') \<Rightarrow> (Handle r', m'))"
| "sim_fcopy (Datum s) m = (Datum s, m)"

definition sim_foreign :: "sim_foreign foreign_copy" where
  "sim_foreign = \<lparr>Selector_DeepCopyInto = sim_fcopy, ObjectMeta_DeepCopyInto = sim_fcopy,
                 ListMeta_DeepCopyInto = sim_fcopy\<rparr>"

interpretation datum: pointer_copier "\<lambda>_ _. True" "\<lambda>_ _. []" "\<lambda>_ s. s" plain_copy "\<lambda>s. Foreign (Datum s)" as_Datum "[]"
  by unfold_locales simp

lemma sim_fcopy_deep: "deep_copier sim_fok sim_freach sim_fval sim_fcopy"
proof -
  note d = datum.copier and g = deep_copier.axioms(1) [OF datum.copier]
  show ?thesis
  proof unfold_locales
    fix m h
    assume "sim_fok m h"
    then show "set (sim_freach m h) \<subseteq> {..<limit m}"
      using go_value.reach_allocated [OF g] by (cases h) auto
  next
    fix m h m'
    assume h: "sim_fok m h" "agree (set (sim_freach m h)) m m'"
    have "sim_fok m' h \<and> sim_freach m' h = sim_freach m h \<and> sim_fval m' h = sim_fval m h"
    proof (cases h)
      case (Handle r)
      have r: "ok_datum m r" "agree (set (reach_datum m r)) m m'"
        using h by (simp_all add: Handle)
      show ?thesis
        using go_value.ok_frame [OF g r] go_value.reach_frame [OF g r] go_value.val_frame [OF g r]
        by (simp add: Handle)
    qed simp
    then show "sim_fok m' h" "sim_freach m' h = sim_freach m h" "sim_fval m' h = sim_fval m h"
      by blast+
  next
    fix m h h' m'
    assume h: "sim_fok m h" "sim_fcopy h m = (h', m')"
    have "extends m m' \<and> sim_fok m' h' \<and> sim_fval m' h' = sim_fval m h \<and>
      set (sim_freach m' h') \<subseteq> {limit m..<limit m'} \<and> distinct (sim_freach m' h')"
    proof (cases h)
      case (Handle r)
      obtain r' where r: "ok_datum m r" "copy_pointer (\<lambda>s. Foreign (Datum s)) as_Datum [] plain_copy r m = (r', m')"
        and h': "h' = Handle r'"
        using h by (auto simp: Handle split: prod.splits)
      show ?thesis
        using deep_copier.copied [OF d r] by (simp add: Handle h')
    qed (use h in auto)
    then show "extends m m'" "sim_fok m' h'" "sim_fval m' h' = sim_fval m h"
      "set (sim_freach m' h') \<subseteq> {limit m..<limit m'}" "distinct (sim_freach m' h')"
      by blast+
  qed
qed

interpretation sim_copies: foreign_copies insertion_order sim_foreign sim_fok sim_freach sim_fval
  using sim_fcopy_deep by (intro foreign_copies.intro insertion.map_iteration_axioms) (simp_all add: sim_foreign_def)

section \<open>The shared configuration in memory\<close>

text \<open>
  \<^verbatim>\<open>GetConfig\<close> and \<^verbatim>\<open>SetConfig\<close> of \<^verbatim>\<open>internal/shared/config.go\<close> with the
  package variable \<^verbatim>\<open>config\<close> as a pointer.  The lock makes each of them one step.
\<close>

record 'x shared_memory =
  heap :: "'x mem"
  config_pointer :: goref

definition GetConfig_mem :: "range_order \<Rightarrow> 'x foreign_copy \<Rightarrow> 'x \<Rightarrow> 'x shared_memory \<Rightarrow> goref \<times> 'x shared_memory" where
  "GetConfig_mem rng F z s =
     (case IPAMConfig_DeepCopy rng F z (config_pointer s) (heap s) of (r, m) \<Rightarrow> (r, s\<lparr>heap := m\<rparr>))"

definition SetConfig_mem :: "range_order \<Rightarrow> 'x foreign_copy \<Rightarrow> 'x \<Rightarrow> goref \<Rightarrow> 'x shared_memory \<Rightarrow> 'x shared_memory" where
  "SetConfig_mem rng F z cfg s =
     (case IPAMConfig_DeepCopy rng F z cfg (heap s) of (r, m) \<Rightarrow> s\<lparr>heap := m, config_pointer := r\<rparr>)"

abbreviation "ok_config_pointer fok \<equiv> ok_pointer as_ConfigCell (ok_config fok)"
abbreviation "reach_config_pointer freach \<equiv> reach_pointer as_ConfigCell (reach_config freach)"
abbreviation "val_config_pointer fval \<equiv> val_pointer as_ConfigCell (val_config fval)"

definition shared_value :: "('x mem \<Rightarrow> 'x \<Rightarrow> 'v) \<Rightarrow> 'x shared_memory \<Rightarrow> 'v config_val option" where
  "shared_value fval s = val_config_pointer fval (heap s) (config_pointer s)"

text \<open>
  What the rest of the program does with the configuration, in any order: it gets it, sets it, or
  writes to any cells it has references to, \<open>C\<close>, and allocates new ones.  The trace records
  the values that were got and set.
\<close>

datatype 'v access = Got "'v option" | Put "'v option" | Wrote

inductive access_run ::
  "range_order \<Rightarrow> 'x foreign_copy \<Rightarrow> 'x \<Rightarrow> ('x mem \<Rightarrow> 'x \<Rightarrow> bool) \<Rightarrow> ('x mem \<Rightarrow> 'x \<Rightarrow> addr list) \<Rightarrow>
     ('x mem \<Rightarrow> 'x \<Rightarrow> 'v) \<Rightarrow> 'x shared_memory \<Rightarrow> addr set \<Rightarrow> 'v config_val access list \<Rightarrow>
     'x shared_memory \<Rightarrow> addr set \<Rightarrow> bool"
  for rng F z fok freach fval s0 C0 where
  start: "access_run rng F z fok freach fval s0 C0 [] s0 C0"
| got: "access_run rng F z fok freach fval s0 C0 tr s C \<Longrightarrow> GetConfig_mem rng F z s = (r, s') \<Longrightarrow>
    access_run rng F z fok freach fval s0 C0 (tr @ [Got (val_config_pointer fval (heap s') r)]) s'
      (C \<union> {limit (heap s)..<limit (heap s')})"
| put: "access_run rng F z fok freach fval s0 C0 tr s C \<Longrightarrow> ok_config_pointer fok (heap s) r \<Longrightarrow>
    set (reach_config_pointer freach (heap s) r) \<subseteq> C \<Longrightarrow> SetConfig_mem rng F z r s = s' \<Longrightarrow>
    access_run rng F z fok freach fval s0 C0 (tr @ [Put (val_config_pointer fval (heap s) r)]) s' C"
| wrote: "access_run rng F z fok freach fval s0 C0 tr s C \<Longrightarrow> agree ({..<limit (heap s)} - C) (heap s) m' \<Longrightarrow>
    access_run rng F z fok freach fval s0 C0 (tr @ [Wrote]) (s\<lparr>heap := m'\<rparr>) (C \<union> {limit (heap s)..<limit m'})"

text \<open>The specification: a register that holds the value that was put last.\<close>

fun register_run :: "'v option \<Rightarrow> 'v access list \<Rightarrow> 'v option \<Rightarrow> bool" where
  "register_run v [] v' \<longleftrightarrow> v' = v"
| "register_run v (Got u # tr) v' \<longleftrightarrow> u = v \<and> register_run v tr v'"
| "register_run v (Put u # tr) v' \<longleftrightarrow> register_run u tr v'"
| "register_run v (Wrote # tr) v' \<longleftrightarrow> register_run v tr v'"

lemma register_run_append:
  "register_run v (tr @ tr') v' \<longleftrightarrow> (\<exists>u. register_run v tr u \<and> register_run u tr' v')"
  by (induction v tr v' rule: register_run.induct) auto

text \<open>The shared configuration is well-formed and no caller has a reference into it.\<close>

definition isolated ::
  "('x mem \<Rightarrow> 'x \<Rightarrow> bool) \<Rightarrow> ('x mem \<Rightarrow> 'x \<Rightarrow> addr list) \<Rightarrow> 'x shared_memory \<Rightarrow> addr set \<Rightarrow> bool" where
  "isolated fok freach s C \<longleftrightarrow>
     ok_config_pointer fok (heap s) (config_pointer s) \<and>
     set (reach_config_pointer freach (heap s) (config_pointer s)) \<inter> C = {} \<and> C \<subseteq> {..<limit (heap s)}"

context foreign_copies
begin

lemma config_DeepCopy: "deep_copier (ok_config_pointer fok) (reach_config_pointer freach) (val_config_pointer fval)
  (IPAMConfig_DeepCopy rng F z)"
  unfolding IPAMConfig_DeepCopy_def by (rule pointer_copiers(3))

lemmas shared_go_value = deep_copier.axioms(1) [OF config_DeepCopy]
lemmas shared_copied = deep_copier.copied [OF config_DeepCopy]
lemmas shared_extended = go_value.extended [OF shared_go_value]
lemmas shared_frame = go_value.frame [OF shared_go_value]
lemmas shared_allocated = go_value.reach_allocated [OF shared_go_value]

lemma GetConfig_mem_isolated:
  assumes "isolated fok freach s C" and "GetConfig_mem rng F z s = (r, s')"
  shows "isolated fok freach s' (C \<union> {limit (heap s)..<limit (heap s')})" "shared_value fval s' = shared_value fval s"
    "val_config_pointer fval (heap s') r = shared_value fval s"
proof -
  obtain m where c: "IPAMConfig_DeepCopy rng F z (config_pointer s) (heap s) = (r, m)" and s': "s' = s\<lparr>heap := m\<rparr>"
    using assms(2) by (auto simp: GetConfig_mem_def split: prod.splits)
  have ok: "ok_config_pointer fok (heap s) (config_pointer s)"
    using assms(1) by (simp add: isolated_def)
  note e = shared_extended [OF ok shared_copied(1) [OF ok c]]
  have "limit (heap s) \<le> limit m"
    by (rule agree_limit [OF shared_copied(1) [OF ok c]])
  then show "isolated fok freach s' (C \<union> {limit (heap s)..<limit (heap s')})"
    using assms(1) shared_allocated [OF ok] by (auto simp: isolated_def s' e)
  show "shared_value fval s' = shared_value fval s" "val_config_pointer fval (heap s') r = shared_value fval s"
    using e(3) shared_copied(3) [OF ok c] by (simp_all add: shared_value_def s')
qed

lemma SetConfig_mem_isolated:
  assumes "isolated fok freach s C" and ok: "ok_config_pointer fok (heap s) r"
  shows "isolated fok freach (SetConfig_mem rng F z r s) C"
    "shared_value fval (SetConfig_mem rng F z r s) = val_config_pointer fval (heap s) r"
proof -
  obtain r' m where c: "IPAMConfig_DeepCopy rng F z r (heap s) = (r', m)"
    by (cases "IPAMConfig_DeepCopy rng F z r (heap s)")
  note copied = shared_copied [OF ok c]
  show "isolated fok freach (SetConfig_mem rng F z r s) C"
    using assms(1) copied(2,4) agree_limit [OF copied(1)]
    by (fastforce simp: isolated_def SetConfig_mem_def c)
  show "shared_value fval (SetConfig_mem rng F z r s) = val_config_pointer fval (heap s) r"
    using copied(3) by (simp add: shared_value_def SetConfig_mem_def c)
qed

lemma write_isolated:
  assumes "isolated fok freach s C" and ag: "agree ({..<limit (heap s)} - C) (heap s) m'"
  shows "isolated fok freach (s\<lparr>heap := m'\<rparr>) (C \<union> {limit (heap s)..<limit m'})"
    "shared_value fval (s\<lparr>heap := m'\<rparr>) = shared_value fval s"
proof -
  have ok: "ok_config_pointer fok (heap s) (config_pointer s)"
    using assms(1) by (simp add: isolated_def)
  have "agree (set (reach_config_pointer freach (heap s) (config_pointer s))) (heap s) m'"
    using assms(1) shared_allocated [OF ok] by (intro agree_mono [OF ag]) (auto simp: isolated_def)
  note f = shared_frame [OF ok this]
  show "isolated fok freach (s\<lparr>heap := m'\<rparr>) (C \<union> {limit (heap s)..<limit m'})"
    using assms(1) f shared_allocated [OF ok] agree_limit [OF ag] by (fastforce simp: isolated_def)
  show "shared_value fval (s\<lparr>heap := m'\<rparr>) = shared_value fval s"
    using f(3) by (simp add: shared_value_def)
qed

lemma access_run_register:
  assumes "access_run rng F z fok freach fval s0 C0 tr s C" and "isolated fok freach s0 C0"
  shows "isolated fok freach s C \<and> register_run (shared_value fval s0) tr (shared_value fval s)"
  using assms
proof (induction rule: access_run.induct)
  case start
  then show ?case by simp
next
  case (got tr s C r s')
  then show ?case
    using GetConfig_mem_isolated [OF _ got.hyps(2)] by (auto simp: register_run_append)
next
  case (put tr s C r s')
  then show ?case
    using SetConfig_mem_isolated [of s C r z] by (auto simp: register_run_append)
next
  case (wrote tr s C m')
  then show ?case
    using write_isolated [OF _ wrote.hyps(2)] by (auto simp: register_run_append)
qed

end

text \<open>C8: The shared configuration is a register, whatever its users do to the objects they
  hand to \<^verbatim>\<open>SetConfig\<close> or got from \<^verbatim>\<open>GetConfig\<close>.  In every sequence of calls of the
  two functions and of writes to cells the callers have references to, starting with the nil
  configuration of the package, every \<^verbatim>\<open>GetConfig\<close> returns the value that the last
  \<^verbatim>\<open>SetConfig\<close> was given, and no caller ever has a reference into the stored object.\<close>

theorem config_register:
  assumes "foreign_copies rng F fok freach fval"
    and "access_run rng F z fok freach fval \<lparr>heap = m, config_pointer = None\<rparr> C0 tr s C" and "C0 \<subseteq> {..<limit m}"
  shows "register_run None tr (shared_value fval s) \<and>
    set (reach_config_pointer freach (heap s) (config_pointer s)) \<inter> C = {}"
proof -
  have "isolated fok freach \<lparr>heap = m, config_pointer = None\<rparr> C0"
    using assms(3) by (simp add: isolated_def ok_ref_def reach_ref_def)
  from foreign_copies.access_run_register [OF assms(1,2) this]
  show ?thesis
    by (simp add: shared_value_def val_ref_def isolated_def)
qed

section \<open>A configuration in memory\<close>

definition sim_memory :: "sim_foreign mem" where
  "sim_memory =
     \<lparr>cells = map_of (zip [0..<8]
        [ConfigCell \<lparr>sc_TypeMeta = (''IPAMConfig'', ''v1alpha1''), sc_ObjectMeta = Handle (Some 1),
           sc_Spec = \<lparr>ss_ParentCIDRs = Some 2, ss_InjectionRules = Some 4, ss_InternalStateRefreshCycleDuration = Some 7\<rparr>\<rparr>,
         Foreign (Datum ''config''),
         SliceMap [(''main'', Some 3), (''unused'', None)],
         StringArray [''10.0.0.0/8''],
         RuleArray [\<lparr>sr_ID = ''rule'', sr_Selector = Datum '''', sr_Injections = Some 5\<rparr>],
         InjectionArray [\<lparr>si_ID = '''', si_Path = '''', si_Paths = Some 6, si_Parents = None, si_SubnetSize = 24\<rparr>],
         StringArray [''a.b'', ''c''],
         DurationCell 60]),
      limit = 8\<rparr>"

lemma sim_cells:
  "cells sim_memory 0 = Some (ConfigCell \<lparr>sc_TypeMeta = (''IPAMConfig'', ''v1alpha1''), sc_ObjectMeta = Handle (Some 1),
     sc_Spec = \<lparr>ss_ParentCIDRs = Some 2, ss_InjectionRules = Some 4, ss_InternalStateRefreshCycleDuration = Some 7\<rparr>\<rparr>)"
  "cells sim_memory (Suc 0) = Some (Foreign (Datum ''config''))"
  "cells sim_memory 2 = Some (SliceMap [(''main'', Some 3), (''unused'', None)])"
  "cells sim_memory 3 = Some (StringArray [''10.0.0.0/8''])"
  "cells sim_memory 4 = Some (RuleArray [\<lparr>sr_ID = ''rule'', sr_Selector = Datum '''', sr_Injections = Some 5\<rparr>])"
  "cells sim_memory 5 = Some (InjectionArray
     [\<lparr>si_ID = '''', si_Path = '''', si_Paths = Some 6, si_Parents = None, si_SubnetSize = 24\<rparr>])"
  "cells sim_memory 6 = Some (StringArray [''a.b'', ''c''])"
  "cells sim_memory 7 = Some (DurationCell 60)"
  "limit sim_memory = 8"
  by (simp_all add: sim_memory_def upt_rec)

lemma ok_sim_config: "ok_config_pointer sim_fok sim_memory (Some 0)"
  by (simp add: ok_ref_def content_def sim_cells ok_config_def ok_spec_def ok_rule_def ok_injection_def wf_map_def)

lemma reach_sim_config: "set (reach_config_pointer sim_freach sim_memory (Some 0)) = {..<8}"
  by (simp add: reach_ref_def content_def sim_cells reach_config_def reach_spec_def reach_rule_def
      reach_injection_def) auto

lemma val_sim_config: "val_config_pointer sim_fval sim_memory (Some 0) \<noteq> None"
  by (simp add: val_ref_def content_def sim_cells)

text \<open>The callers set the configuration, then change a path of it in place, and get it.\<close>

abbreviation "sim_set \<equiv> SetConfig_mem insertion_order sim_foreign (Datum []) (Some 0)
  \<lparr>heap = sim_memory, config_pointer = None\<rparr>"
abbreviation "sim_written \<equiv> sim_set\<lparr>heap := write_cell 6 (StringArray [''/a/b'', ''c'']) (heap sim_set)\<rparr>"
abbreviation "sim_got \<equiv> GetConfig_mem insertion_order sim_foreign (Datum []) sim_written"

lemma sim_access_run:
  "\<exists>C. access_run insertion_order sim_foreign (Datum []) sim_fok sim_freach sim_fval
    \<lparr>heap = sim_memory, config_pointer = None\<rparr> {..<8}
    [Put (val_config_pointer sim_fval sim_memory (Some 0)), Wrote,
     Got (val_config_pointer sim_fval (heap (snd sim_got)) (fst sim_got))] (snd sim_got) C"
proof -
  let ?run = "access_run insertion_order sim_foreign (Datum []) sim_fok sim_freach sim_fval
    \<lparr>heap = sim_memory, config_pointer = None\<rparr> {..<8}"
  have "?run ([] @ [Put (val_config_pointer sim_fval (heap \<lparr>heap = sim_memory, config_pointer = None\<rparr>) (Some 0))])
    sim_set {..<8}"
    by (rule access_run.put [OF access_run.start]) (simp_all add: ok_sim_config reach_sim_config)
  from access_run.wrote [OF this, of "write_cell 6 (StringArray [''/a/b'', ''c'']) (heap sim_set)"]
  have "?run [Put (val_config_pointer sim_fval sim_memory (Some 0)), Wrote] sim_written {..<8}"
    by (simp add: agree_write_cell)
  from access_run.got [OF this, of "fst sim_got" "snd sim_got"] show ?thesis
    by auto
qed

theorem DeepCopy_deep_witness:
  "foreign_copies insertion_order sim_foreign sim_fok sim_freach sim_fval \<and>
   deep_copier (ok_config_pointer sim_fok) (reach_config_pointer sim_freach) (val_config_pointer sim_fval)
     (IPAMConfig_DeepCopy insertion_order sim_foreign (Datum [])) \<and>
   ok_config_pointer sim_fok sim_memory (Some 0)"
  using DeepCopy_deep [OF sim_copies.foreign_copies_axioms] sim_copies.foreign_copies_axioms ok_sim_config
  by blast

theorem config_register_witness:
  "val_config_pointer sim_fval (heap (snd sim_got)) (fst sim_got) = val_config_pointer sim_fval sim_memory (Some 0) \<and>
   val_config_pointer sim_fval sim_memory (Some 0) \<noteq> None"
proof -
  obtain C where run: "access_run insertion_order sim_foreign (Datum []) sim_fok sim_freach sim_fval
    \<lparr>heap = sim_memory, config_pointer = None\<rparr> {..<8}
    [Put (val_config_pointer sim_fval sim_memory (Some 0)), Wrote,
     Got (val_config_pointer sim_fval (heap (snd sim_got)) (fst sim_got))] (snd sim_got) C"
    using sim_access_run by blast
  have "{..<8} \<subseteq> {..<limit sim_memory}"
    by (simp add: sim_cells)
  from config_register [OF sim_copies.foreign_copies_axioms run this] show ?thesis
    using val_sim_config by simp
qed

end
