(* ===== verification/In_Place.thy ===== *)
theory In_Place
  imports Deep_Copy Cluster_Controller
begin

text \<open>
  \<^verbatim>\<open>ManageInjections\<close> normalizes the paths of the rules in place, through
  \<^verbatim>\<open>injection := &rule.Injections[i]\<close>.  Here the loop runs on the memory of
  \<^theory_text>\<open>Deep_Copy\<close>; it computes what the model of the cluster controller computes on values,
  because the configuration it works on is a deep copy.
\<close>

section \<open>Injections in memory\<close>

definition nil_to_list :: "'a list option \<Rightarrow> 'a list" where
  "nil_to_list r = (case r of None \<Rightarrow> [] | Some xs \<Rightarrow> xs)"

definition injection_of :: "injection_val \<Rightarrow> SingleCIDRInjection" where
  "injection_of v =
     \<lparr>inj_ID = si_ID v, inj_Path = si_Path v, inj_Paths = nil_to_list (si_Paths v),
      inj_Parents = nil_to_list (si_Parents v), inj_SubnetSize = si_SubnetSize v\<rparr>"

text \<open>The injections a slice \<^verbatim>\<open>[]SingleCIDRInjection\<close> denotes.\<close>

definition array_of :: "'x mem \<Rightarrow> addr \<Rightarrow> injection_mem list" where
  "array_of m a = nil_to_list (content as_InjectionArray m a)"

definition injections_in :: "'x mem \<Rightarrow> addr \<Rightarrow> SingleCIDRInjection list" where
  "injections_in m a = map (\<lambda>i. injection_of (val_injection m i)) (array_of m a)"

text \<open>
  The two assignments \<^verbatim>\<open>injection.Path = path\<close> and
  \<^verbatim>\<open>injection.Paths[pws.Index] = path\<close>.
\<close>

definition write_path :: "addr \<Rightarrow> nat \<Rightarrow> PathWithSource \<Rightarrow> string \<Rightarrow> 'x mem \<Rightarrow> 'x mem" where
  "write_path a i pws path m =
     (let injection = array_of m a ! i
      in if pws_Index pws < 0
         then write_cell a (InjectionArray ((array_of m a)[i := injection\<lparr>si_Path := path\<rparr>])) m
         else case si_Paths injection of
                None \<Rightarrow> m
              | Some b \<Rightarrow> write_cell b (StringArray ((nil_to_list (content as_StringArray m b))
                                                      [nat (pws_Index pws) := path])) m)"

type_synonym 'x norm_state_mem = "'x mem \<times> string list \<times> goerr gomap \<times> goerr list"

fun norm_paths_mem ::
  "lib \<Rightarrow> string \<Rightarrow> string list \<Rightarrow> addr \<Rightarrow> nat \<Rightarrow> PathWithSource list \<Rightarrow> 'x norm_state_mem \<Rightarrow> 'x norm_state_mem" where
  "norm_paths_mem L rid injectedPaths a i [] x = x"
| "norm_paths_mem L rid injectedPaths a i (pws # rest) (m, seen, issues, errs) =
     (case ConvertPath L (pws_Path pws) of
        Inl e \<Rightarrow> norm_paths_mem L rid injectedPaths a i rest
          (m, seen, issues, errs @ [Errorf ''error converting path'' [pws_Path pws, Source pws, rid] (Some e)])
      | Inr path \<Rightarrow>
          let m' = write_path a i pws path m
          in if path \<in> set seen then
               (m', seen, AList.update rid
                  (Errorf ''rule contains multiple injections for the same path'' [rid, path] None) issues, errs)
             else if path \<in> set injectedPaths then
               (m', path # seen, AList.update rid
                  (Errorf ''rule tries to inject into a path which has already been used by another injection rule''
                     [rid, path] None) issues, errs)
             else norm_paths_mem L rid injectedPaths a i rest (m', path # seen, issues, errs))"

fun norm_injections_mem ::
  "lib \<Rightarrow> string \<Rightarrow> string list \<Rightarrow> addr \<Rightarrow> nat list \<Rightarrow> 'x norm_state_mem \<Rightarrow> 'x norm_state_mem" where
  "norm_injections_mem L rid injectedPaths a [] x = x"
| "norm_injections_mem L rid injectedPaths a (i # is) (m, seen, issues, errs) =
     norm_injections_mem L rid injectedPaths a is
       (norm_paths_mem L rid injectedPaths a i (GetPaths (injections_in m a ! i)) (m, seen, issues, errs))"

definition norm_rule_mem ::
  "lib \<Rightarrow> string \<Rightarrow> string list \<Rightarrow> addr \<Rightarrow> goerr gomap \<Rightarrow> goerr list \<Rightarrow> 'x mem \<Rightarrow> 'x mem \<times> goerr gomap \<times> goerr list" where
  "norm_rule_mem L rid injectedPaths a issues errs m =
     (case norm_injections_mem L rid injectedPaths a [0..<length (array_of m a)] (m, [], issues, errs) of
        (m', _, issues', errs') \<Rightarrow> (m', issues', errs'))"

section \<open>One assignment\<close>

text \<open>The slice is well-formed and no two of its references share a cell.\<close>

definition unshared :: "'x mem \<Rightarrow> addr \<Rightarrow> bool" where
  "unshared m a \<longleftrightarrow> ok_slice as_InjectionArray ok_injection m (Some a) \<and>
     distinct (reach_slice as_InjectionArray reach_injection m (Some a))"

abbreviation "array_cells m a \<equiv> set (reach_slice as_InjectionArray reach_injection m (Some a))"

lemma unshared_array:
  "unshared m a \<longleftrightarrow> a < limit m \<and> content as_InjectionArray m a = Some (array_of m a) \<and>
     (\<forall>i \<in> set (array_of m a). ok_injection m i) \<and> a \<notin> set (concat (map (reach_injection m) (array_of m a))) \<and>
     distinct (concat (map (reach_injection m) (array_of m a)))"
  by (auto simp: unshared_def ok_ref_def reach_ref_def array_of_def nil_to_list_def list_all_iff
      split: option.splits)

lemma array_cells_eq:
  "unshared m a \<Longrightarrow> array_cells m a = insert a (set (concat (map (reach_injection m) (array_of m a))))"
  by (simp add: unshared_array reach_ref_def)

text \<open>The functional counterpart of an assignment.\<close>

definition put_path :: "PathWithSource \<Rightarrow> string \<Rightarrow> SingleCIDRInjection \<Rightarrow> SingleCIDRInjection" where
  "put_path pws path ij =
     (if pws_Index pws < 0 then ij\<lparr>inj_Path := path\<rparr>
      else ij\<lparr>inj_Paths := (inj_Paths ij)[nat (pws_Index pws) := path]\<rparr>)"

lemma write_field:
  fixes path :: string
  assumes u: "unshared m a" and i: "i < length (array_of m a)"
  defines "m' \<equiv> write_cell a (InjectionArray ((array_of m a)[i := (array_of m a ! i)\<lparr>si_Path := path\<rparr>])) m"
  shows "unshared m' a \<and> array_cells m' a = array_cells m a \<and>
    injections_in m' a = (injections_in m a)[i := (injections_in m a ! i)\<lparr>inj_Path := path\<rparr>]"
proof -
  let ?xs = "array_of m a"
  let ?x = "(?xs ! i)\<lparr>si_Path := path\<rparr>"
  have arr: "array_of m' a = ?xs[i := ?x]" "content as_InjectionArray m' a = Some (?xs[i := ?x])"
    by (simp_all add: m'_def array_of_def content_def nil_to_list_def)
  have same: "ok_injection m' x" "reach_injection m' x = reach_injection m x" "val_injection m' x = val_injection m x"
    if "x \<in> set ?xs" for x
  proof -
    have "ok_injection m x" "a \<notin> set (reach_injection m x)"
      using u that by (auto simp: unshared_array)
    from injection.written [OF this] show "ok_injection m' x" "reach_injection m' x = reach_injection m x"
      "val_injection m' x = val_injection m x" by (simp_all add: m'_def)
  qed
  have x: "?xs ! i \<in> set ?xs" using i by simp
  have head: "ok_injection m' ?x" "reach_injection m' ?x = reach_injection m (?xs ! i)"
    "val_injection m' ?x = (val_injection m (?xs ! i))\<lparr>si_Path := path\<rparr>"
    using same [OF x] by (simp_all add: injection_defs)
  have reaches: "map (reach_injection m') (?xs[i := ?x]) = map (reach_injection m) ?xs"
    using same(2) head(2) i by (auto intro!: nth_equalityI simp: nth_list_update)
  have "unshared m' a"
    unfolding unshared_array arr reaches using u same(1) head(1) arr
    by (auto simp: unshared_array m'_def dest!: set_update_subset_insert [THEN subsetD])
  moreover have "injections_in m' a = (injections_in m a)[i := (injections_in m a ! i)\<lparr>inj_Path := path\<rparr>]"
    unfolding injections_in_def arr using same(3) head(3) i
    by (auto intro!: nth_equalityI simp: nth_list_update injection_of_def)
  ultimately show ?thesis
    using array_cells_eq [OF u] array_cells_eq [of m' a] by (simp add: arr(1) reaches)
qed

lemma distinct_concat_nth:
  "distinct (concat (map f xs)) \<Longrightarrow> i < length xs \<Longrightarrow> j < length xs \<Longrightarrow> i \<noteq> j \<Longrightarrow> b \<in> set (f (xs ! i)) \<Longrightarrow>
    b \<notin> set (f (xs ! j))"
proof (induction xs arbitrary: i j)
  case (Cons x xs)
  have rest: "set (f (xs ! k)) \<subseteq> (\<Union>y \<in> set xs. set (f y))" if "k < length xs" for k
    using nth_mem [OF that] by blast
  have d: "set (f x) \<inter> (\<Union>y \<in> set xs. set (f y)) = {}" "distinct (concat (map f xs))"
    using Cons.prems(1) by auto
  show ?case
  proof (cases i)
    case 0
    then obtain j' where "j = Suc j'" using Cons.prems(4) by (cases j) auto
    then show ?thesis using rest [of j'] d(1) Cons.prems(3,5) 0 by auto
  next
    case i: (Suc i')
    show ?thesis
    proof (cases j)
      case 0
      then show ?thesis using rest [of i'] d(1) Cons.prems(2,5) i by auto
    next
      case (Suc j')
      then show ?thesis using Cons.IH [OF d(2), of i' j'] Cons.prems i by simp
    qed
  qed
qed simp

lemma write_strings_injection:
  fixes path :: string and n :: nat
  assumes ok: "ok_injection m x" and d: "distinct (reach_injection m x)" and b: "si_Paths x = Some b"
  defines "m' \<equiv> write_cell b (StringArray ((nil_to_list (content as_StringArray m b))[n := path])) m"
  shows "ok_injection m' x \<and> reach_injection m' x = reach_injection m x \<and>
    injection_of (val_injection m' x) =
      (injection_of (val_injection m x))\<lparr>inj_Paths := (inj_Paths (injection_of (val_injection m x)))[n := path]\<rparr>"
proof -
  obtain ys where ys: "content as_StringArray m b = Some ys" "b < limit m"
    using ok b by (auto simp: ok_injection_def ok_ref_def split: option.splits)
  have b': "content as_StringArray m' b = Some (ys[n := path])"
    by (simp add: m'_def content_def ys nil_to_list_def) (simp add: ys [unfolded content_def])
  have par: "b \<notin> set (reach_strings m (si_Parents x))"
    using d b by (auto simp: reach_injection_def reach_ref_def)
  have okp: "ok_strings m (si_Parents x)"
    using ok by (simp add: ok_injection_def)
  note p = go_value.written [OF deep_copier.axioms(1) [OF strings.copier] okp par, of "StringArray (ys[n := path])"]
  have m': "m' = write_cell b (StringArray (ys[n := path])) m"
    by (simp add: m'_def ys nil_to_list_def)
  show ?thesis
    using b' ys p [folded m'] b
    by (simp add: injection_defs injection_of_def ref_defs nil_to_list_def m'_def)
qed

lemma write_strings:
  fixes path :: string and n :: nat
  assumes u: "unshared m a" and i: "i < length (array_of m a)" and b: "si_Paths (array_of m a ! i) = Some b"
  defines "m' \<equiv> write_cell b (StringArray ((nil_to_list (content as_StringArray m b))[n := path])) m"
  shows "unshared m' a \<and> array_cells m' a = array_cells m a \<and> b \<in> array_cells m a \<and>
    injections_in m' a =
      (injections_in m a)[i := (injections_in m a ! i)\<lparr>inj_Paths := (inj_Paths (injections_in m a ! i))[n := path]\<rparr>]"
proof -
  let ?xs = "array_of m a"
  have x: "?xs ! i \<in> set ?xs" using i by simp
  have bx: "b \<in> set (reach_injection m (?xs ! i))"
    by (simp add: reach_injection_def reach_ref_def b)
  then have ba: "b \<in> set (concat (map (reach_injection m) ?xs))" using x by auto
  then have "a \<noteq> b" using u by (auto simp: unshared_array)
  then have arr: "content as_InjectionArray m' a = content as_InjectionArray m a" "array_of m' a = ?xs"
    by (simp_all add: m'_def content_def array_of_def)
  have "distinct (reach_injection m (?xs ! i))"
    using u x by (auto simp: unshared_array distinct_concat_iff)
  note head = write_strings_injection [OF _ this b, of n path, folded m'_def]
  have ok: "ok_injection m y" if "y \<in> set ?xs" for y
    using u that by (simp add: unshared_array)
  have tail: "ok_injection m' (?xs ! j) \<and> reach_injection m' (?xs ! j) = reach_injection m (?xs ! j) \<and>
    val_injection m' (?xs ! j) = val_injection m (?xs ! j)" if "j < length ?xs" "j \<noteq> i" for j
  proof -
    have "b \<notin> set (reach_injection m (?xs ! j))"
      using distinct_concat_nth [of "reach_injection m" ?xs i j b] u i that bx by (auto simp: unshared_array)
    then show ?thesis
      using injection.written [OF ok] that by (simp add: m'_def)
  qed
  have all: "ok_injection m' (?xs ! j) \<and> reach_injection m' (?xs ! j) = reach_injection m (?xs ! j)"
    if "j < length ?xs" for j
    using head [OF ok [OF x]] tail [OF that] by (cases "j = i") auto
  have reaches: "map (reach_injection m') ?xs = map (reach_injection m) ?xs"
    using all by (intro nth_equalityI) auto
  have "\<forall>y \<in> set ?xs. ok_injection m' y"
    using all by (auto simp: in_set_conv_nth)
  then have u': "unshared m' a"
    using u unfolding unshared_array arr reaches by (auto simp: m'_def)
  have "injections_in m' a =
      (injections_in m a)[i := (injections_in m a ! i)\<lparr>inj_Paths := (inj_Paths (injections_in m a ! i))[n := path]\<rparr>]"
    using head [OF ok [OF x]] tail i
    by (auto intro!: nth_equalityI simp: nth_list_update injections_in_def arr(2))
  then show ?thesis
    using u' array_cells_eq [OF u] array_cells_eq [OF u'] ba by (simp add: arr(2) reaches)
qed

lemma write_path_spec:
  assumes u: "unshared m a" and i: "i < length (array_of m a)" and m': "write_path a i pws path m = m'"
  shows "unshared m' a \<and> array_cells m' a = array_cells m a \<and> agree (- array_cells m a) m m' \<and>
    injections_in m' a = (injections_in m a)[i := put_path pws path (injections_in m a ! i)]"
proof (cases "pws_Index pws < 0")
  case True
  then show ?thesis
    using write_field [OF u i, of path] m' array_cells_eq [OF u]
    by (auto simp: write_path_def put_path_def agree_def)
next
  case False
  show ?thesis
  proof (cases "si_Paths (array_of m a ! i)")
    case None
    have "inj_Paths (injections_in m a ! i) = []"
      using i None by (simp add: injections_in_def injection_of_def val_injection_def nil_to_list_def val_ref_def)
    then have "put_path pws path (injections_in m a ! i) = injections_in m a ! i"
      using False by (simp add: put_path_def)
    then show ?thesis
      using u m' False None by (simp add: write_path_def)
  next
    case (Some b)
    then show ?thesis
      using write_strings [OF u i Some, of "nat (pws_Index pws)" path] m' False
      by (auto simp: write_path_def put_path_def agree_def)
  qed
qed

section \<open>The loops\<close>

lemma length_injections_in [simp]: "length (injections_in m a) = length (array_of m a)"
  by (simp add: injections_in_def)

text \<open>What every part of the loops does to the memory.\<close>

definition updated_at :: "addr \<Rightarrow> nat \<Rightarrow> 'x mem \<Rightarrow> 'x mem \<Rightarrow> bool" where
  "updated_at a i m m' \<longleftrightarrow> unshared m' a \<and> array_cells m' a = array_cells m a \<and> agree (- array_cells m a) m m' \<and>
     length (array_of m' a) = length (array_of m a) \<and>
     (\<forall>j < length (array_of m a). j \<noteq> i \<longrightarrow> injections_in m' a ! j = injections_in m a ! j)"

lemma updated_at_refl: "unshared m a \<Longrightarrow> updated_at a i m m"
  by (simp add: updated_at_def)

lemma updated_at_trans:
  assumes "updated_at a i m m'" and "updated_at a i m' m''"
  shows "updated_at a i m m''"
  using assms agree_trans [of "- array_cells m a" m m' m''] by (simp add: updated_at_def)

lemma updated_at_length: "updated_at a i m m' \<Longrightarrow> length (array_of m' a) = length (array_of m a)"
  by (simp add: updated_at_def)

lemma write_path_updated:
  assumes "unshared m a" and "i < length (array_of m a)"
  shows "updated_at a i m (write_path a i pws path m)"
    "injections_in (write_path a i pws path m) a ! i = put_path pws path (injections_in m a ! i)"
proof -
  let ?m' = "write_path a i pws path m"
  have w: "unshared ?m' a" "array_cells ?m' a = array_cells m a" "agree (- array_cells m a) m ?m'"
    "injections_in ?m' a = (injections_in m a)[i := put_path pws path (injections_in m a ! i)]"
    using write_path_spec [OF assms refl] by blast+
  have "length (array_of ?m' a) = length (array_of m a)"
    using arg_cong [OF w(4), of length] by simp
  then show "updated_at a i m ?m'"
    using w(1-3) by (simp add: updated_at_def w(4))
  show "injections_in ?m' a ! i = put_path pws path (injections_in m a ! i)"
    using assms(2) by (simp add: w(4))
qed

lemma norm_paths_put:
  "norm_paths L rid used (pws # rest) (ij, seen, issues, errs) =
     (case ConvertPath L (pws_Path pws) of
        Inl e \<Rightarrow> norm_paths L rid used rest
          (ij, seen, issues, errs @ [Errorf ''error converting path'' [pws_Path pws, Source pws, rid] (Some e)])
      | Inr path \<Rightarrow>
          if path \<in> set seen then
            (put_path pws path ij, seen, AList.update rid
               (Errorf ''rule contains multiple injections for the same path'' [rid, path] None) issues, errs)
          else if path \<in> set used then
            (put_path pws path ij, path # seen, AList.update rid
               (Errorf ''rule tries to inject into a path which has already been used by another injection rule''
                  [rid, path] None) issues, errs)
          else norm_paths L rid used rest (put_path pws path ij, path # seen, issues, errs))"
  by (simp add: put_path_def Let_def split: sum.splits)

lemma norm_paths_mem_spec:
  assumes "unshared m a" and "i < length (array_of m a)"
    and "norm_paths_mem L rid used a i ps (m, seen, issues, errs) = (m', seen', issues', errs')"
  shows "updated_at a i m m' \<and>
    norm_paths L rid used ps (injections_in m a ! i, seen, issues, errs) = (injections_in m' a ! i, seen', issues', errs')"
  using assms
proof (induction ps arbitrary: m seen errs)
  case Nil
  then show ?case by (simp add: updated_at_refl)
next
  case (Cons pws rest)
  show ?case
  proof (cases "ConvertPath L (pws_Path pws)")
    case (Inl e)
    then show ?thesis using Cons.IH [OF Cons.prems(1,2)] Cons.prems(3) by simp
  next
    case (Inr path)
    define m1 where "m1 = write_path a i pws path m"
    note w = write_path_updated [OF Cons.prems(1,2), of pws path, folded m1_def]
    have u1: "unshared m1 a" "i < length (array_of m1 a)"
      using w(1) updated_at_length [OF w(1)] Cons.prems(2) by (simp_all add: updated_at_def)
    consider "path \<in> set seen \<or> path \<in> set used" | "path \<notin> set seen" "path \<notin> set used"
      by blast
    then show ?thesis
    proof cases
      case 1
      then have "m' = m1"
        using Cons.prems(3) by (auto simp: Inr Let_def m1_def split: if_splits)
      then show ?thesis
        using 1 Cons.prems(3) w by (auto simp: norm_paths_put Inr Let_def simp del: norm_paths.simps split: if_splits)
    next
      case 2
      then have "norm_paths_mem L rid used a i rest (m1, path # seen, issues, errs) = (m', seen', issues', errs')"
        using Cons.prems(3) by (simp add: Inr Let_def m1_def)
      from Cons.IH [OF u1 this] show ?thesis
        using 2 updated_at_trans [OF w(1)] by (simp add: norm_paths_put Inr w(2) del: norm_paths.simps)
    qed
  qed
qed

lemma norm_injections_mem_spec:
  assumes "unshared m a" and "k \<le> length (array_of m a)"
    and "norm_injections_mem L rid used a [k..<length (array_of m a)] (m, seen, issues, errs) = (m', seen', issues', errs')"
  shows "unshared m' a \<and> array_cells m' a = array_cells m a \<and> agree (- array_cells m a) m m' \<and>
    take k (injections_in m' a) = take k (injections_in m a) \<and>
    norm_injections L rid used (drop k (injections_in m a)) seen issues errs = (drop k (injections_in m' a), issues', errs')"
  using assms
proof (induction "length (array_of m a) - k" arbitrary: k m seen issues errs)
  case 0
  then show ?case by simp
next
  case (Suc d)
  have k: "k < length (array_of m a)"
    using Suc.hyps(2) by simp
  obtain m1 seen1 issues1 errs1 where p:
    "norm_paths_mem L rid used a k (GetPaths (injections_in m a ! k)) (m, seen, issues, errs) = (m1, seen1, issues1, errs1)"
    by (cases "norm_paths_mem L rid used a k (GetPaths (injections_in m a ! k)) (m, seen, issues, errs)")
  note s = norm_paths_mem_spec [OF Suc.prems(1) k p]
  have l: "length (array_of m1 a) = length (array_of m a)"
    using updated_at_length s by blast
  have u1: "unshared m1 a" and c1: "array_cells m1 a = array_cells m a" and a1: "agree (- array_cells m a) m m1"
    and i1: "\<forall>j < length (array_of m a). j \<noteq> k \<longrightarrow> injections_in m1 a ! j = injections_in m a ! j"
    using s by (simp_all add: updated_at_def)
  have loop: "norm_injections_mem L rid used a [Suc k..<length (array_of m1 a)] (m1, seen1, issues1, errs1) =
    (m', seen', issues', errs')"
    using Suc.prems(3) k by (simp add: upt_conv_Cons p l)
  have IH: "unshared m' a \<and> array_cells m' a = array_cells m1 a \<and> agree (- array_cells m1 a) m1 m' \<and>
    take (Suc k) (injections_in m' a) = take (Suc k) (injections_in m1 a) \<and>
    norm_injections L rid used (drop (Suc k) (injections_in m1 a)) seen1 issues1 errs1 =
      (drop (Suc k) (injections_in m' a), issues', errs')"
    using Suc.hyps(2) k l by (intro Suc.hyps(1) [OF _ u1 _ loop]) simp_all
  have take1: "take k (injections_in m1 a) = take k (injections_in m a)"
    "drop (Suc k) (injections_in m1 a) = drop (Suc k) (injections_in m a)"
    using i1 k l by (auto intro!: nth_equalityI)
  have take_Suc: "take (Suc k) (injections_in m' a) = take (Suc k) (injections_in m1 a)"
    using IH by blast
  have tk: "take k (injections_in m' a) = take k (injections_in m1 a)"
    using arg_cong [OF take_Suc, of "take k"] by simp
  have len': "k < length (injections_in m' a)"
    using arg_cong [OF take_Suc, of length] k l by simp
  have at_k: "injections_in m' a ! k = injections_in m1 a ! k"
    using arg_cong [OF take_Suc, of "\<lambda>xs. xs ! k"] by simp
  have "norm_injections L rid used (drop k (injections_in m a)) seen issues errs = (drop k (injections_in m' a), issues', errs')"
    using s IH k len' by (simp add: Cons_nth_drop_Suc [symmetric] at_k take1)
  moreover have "agree (- array_cells m a) m m'"
    using a1 IH by (intro agree_trans [OF a1]) (simp add: c1)
  ultimately show ?case
    using IH tk take1 c1 by simp
qed

lemma norm_rule_mem_spec:
  assumes "unshared m a" and "norm_rule_mem L rid used a issues errs m = (m', issues', errs')"
  shows "norm_injections L rid used (injections_in m a) [] issues errs = (injections_in m' a, issues', errs') \<and>
    unshared m' a \<and> array_cells m' a = array_cells m a \<and> agree (- array_cells m a) m m'"
proof -
  obtain seen' where "norm_injections_mem L rid used a [0..<length (array_of m a)] (m, [], issues, errs) =
    (m', seen', issues', errs')"
    using assms(2) by (auto simp: norm_rule_mem_def split: prod.splits)
  from norm_injections_mem_spec [OF assms(1) le0 this] show ?thesis
    by simp
qed

lemma injections_in_val:
  "injections_in m a = map injection_of (nil_to_list (val_slice as_InjectionArray val_injection m (Some a)))"
  by (simp add: injections_in_def array_of_def val_ref_def nil_to_list_def split: option.splits)

lemma injections_in_frame:
  assumes "ok_slice as_InjectionArray ok_injection m (Some a)" and "agree (array_cells m a) m m'"
  shows "injections_in m' a = injections_in m a"
  using go_value.val_frame [OF deep_copier.axioms(1) [OF injections.copier] assms] by (simp only: injections_in_val)

section \<open>Rules of a configuration\<close>

text \<open>\<open>has_rules m r rules\<close>: \<open>r\<close> points to a configuration with the injection rules \<open>rules\<close>.\<close>

definition has_rules :: "'x mem \<Rightarrow> goref \<Rightarrow> 'x rule_mem list \<Rightarrow> bool" where
  "has_rules m r rules \<longleftrightarrow>
     (\<exists>p cfg q. r = Some p \<and> content as_ConfigCell m p = Some cfg \<and>
        ss_InjectionRules (sc_Spec cfg) = Some q \<and> content as_RuleArray m q = Some rules)"

lemma reach_has_rules:
  assumes "has_rules m r rules"
  shows "\<exists>xs ys. reach_config_pointer freach m r = xs @ concat (map (reach_rule freach m) rules) @ ys"
proof -
  obtain p cfg q where r: "r = Some p" "content as_ConfigCell m p = Some cfg"
    "ss_InjectionRules (sc_Spec cfg) = Some q" "content as_RuleArray m q = Some rules"
    using assms by (auto simp: has_rules_def)
  have "reach_config_pointer freach m r =
    (p # freach m (sc_ObjectMeta cfg) @ reach_parents m (ss_ParentCIDRs (sc_Spec cfg)) @ [q]) @
    concat (map (reach_rule freach m) rules) @ reach_duration m (ss_InternalStateRefreshCycleDuration (sc_Spec cfg))"
    using r(2-4) unfolding r(1)
    by (simp add: reach_ref_def [of as_ConfigCell] reach_ref_def [of as_RuleArray] reach_config_def reach_spec_def)
  then show ?thesis by blast
qed

lemma ok_has_rules:
  "has_rules m r rules \<Longrightarrow> ok_config_pointer fok m r \<Longrightarrow> rule \<in> set rules \<Longrightarrow> ok_rule fok m rule"
  by (auto simp: has_rules_def ok_ref_def [of as_ConfigCell] ok_ref_def [of as_RuleArray] ok_config_def ok_spec_def
      list_all_iff)

lemma rule_cells:
  assumes "has_rules m r rules" and "ok_config_pointer fok m r" and "distinct (reach_config_pointer freach m r)"
    and "rule \<in> set rules" and "sr_Injections rule = Some a"
  shows "unshared m a" "array_cells m a \<subseteq> set (reach_config_pointer freach m r)"
proof -
  obtain xs ys where e: "reach_config_pointer freach m r = xs @ concat (map (reach_rule freach m) rules) @ ys"
    using reach_has_rules [OF assms(1)] by blast
  have "distinct (reach_rule freach m rule)"
    using assms(3,4) unfolding e by (auto simp: distinct_concat_iff)
  then show "unshared m a"
    using ok_has_rules [OF assms(1,2,4)] assms(5) by (simp add: unshared_def ok_rule_def reach_rule_def)
  have "array_cells m a \<subseteq> set (reach_rule freach m rule)"
    using assms(5) by (auto simp: reach_rule_def)
  then show "array_cells m a \<subseteq> set (reach_config_pointer freach m r)"
    using assms(4) unfolding e by auto
qed

lemma rule_cells_disjoint:
  assumes "has_rules m r rules" and "distinct (reach_config_pointer freach m r)"
    and "rule \<in> set rules" "sr_Injections rule = Some a" and "rule' \<in> set rules" "sr_Injections rule' = Some a'"
    and "a \<noteq> a'"
  shows "array_cells m a \<inter> array_cells m a' = {}"
proof -
  obtain xs ys where e: "reach_config_pointer freach m r = xs @ concat (map (reach_rule freach m) rules) @ ys"
    using reach_has_rules [OF assms(1)] by blast
  obtain i j where ij: "i < length rules" "rules ! i = rule" "j < length rules" "rules ! j = rule'"
    using assms(3,5) by (auto simp: in_set_conv_nth)
  have "i \<noteq> j" using assms(4,6,7) ij by auto
  then have "set (reach_rule freach m rule) \<inter> set (reach_rule freach m rule') = {}"
    using distinct_concat_nth [of "reach_rule freach m" rules i j] assms(2) ij unfolding e by auto
  then show ?thesis
    using assms(4,6) by (auto simp: reach_rule_def)
qed

text \<open>C20: Normalizing the paths of a rule in place is right because \<^verbatim>\<open>GetConfig\<close> returns
  a deep copy.  For a rule of a configuration that was got, the loop over its injections leaves the
  same injections, issues and errors as the model of the loop on plain values; the rules with other
  injections, and the shared configuration, denote what they denoted.\<close>

theorem normalization_in_place:
  assumes "foreign_copies rng F fok freach fval" and "isolated fok freach s C"
    and get: "GetConfig_mem rng F z s = (r, s')" and rules: "has_rules (heap s') r rules"
    and rule: "rule \<in> set rules" "sr_Injections rule = Some a"
    and norm: "norm_rule_mem L rid used a issues errs (heap s') = (m', issues', errs')"
  shows "norm_injections L rid used (injections_in (heap s') a) [] issues errs = (injections_in m' a, issues', errs') \<and>
    (\<forall>rule' \<in> set rules. \<forall>a'. sr_Injections rule' = Some a' \<and> a' \<noteq> a \<longrightarrow>
       injections_in m' a' = injections_in (heap s') a') \<and>
    shared_value fval (s'\<lparr>heap := m'\<rparr>) = shared_value fval s"
proof -
  obtain m where c: "IPAMConfig_DeepCopy rng F z (config_pointer s) (heap s) = (r, m)" and s': "s' = s\<lparr>heap := m\<rparr>"
    using get by (auto simp: GetConfig_mem_def split: prod.splits)
  have ok: "ok_config_pointer fok (heap s) (config_pointer s)"
    using assms(2) by (simp add: isolated_def)
  note copied = foreign_copies.shared_copied [OF assms(1) ok c]
  have u: "unshared m a" "array_cells m a \<subseteq> {limit (heap s)..<limit m}"
    using rule_cells [OF _ copied(2,5) rule] rules copied(4) by (auto simp: s')
  have n: "norm_injections L rid used (injections_in m a) [] issues errs = (injections_in m' a, issues', errs')"
    "agree (- array_cells m a) m m'"
    using norm_rule_mem_spec [OF u(1)] norm by (auto simp: s')
  have "injections_in m' a' = injections_in m a'"
    if "rule' \<in> set rules" "sr_Injections rule' = Some a'" "a' \<noteq> a" for rule' a'
  proof (rule injections_in_frame)
    show "ok_slice as_InjectionArray ok_injection m (Some a')"
      using ok_has_rules [OF _ copied(2) that(1)] rules that(2) by (simp add: s' ok_rule_def)
    show "agree (array_cells m a') m m'"
      using rule_cells_disjoint [OF _ copied(5) rule that(1,2)] rules that(3)
      by (intro agree_mono [OF n(2)]) (auto simp: s')
  qed
  moreover have "shared_value fval (s'\<lparr>heap := m'\<rparr>) = shared_value fval s"
  proof -
    have sub: "set (reach_config_pointer freach (heap s) (config_pointer s)) \<subseteq> {..<limit (heap s)}"
      by (rule foreign_copies.shared_allocated [OF assms(1) ok])
    then have "agree (set (reach_config_pointer freach (heap s) (config_pointer s))) m m'"
      by (intro agree_mono [OF n(2)]) (use sub u(2) in fastforce)
    with deep_copier.original_kept [OF foreign_copies.config_DeepCopy [OF assms(1)] ok c]
    show ?thesis by (simp add: shared_value_def s')
  qed
  ultimately show ?thesis
    using n(1) by (simp add: s')
qed

subsection \<open>An example\<close>

abbreviation "sim_shared \<equiv> \<lparr>heap = sim_memory, config_pointer = Some 0\<rparr>"
abbreviation "sim_get \<equiv> GetConfig_mem insertion_order sim_foreign (Datum []) sim_shared"
abbreviation "sim_norm \<equiv> norm_rule_mem sim_lib ''rule'' [] 13 [] [] (heap (snd sim_get))"

lemma sim_get_cells:
  "fst sim_get = Some 8"
  "map (content as_ConfigCell (heap (snd sim_get))) [8] =
     [Some \<lparr>sc_TypeMeta = (''IPAMConfig'', ''v1alpha1''), sc_ObjectMeta = Handle (Some 9),
       sc_Spec = \<lparr>ss_ParentCIDRs = Some 10, ss_InjectionRules = Some 12, ss_InternalStateRefreshCycleDuration = Some 15\<rparr>\<rparr>]"
  "content as_RuleArray (heap (snd sim_get)) 12 =
     Some [\<lparr>sr_ID = ''rule'', sr_Selector = Datum '''', sr_Injections = Some 13\<rparr>]"
  "map inj_Paths (injections_in (heap (snd sim_get)) 13) = [[''a.b'', ''c'']]"
  by code_simp+

lemma sim_has_rules: "has_rules (heap (snd sim_get)) (fst sim_get)
  [\<lparr>sr_ID = ''rule'', sr_Selector = Datum '''', sr_Injections = Some 13\<rparr>]"
  using sim_get_cells(2,3) by (simp add: has_rules_def sim_get_cells(1))

theorem normalization_in_place_witness:
  "norm_injections sim_lib ''rule'' [] (injections_in (heap (snd sim_get)) 13) [] [] [] =
     (injections_in (fst sim_norm) 13, fst (snd sim_norm), snd (snd sim_norm)) \<and>
   map inj_Paths (injections_in (heap (snd sim_get)) 13) = [[''a.b'', ''c'']] \<and>
   shared_value sim_fval ((snd sim_get)\<lparr>heap := fst sim_norm\<rparr>) = shared_value sim_fval sim_shared"
proof -
  have iso: "isolated sim_fok sim_freach sim_shared {}"
    by (simp add: isolated_def ok_sim_config)
  have get: "GetConfig_mem insertion_order sim_foreign (Datum []) sim_shared = (fst sim_get, snd sim_get)"
    and norm: "sim_norm = (fst sim_norm, fst (snd sim_norm), snd (snd sim_norm))"
    by simp_all
  show ?thesis
    using normalization_in_place [OF sim_copies.foreign_copies_axioms iso get sim_has_rules _ _ norm,
        of "\<lparr>sr_ID = ''rule'', sr_Selector = Datum '''', sr_Injections = Some 13\<rparr>"] sim_get_cells(4) by simp
qed

end
