(* ===== verification/Commands.thy ===== *)
theory Commands
  imports App
begin

text \<open>
  The rest of \<^verbatim>\<open>cmd/platform-service-gardener-ipam/app\<close>: the flags with their default
  values, the printing of the options (\<^verbatim>\<open>print.go\<close>), the commands, and the
  \<^verbatim>\<open>Run\<close> functions of the commands with their output.
\<close>

section \<open>Flags\<close>

text \<open>
  Defining a flag with \<^verbatim>\<open>StringVar\<close> or \<^verbatim>\<open>BoolVar\<close> sets the variable to the
  default value; a flag set that already has a flag of this name panics.
\<close>

fun define_flags :: "(string \<times> ('o \<Rightarrow> 'o)) list \<Rightarrow> 'o \<Rightarrow> string list \<Rightarrow> ('o \<times> string list) go" where
  "define_flags [] opts names = Ret (opts, names)"
| "define_flags ((name, set_default) # flags) opts names =
     (if name \<in> set names then Panic (PanicMessage (''flag redefined: '' @ name))
      else define_flags flags (set_default opts) (names @ [name]))"

text \<open>The flags of the logging and the cluster library are the parameters \<open>logFlags\<close> and \<open>clusterFlags\<close>.\<close>

definition AddPersistentFlags ::
  "string list \<Rightarrow> string list \<Rightarrow> RawSharedOptions \<Rightarrow> string list \<Rightarrow> (RawSharedOptions \<times> string list) go" where
  "AddPersistentFlags logFlags clusterFlags opts names =
     define_flags
       (map (\<lambda>f. (f, \<lambda>o'. o')) logFlags @ map (\<lambda>f. (f, \<lambda>o'. o')) clusterFlags @
        [(''environment'', opt_Environment_update (\<lambda>_. '''')),
         (''provider-name'', opt_ProviderName_update (\<lambda>_. '''')),
         (''dry-run'', opt_DryRun_update (\<lambda>_. False)),
         (''disable-webhooks'', opt_WebhooksDisabled_update (\<lambda>_. False))]) opts names"

definition RunOptions_AddFlags :: "RawRunOptions \<Rightarrow> string list \<Rightarrow> (RawRunOptions \<times> string list) go" where
  "RunOptions_AddFlags =
     define_flags
       [(''metrics-bind-address'', MetricsAddr_update (\<lambda>_. ''0'')),
        (''health-probe-bind-address'', ProbeAddr_update (\<lambda>_. '':8081'')),
        (''pprof-bind-address'', PprofAddr_update (\<lambda>_. '''')),
        (''leader-elect'', EnableLeaderElection_update (\<lambda>_. False)),
        (''metrics-secure'', SecureMetrics_update (\<lambda>_. True)),
        (''webhook-cert-path'', WebhookCertPath_update (\<lambda>_. '''')),
        (''webhook-cert-name'', WebhookCertName_update (\<lambda>_. ''tls.crt'')),
        (''webhook-cert-key'', WebhookCertKey_update (\<lambda>_. ''tls.key'')),
        (''metrics-cert-path'', MetricsCertPath_update (\<lambda>_. '''')),
        (''metrics-cert-name'', MetricsCertName_update (\<lambda>_. ''tls.crt'')),
        (''metrics-cert-key'', MetricsCertKey_update (\<lambda>_. ''tls.key'')),
        (''enable-http2'', EnableHTTP2_update (\<lambda>_. False))]"

definition InitOptions_AddFlags :: "string list \<Rightarrow> string list go" where
  "InitOptions_AddFlags names = Ret names"

section \<open>The commands\<close>

record command =
  cmd_Use :: string
  cmd_Flags :: "string list"

record root_command = command +
  cmd_PersistentFlags :: "string list"
  cmd_Commands :: "command list"

text \<open>The zero values of the option structs.\<close>

definition zero_RawSharedOptions :: RawSharedOptions where
  "zero_RawSharedOptions =
     \<lparr>opt_Environment = '''', opt_ProviderName = '''', opt_DryRun = False, opt_WebhooksDisabled = False\<rparr>"

definition zero_RawRunOptions :: RawRunOptions where
  "zero_RawRunOptions =
     \<lparr>MetricsAddr = '''', MetricsCertPath = '''', MetricsCertName = '''', MetricsCertKey = '''',
      WebhookCertPath = '''', WebhookCertName = '''', WebhookCertKey = '''', EnableLeaderElection = False,
      ProbeAddr = '''', PprofAddr = '''', SecureMetrics = False, EnableHTTP2 = False, Controllers = []\<rparr>"

definition zero_RunOptions :: "RawSharedOptions \<Rightarrow> RunOptions" where
  "zero_RunOptions so =
     \<lparr>ro_Shared = so, ro_Raw = zero_RawRunOptions, TLSOpts = [], WebhookTLSOpts = [],
      MetricsServerOptions = \<lparr>BindAddress = '''', SecureServing = False, MetricsTLSOpts = [], AuthFilter = False\<rparr>,
      MetricsCertWatcher = None, WebhookCertWatcher = None, ProviderNamespace = ''''\<rparr>"

definition NewRunCommand :: "RawSharedOptions \<Rightarrow> (command \<times> RunOptions) go" where
  "NewRunCommand so =
     go_bind (RunOptions_AddFlags (ro_Raw (zero_RunOptions so)) []) (\<lambda>(raw, names).
       Ret (\<lparr>cmd_Use = ''run'', cmd_Flags = names\<rparr>, (zero_RunOptions so)\<lparr>ro_Raw := raw\<rparr>))"

definition NewInitCommand :: "RawSharedOptions \<Rightarrow> (command \<times> RawSharedOptions) go" where
  "NewInitCommand so =
     go_bind (InitOptions_AddFlags []) (\<lambda>names. Ret (\<lparr>cmd_Use = ''init'', cmd_Flags = names\<rparr>, so))"

text \<open>The root command with the options of its two commands, before any argument is parsed.\<close>

definition NewPlatformServiceGardenerIPAMCommand ::
  "string list \<Rightarrow> string list \<Rightarrow> (root_command \<times> RawSharedOptions \<times> RunOptions) go" where
  "NewPlatformServiceGardenerIPAMCommand logFlags clusterFlags =
     go_bind (AddPersistentFlags logFlags clusterFlags zero_RawSharedOptions []) (\<lambda>(so, persistent).
       go_bind (NewInitCommand so) (\<lambda>(initCmd, initOpts).
         go_bind (NewRunCommand so) (\<lambda>(runCmd, runOpts).
           Ret (\<lparr>cmd_Use = ''platform-service-gardener-ipam'', cmd_Flags = [],
                 cmd_PersistentFlags = persistent, cmd_Commands = [initCmd, runCmd]\<rparr>, initOpts, runOpts))))"

section \<open>Printing\<close>

text \<open>
  The output of a command is the text printed so far; \<open>Marshal\<close> of the YAML library is a
  parameter, its argument the value as the struct tags and map keys give it.
\<close>

datatype yaml = YString string | YBool bool | YList "yaml list" | YMap "(string \<times> yaml) list"

type_synonym yaml_marshal = "yaml \<Rightarrow> string result"

definition newline :: string where
  "newline = [CHR 0x0A]"

definition Println :: "string \<Rightarrow> string \<Rightarrow> string" where
  "Println s out = out @ s @ newline"

definition print_yaml :: "yaml_marshal \<Rightarrow> string \<Rightarrow> yaml \<Rightarrow> string \<Rightarrow> string" where
  "print_yaml Y msg v out =
     (case Y v of
        Inl e \<Rightarrow> Println (error_text (Errorf msg [] (Some e))) out
      | Inr data \<Rightarrow> out @ data)"

definition yaml_RawSharedOptions :: "RawSharedOptions \<Rightarrow> yaml" where
  "yaml_RawSharedOptions so =
     YMap [(''environment'', YString (opt_Environment so)), (''provider-name'', YString (opt_ProviderName so)),
           (''dry-run'', YBool (opt_DryRun so)), (''disable-webhooks'', YBool (opt_WebhooksDisabled so))]"

definition yaml_RawRunOptions :: "RawRunOptions \<Rightarrow> yaml" where
  "yaml_RawRunOptions r =
     YMap [(''metrics-bind-address'', YString (MetricsAddr r)), (''metrics-cert-path'', YString (MetricsCertPath r)),
           (''metrics-cert-name'', YString (MetricsCertName r)), (''metrics-cert-key'', YString (MetricsCertKey r)),
           (''webhook-cert-path'', YString (WebhookCertPath r)), (''webhook-cert-name'', YString (WebhookCertName r)),
           (''webhook-cert-key'', YString (WebhookCertKey r)), (''leader-elect'', YBool (EnableLeaderElection r)),
           (''health-probe-bind-address'', YString (ProbeAddr r)), (''pprof-bind-address'', YString (PprofAddr r)),
           (''metrics-secure'', YBool (SecureMetrics r)), (''enable-http2'', YBool (EnableHTTP2 r)),
           (''controllers'', YList (map YString (Controllers r)))]"

definition SharedOptions_PrintRaw :: "yaml_marshal \<Rightarrow> RawSharedOptions \<Rightarrow> string \<Rightarrow> string" where
  "SharedOptions_PrintRaw Y so = print_yaml Y ''error marshalling raw shared options'' (yaml_RawSharedOptions so)"

text \<open>\<open>endpoint\<close> is the API server endpoint of the platform cluster.\<close>

definition SharedOptions_PrintCompleted :: "yaml_marshal \<Rightarrow> string \<Rightarrow> RawSharedOptions \<Rightarrow> string \<Rightarrow> string" where
  "SharedOptions_PrintCompleted Y endpoint so =
     print_yaml Y ''error marshalling completed shared options''
       (YMap [(''platformCluster'', YString endpoint), (''providerName'', YString (opt_ProviderName so))])"

definition InitOptions_PrintRaw :: "string \<Rightarrow> string" where
  "InitOptions_PrintRaw out = out"

definition InitOptions_PrintCompleted :: "string \<Rightarrow> string" where
  "InitOptions_PrintCompleted out = out"

definition RunOptions_PrintRaw :: "yaml_marshal \<Rightarrow> RunOptions \<Rightarrow> string \<Rightarrow> string" where
  "RunOptions_PrintRaw Y ro = print_yaml Y ''error marshalling raw options'' (yaml_RawRunOptions (ro_Raw ro))"

definition RunOptions_PrintCompleted :: "yaml_marshal \<Rightarrow> string \<Rightarrow> string" where
  "RunOptions_PrintCompleted Y = print_yaml Y ''error marshalling completed options'' (YMap [])"

definition InitOptions_PrintRawOptions :: "yaml_marshal \<Rightarrow> RawSharedOptions \<Rightarrow> string \<Rightarrow> string" where
  "InitOptions_PrintRawOptions Y so out =
     Println ''########## RAW OPTIONS END ##########'' (InitOptions_PrintRaw (SharedOptions_PrintRaw Y so
       (Println ''########## RAW OPTIONS START ##########'' out)))"

definition InitOptions_PrintCompletedOptions :: "yaml_marshal \<Rightarrow> string \<Rightarrow> RawSharedOptions \<Rightarrow> string \<Rightarrow> string" where
  "InitOptions_PrintCompletedOptions Y endpoint so out =
     Println ''########## COMPLETED OPTIONS END ##########'' (InitOptions_PrintCompleted
       (SharedOptions_PrintCompleted Y endpoint so
         (Println ''########## COMPLETED OPTIONS START ##########'' out)))"

definition RunOptions_PrintRawOptions :: "yaml_marshal \<Rightarrow> RunOptions \<Rightarrow> string \<Rightarrow> string" where
  "RunOptions_PrintRawOptions Y ro out =
     Println ''########## RAW OPTIONS END ##########'' (RunOptions_PrintRaw Y ro
       (SharedOptions_PrintRaw Y (ro_Shared ro) (Println ''########## RAW OPTIONS START ##########'' out)))"

definition RunOptions_PrintCompletedOptions :: "yaml_marshal \<Rightarrow> string \<Rightarrow> RunOptions \<Rightarrow> string \<Rightarrow> string" where
  "RunOptions_PrintCompletedOptions Y endpoint ro out =
     Println ''########## COMPLETED OPTIONS END ##########'' (RunOptions_PrintCompleted Y
       (SharedOptions_PrintCompleted Y endpoint (ro_Shared ro)
         (Println ''########## COMPLETED OPTIONS START ##########'' out)))"

section \<open>Executing a command\<close>

text \<open>The \<^verbatim>\<open>Run\<close> functions of the commands, with the text they print.\<close>

definition run_printed ::
  "range_order \<Rightarrow> 's goipam \<Rightarrow> lib \<Rightarrow> 'w platform_client \<Rightarrow> app_env \<Rightarrow> yaml_marshal \<Rightarrow> string \<Rightarrow> RunOptions \<Rightarrow>
     string \<Rightarrow> ('s, 'w) shared \<Rightarrow> ((string \<times> setup_step list) \<times> ('s, 'w) shared) go" where
  "run_printed rng G L C E Y endpoint opts out st =
     (let out1 = RunOptions_PrintRawOptions Y opts out in
     go_bind (RunOptions_Complete E opts st) (\<lambda>(r, st1).
       case r of
         Inl _ \<Rightarrow> Panic (PanicMessage ''error completing options'')
       | Inr ro \<Rightarrow>
           let out2 = RunOptions_PrintCompletedOptions Y endpoint ro out1
           in if opt_DryRun (ro_Shared ro) then Ret ((Println ''=== END OF DRY RUN ==='' out2, []), st1)
              else go_bind (Run rng G L C E ro st1) (\<lambda>((e, steps), st2).
                case e of Some _ \<Rightarrow> Panic (PanicMessage ''run'') | None \<Rightarrow> Ret ((out2, steps), st2))))"

definition init_printed ::
  "app_env \<Rightarrow> lib \<Rightarrow> yaml_marshal \<Rightarrow> string \<Rightarrow> RawSharedOptions \<Rightarrow> string \<Rightarrow> ('s, 'w) shared \<Rightarrow>
     ((string \<times> init_step list) \<times> ('s, 'w) shared) go" where
  "init_printed E L Y endpoint so out st =
     (let out1 = InitOptions_PrintRawOptions Y so out in
     go_bind (SharedOptions_Complete E so st) (\<lambda>(e, st1).
       case e of
         Some _ \<Rightarrow> Panic (PanicMessage ''error completing options'')
       | None \<Rightarrow>
           let out2 = InitOptions_PrintCompletedOptions Y endpoint so out1
           in if opt_DryRun so then Ret ((Println ''=== END OF DRY RUN ==='' out2, []), st1)
              else (case InitOptions_Run E L so of
                      (Some _, _) \<Rightarrow> Panic (PanicMessage ''init'')
                    | (None, steps) \<Rightarrow> Ret ((out2, steps), st1))))"

section \<open>Laws\<close>

lemma define_flags_total:
  "distinct (names @ map fst flags) \<Longrightarrow>
     define_flags flags opts names = Ret (fold snd flags opts, names @ map fst flags)"
  by (induction flags arbitrary: opts names) auto

lemma define_flags_redefined:
  "distinct names \<Longrightarrow> \<not> distinct (names @ map fst flags) \<Longrightarrow>
     \<exists>p. define_flags flags opts names = Panic p"
proof (induction flags arbitrary: opts names)
  case (Cons flag flags)
  obtain name f where flag: "flag = (name, f)" by (cases flag)
  show ?case
  proof (cases "name \<in> set names")
    case False
    then have "distinct (names @ [name])" "\<not> distinct ((names @ [name]) @ map fst flags)"
      using Cons.prems by (auto simp: flag)
    from Cons.IH [OF this] show ?thesis using False by (simp add: flag)
  qed (simp add: flag)
qed simp

text \<open>Printing has no influence on what the commands do.\<close>

lemma run_printed_command:
  "go_bind (run_printed rng G L C E Y endpoint opts out st) (\<lambda>((out', steps), st'). Ret (steps, st')) =
     run_command rng G L C E opts st"
  by (auto simp: run_printed_def run_command_def Let_def go_bind_assoc intro!: go_bind_cong
      split: sum.splits option.splits prod.splits)

lemma init_printed_command:
  "go_bind (init_printed E L Y endpoint so out st) (\<lambda>((out', steps), st'). Ret (steps, st')) =
     init_command E L so st"
  by (auto simp: init_printed_def init_command_def Let_def go_bind_assoc intro!: go_bind_cong
      split: sum.splits option.splits prod.splits)

lemma SharedOptions_Complete_frame:
  assumes "SharedOptions_Complete E so st = Ret (e, st')"
  shows "IPAM st' = IPAM st \<and> config st' = config st \<and> platform st' = platform st \<and>
    ClusterWatch st' = ClusterWatch st \<and> recorded st' = recorded st"
  using assms by (auto simp: SharedOptions_Complete_def SetEnvironment_def SetProviderName_def
      split: if_splits option.splits)

lemma RunOptions_Complete_frame:
  assumes "RunOptions_Complete E ro st = Ret (r, st')"
  shows "\<exists>e. SharedOptions_Complete E (ro_Shared ro) st = Ret (e, st')"
  using assms by (auto simp: RunOptions_Complete_def split: option.splits if_splits sum.splits)

lemma RunOptions_Complete_shared:
  assumes "RunOptions_Complete E ro st = Ret (Inr ro', st')"
  shows "ro_Shared ro' = ro_Shared ro"
  using assms by (auto simp: RunOptions_Complete_def complete_webhook_def complete_metrics_def Let_def
      split: option.splits if_splits sum.splits)

text \<open>C32: a dry run touches nothing. If the \<^verbatim>\<open>run\<close> command returns with
  \<^verbatim>\<open>--dry-run\<close>, then it made no call on the manager, and the IPAM instance, the
  configuration, the queue, the events and the API server are as before; the options were completed,
  and the output is the raw options, the completed options and the end marker.\<close>

theorem dry_run_harmless:
  assumes "opt_DryRun (ro_Shared ro)"
    and "run_printed rng G L C E Y endpoint ro out st = Ret ((out', steps), st')"
  shows "steps = [] \<and> IPAM st' = IPAM st \<and> config st' = config st \<and> platform st' = platform st \<and>
    ClusterWatch st' = ClusterWatch st \<and> recorded st' = recorded st \<and>
    (\<exists>ro'. RunOptions_Complete E ro st = Ret (Inr ro', st') \<and>
       out' = Println ''=== END OF DRY RUN ===''
         (RunOptions_PrintCompletedOptions Y endpoint ro' (RunOptions_PrintRawOptions Y ro out)))"
proof -
  obtain r st1 where c: "RunOptions_Complete E ro st = Ret (r, st1)"
    using assms(2) by (auto simp: run_printed_def Let_def)
  obtain ro' where r: "r = Inr ro'"
    using assms(2) by (cases r) (simp_all add: run_printed_def c)
  have "opt_DryRun (ro_Shared ro')"
    using assms(1) RunOptions_Complete_shared [OF c [unfolded r]] by simp
  then have "st' = st1 \<and> steps = [] \<and> out' = Println ''=== END OF DRY RUN ===''
    (RunOptions_PrintCompletedOptions Y endpoint ro' (RunOptions_PrintRawOptions Y ro out))"
    using assms(2) by (simp add: run_printed_def c r Let_def)
  moreover obtain e where "SharedOptions_Complete E (ro_Shared ro) st = Ret (e, st1)"
    using RunOptions_Complete_frame [OF c] by blast
  ultimately show ?thesis
    using SharedOptions_Complete_frame [of E "ro_Shared ro" st e st1] c r by blast
qed

definition yaml_test :: yaml_marshal where
  "yaml_test v =
     (case v of
        YMap kvs \<Rightarrow> Inr (concat (map (\<lambda>(k, _). k @ '': ..'' @ newline) kvs))
      | _ \<Rightarrow> Inl (LibError ''yaml''))"

definition opts_dry :: RunOptions where
  "opts_dry = opts_test\<lparr>ro_Shared := (ro_Shared opts_test)\<lparr>opt_DryRun := True\<rparr>\<rparr>"

theorem dry_run_harmless_witness:
  "case run_printed insertion_order sim_goipam sim_lib sim_client env_test yaml_test ''https://api'' opts_dry []
       (shared_init w_restore :: (sim, world) shared) of
     Ret ((out, steps), st) \<Rightarrow> steps = [] \<and> platform st = w_restore \<and> 200 < length out
   | _ \<Rightarrow> False"
proof -
  let ?r = "run_printed insertion_order sim_goipam sim_lib sim_client env_test yaml_test ''https://api'' opts_dry []
    (shared_init w_restore :: (sim, world) shared)"
  have "opt_DryRun (ro_Shared opts_dry)"
    by (simp add: opts_dry_def)
  note dry = dry_run_harmless [OF this]
  have "case ?r of Ret ((out, steps), st) \<Rightarrow> 200 < length out | _ \<Rightarrow> False"
    by code_simp
  then obtain out steps st where r: "?r = Ret ((out, steps), st)" and "200 < length out"
    by (auto split: go.splits)
  then show ?thesis
    using dry [OF r] by (simp add: shared_init_def)
qed

text \<open>The options of a process that was started without flags.\<close>

definition default_RawRunOptions :: RawRunOptions where
  "default_RawRunOptions =
     \<lparr>MetricsAddr = ''0'', MetricsCertPath = '''', MetricsCertName = ''tls.crt'', MetricsCertKey = ''tls.key'',
      WebhookCertPath = '''', WebhookCertName = ''tls.crt'', WebhookCertKey = ''tls.key'',
      EnableLeaderElection = False, ProbeAddr = '':8081'', PprofAddr = '''', SecureMetrics = True,
      EnableHTTP2 = False, Controllers = []\<rparr>"

lemma RunOptions_AddFlags_defaults:
  "RunOptions_AddFlags zero_RawRunOptions [] = Ret (default_RawRunOptions,
     [''metrics-bind-address'', ''health-probe-bind-address'', ''pprof-bind-address'', ''leader-elect'',
      ''metrics-secure'', ''webhook-cert-path'', ''webhook-cert-name'', ''webhook-cert-key'',
      ''metrics-cert-path'', ''metrics-cert-name'', ''metrics-cert-key'', ''enable-http2''])"
  by code_simp

lemma fold_ignored: "fold snd (map (\<lambda>f. (f, \<lambda>o'. o')) fs) opts = opts"
  by (induction fs) auto

abbreviation "persistent_flags logFlags clusterFlags \<equiv>
  logFlags @ clusterFlags @ [''environment'', ''provider-name'', ''dry-run'', ''disable-webhooks'']"

lemma AddPersistentFlags_cases:
  "(distinct (persistent_flags logFlags clusterFlags) \<longrightarrow>
     AddPersistentFlags logFlags clusterFlags zero_RawSharedOptions [] =
       Ret (zero_RawSharedOptions, persistent_flags logFlags clusterFlags)) \<and>
   (\<not> distinct (persistent_flags logFlags clusterFlags) \<longrightarrow>
     (\<exists>p. AddPersistentFlags logFlags clusterFlags zero_RawSharedOptions [] = Panic p))"
proof -
  define flags :: "(string \<times> (RawSharedOptions \<Rightarrow> RawSharedOptions)) list" where "flags = map (\<lambda>f. (f, \<lambda>o'. o')) logFlags @ map (\<lambda>f. (f, \<lambda>o'. o')) clusterFlags @
    [(''environment'', opt_Environment_update (\<lambda>_. '''')), (''provider-name'', opt_ProviderName_update (\<lambda>_. '''')),
     (''dry-run'', opt_DryRun_update (\<lambda>_. False)),
     (''disable-webhooks'', opt_WebhooksDisabled_update (\<lambda>_. False :: bool))]"
  have names: "map fst flags = persistent_flags logFlags clusterFlags"
    by (simp add: flags_def comp_def)
  have vals: "fold snd flags zero_RawSharedOptions = zero_RawSharedOptions"
    by (simp add: flags_def fold_ignored zero_RawSharedOptions_def)
  show ?thesis
    unfolding AddPersistentFlags_def flags_def [symmetric]
    using define_flags_total [of "[]" flags zero_RawSharedOptions]
      define_flags_redefined [of "[]" flags zero_RawSharedOptions]
    by (simp only: append_Nil names vals distinct.simps simp_thms) blast
qed

text \<open>The commands can be built exactly if the flags of the libraries and of this program have
  different names; otherwise the process panics. Before arguments are parsed, the options have the
  documented defaults (HTTP/2 off, metrics off but secure when switched on, no certificates, no
  leader election), and without an environment name both commands panic before they call anything.\<close>

theorem NewPlatformServiceGardenerIPAMCommand_defaults:
  "case NewPlatformServiceGardenerIPAMCommand logFlags clusterFlags of
     Ret (cmd, so, ro) \<Rightarrow>
       distinct (persistent_flags logFlags clusterFlags) \<and>
       cmd_PersistentFlags cmd = persistent_flags logFlags clusterFlags \<and>
       map cmd_Use (cmd_Commands cmd) = [''init'', ''run''] \<and>
       so = zero_RawSharedOptions \<and> ro = (zero_RunOptions so)\<lparr>ro_Raw := default_RawRunOptions\<rparr> \<and>
       run_printed rng G L C E Y endpoint ro out st = Panic (PanicMessage ''error completing options'') \<and>
       init_printed E L Y endpoint so out st = Panic (PanicMessage ''error completing options'')
   | Panic p \<Rightarrow> \<not> distinct (persistent_flags logFlags clusterFlags)
   | Block \<Rightarrow> False"
proof (cases "distinct (persistent_flags logFlags clusterFlags)")
  case True
  then have add: "AddPersistentFlags logFlags clusterFlags zero_RawSharedOptions [] =
      Ret (zero_RawSharedOptions, persistent_flags logFlags clusterFlags)"
    using AddPersistentFlags_cases by blast
  have empty: "opt_Environment zero_RawSharedOptions = []"
    by (simp add: zero_RawSharedOptions_def)
  show ?thesis
    using True by (simp add: NewPlatformServiceGardenerIPAMCommand_def NewInitCommand_def NewRunCommand_def
        InitOptions_AddFlags_def zero_RunOptions_def RunOptions_AddFlags_defaults run_printed_def init_printed_def
        RunOptions_Complete_def SharedOptions_Complete_def Let_def add empty del: distinct_append)
next
  case False
  then obtain p where "AddPersistentFlags logFlags clusterFlags zero_RawSharedOptions [] = Panic p"
    using AddPersistentFlags_cases by blast
  then show ?thesis
    using False by (simp add: NewPlatformServiceGardenerIPAMCommand_def del: distinct_append)
qed

end
