(* ===== verification/Spec2Isabelle.thy ===== *)
theory Spec2Isabelle
  imports System Watches In_Place Commands
begin

text \<open>
  \<^bold>\<open>Platform service Gardener IPAM: a verification library\<close>

  The program assigns CIDRs (IP address ranges) to Gardener clusters.  A configuration resource
  (\<^verbatim>\<open>IPAMConfig\<close>) lists parent CIDRs and injection rules; for every Cluster a rule selects, the
  program takes child CIDRs from the parents and writes a \<^verbatim>\<open>ClusterConfig\<close> with JSON patches
  that inject the CIDRs into given paths of the Shoot.  The allocations are kept in memory by the library
  \<^verbatim>\<open>go-ipam\<close> and are rebuilt from the resources at start-up and periodically.

  \<^bold>\<open>Parts and theories\<close>

  \<^item> \<open>Prelude\<close>: the outcome of a Go call (\<open>Ret\<close>, \<open>Panic\<close>, or \<open>Block\<close> for a call that waits for a held
    mutex or a full channel), error values with wrapping and joining, Go maps as association lists, and
    the unspecified order of \<^verbatim>\<open>range\<close> over a map as the parameter \<open>rng\<close> (locale
    \<open>map_iteration\<close>: any permutation of the keys, chosen per loop).
  \<^item> \<open>Go_Strings\<close>, \<open>Go_JSON\<close>: what the program uses of \<^verbatim>\<open>strings\<close>, \<^verbatim>\<open>strconv\<close>,
    \<^verbatim>\<open>slices\<close> and \<^verbatim>\<open>encoding/json\<close> (strings, and maps of maps of strings), with round trips.
  \<^item> \<open>API_Types\<close>: \<^verbatim>\<open>api/ipam/v1alpha1\<close>, that is the configuration, the annotation of applied
    rules, constants, and the parts of Cluster and ClusterConfig the program reads or writes.
  \<^item> \<open>Interfaces\<close>: code outside the repository as records of functions with contracts as locales:
    \<open>goipam_contract\<close>, \<open>goipam_alloc\<close> (addresses), \<open>ipam_invariant\<close> (any property of the library's
    state that its operations keep; \<open>goipam_alloc\<close> is a sublocale for \<open>well_allocated\<close>),
    \<open>finalizer_contract\<close>, \<open>shorten_contract\<close>; later \<open>overlap_contract\<close> (\<open>Config_Validation\<close>),
    \<open>selector_contract\<close> (\<open>Cluster_Mutation\<close>) and \<open>predicate_contract\<close> (\<open>Watches\<close>).
  \<^item> \<open>Ipamer\<close>: \<^verbatim>\<open>internal/shared/ipam.go\<close>, the mutex wrapper.  It keeps the contract it wraps.
  \<^item> \<open>Sim_Ipam\<close>, \<open>Sim_Platform\<close>: a small allocator and an in-memory API server.  They interpret the
    contracts and let the witnesses evaluate; they are not models of the libraries.
  \<^item> \<open>Shared_State\<close>: \<^verbatim>\<open>internal/shared/config.go\<close>, the package variables and the queue of
    Clusters, with the panics of the accessors; and the predicates on calls (\<open>runs_within\<close>,
    \<open>ipam_sat\<close>) that the proofs about locking and invariants use.
  \<^item> \<open>Utils\<close>: \<^verbatim>\<open>internal/shared/utils.go\<close>: labels, listings, generated ClusterConfigs, the order of
    patches, the release of CIDRs (all or nothing).
  \<^item> \<open>Restore\<close>: \<^verbatim>\<open>internal/shared/restore.go\<close>: which ClusterConfigs are missing or incomplete,
    orphaned ClusterConfigs, the rebuilt IPAM state (it blocks exactly the parents and the injected
    CIDRs), and the restoration as a whole.
  \<^item> \<open>Cluster_Controller\<close>: \<^verbatim>\<open>internal/controllers/cluster/controller.go\<close>: generation of CIDRs,
    \<^verbatim>\<open>ManageInjections\<close>, creation, update and deletion of Clusters.  Recorded CIDRs never change,
    new ones were free, conflicts are reported, the lock is never requested twice.
  \<^item> \<open>Config_Controller\<close>: \<^verbatim>\<open>internal/controllers/config/controller.go\<close>: storing the config, queuing
    the affected Clusters, the periodic refresh and the time of the next reconciliation.
  \<^item> \<open>Config_Validation\<close>: \<^verbatim>\<open>internal/webhooks/config-validation.go\<close>, with the declarative
    \<open>valid_config\<close> it decides.
  \<^item> \<open>Cluster_Mutation\<close>: \<^verbatim>\<open>internal/webhooks/cluster-mutation.go\<close>.
  \<^item> \<open>Watches\<close>: the event filters of both \<^verbatim>\<open>SetupWithManager\<close> methods.
  \<^item> \<open>App\<close>: \<^verbatim>\<open>cmd/platform-service-gardener-ipam/app\<close>: options, the order of the steps of
    \<^verbatim>\<open>run\<close> and \<^verbatim>\<open>init\<close>.
  \<^item> \<open>Commands\<close>: the rest of \<^verbatim>\<open>app\<close>: flags with their defaults, the commands, the printing of
    options (\<^verbatim>\<open>print.go\<close>) and the commands with their output; a dry run touches nothing.
  \<^item> \<open>Go_Memory\<close>: slices, maps and pointers as references to cells of a memory, and the locale
    \<open>deep_copier\<close> with the ways the generated functions build deep copies of slices, maps, pointers and
    structs from those of their parts (every way a locale and a sublocale).
  \<^item> \<open>Deep_Copy\<close>: \<^verbatim>\<open>zz_generated.deepcopy.go\<close> in this memory.  Every function is a deep copy, if
    the \<^verbatim>\<open>DeepCopyInto\<close> methods of other packages are (locale \<open>foreign_copies\<close>); and the shared
    configuration behaves like a register, whatever is done to the objects that were set or got.
  \<^item> \<open>In_Place\<close>: the normalization of paths, which the cluster controller does in place, in this memory;
    it refines the functional \<open>norm_injections\<close> and does not reach the shared configuration.
  \<^item> \<open>System\<close>: the step relation of the running program, whose steps are whole reconciliations and
    foreign changes of the API server; invariants of the IPAM state in all reachable states.
  \<^item> This theory: the properties of the whole system, and one interleaving inside a reconciliation.

  \<^bold>\<open>Correspondence\<close>

  A method that changes package state takes and returns the record \<open>shared\<close>; calls on the IPAM instance
  go through the mutex; calls on the API server through \<open>on_platform\<close>, whose client may answer anything
  and change the server's state.  Loops are recursive functions named after the function they are in; all
  of them are structural, so no fuel is needed.  Every early return, collected error and panic of the code is
  a branch.  \<^verbatim>\<open>time.Duration\<close> is an integer of nanoseconds with 64-bit wrap-around written out, the
  length of a requested prefix an \<open>8 word\<close> like Go's \<^verbatim>\<open>uint8\<close>; other integers do not overflow.

  \<^bold>\<open>Bounds and simplifications\<close>

  The stable sort is the insertion sort Go uses for up to twenty elements; for more elements the results
  agree whenever the comparison is a strict weak order, which is the case in the theorems.  Strings are
  lists of bytes.  Access to the config under its read-write lock is atomic.  A nil slice and an empty slice
  are the same, also in the comparison of old and new rules.  Outside \<open>Deep_Copy\<close>
  and \<open>In_Place\<close> objects are plain values; these two theories justify it for the configuration, the only
  object that several parts of the program share and write to.  In the memory a slice is the reference to
  its array with the length of the array; no code slices or appends to a slice of the configuration.  Errors keep their format, arguments and causes.  The queue has the capacity 1024 of the
  channel.

  \<^bold>\<open>Not modelled\<close>

  Logging, the parsing of the command line (a library), the entry point \<^verbatim>\<open>main.go\<close>, the embedding of
  CRD manifests and scheme registration (they only call libraries), and the concurrent execution of single
  statements other than the interleaving shown below.
\<close>

section \<open>What holds in every reachable state\<close>

lemma reachable_allocation:
  assumes "goipam_alloc G addrs" and "reachable G L C x"
  shows "ipam_ready (sys x)" and "well_allocated G addrs (ipam_state (sys x))"
proof -
  have "ipam_invariant G (well_allocated G addrs)"
    using assms(1) by (rule goipam_alloc.allocation_invariant)
  from ipam_invariant.reachable_sat [OF this assms(2)]
  show "ipam_ready (sys x)" and "well_allocated G addrs (ipam_state (sys x))"
    by (simp_all add: ipam_sat_ready)
qed

text \<open>C1: in every state the program can reach after start-up, by any sequence of reconciliations of
  both controllers and any changes in the API server, the IPAM instance exists and its lock is free;
  every allocated CIDR lies in the CIDR it was taken from; and any two CIDRs that were taken from the
  same CIDR have no address in common.\<close>

theorem reachable_well_allocated:
  assumes "goipam_alloc G addrs" and "reachable G L C x"
  shows "ipam_ready (sys x) \<and>
    (\<forall>c p. known G (ipam_state (sys x)) c = Some p \<longrightarrow> ParentCidr p \<noteq> [] \<longrightarrow>
      addrs c \<subseteq> addrs (ParentCidr p) \<and>
      (\<forall>d q. known G (ipam_state (sys x)) d = Some q \<longrightarrow> d \<noteq> c \<longrightarrow> ParentCidr q = ParentCidr p \<longrightarrow>
        addrs d \<inter> addrs c = {}))"
  using reachable_allocation [OF assms] unfolding well_allocated_def by blast

lemma valid_parents_disjoint:
  assumes "overlap_contract L addrs" and "valid_config L cfg"
    and "a \<in> set (config_parents cfg)" and "b \<in> set (config_parents cfg)" and "a \<noteq> b"
  shows "addrs a \<inter> addrs b = {}"
proof -
  obtain i j where "i < length (config_parents cfg)" "config_parents cfg ! i = a"
      "j < length (config_parents cfg)" "config_parents cfg ! j = b"
    using assms(3,4) by (meson in_set_conv_nth)
  then have "PrefixesOverlapping L [a] [b] = None" using assms(2,5) by (auto simp: valid_config_def)
  then show ?thesis by (rule overlap_contract.overlap_disjoint [OF assms(1)])
qed

text \<open>C2: if the configuration was accepted by the validating webhook, then in every reachable state any
  two different CIDRs taken from parent CIDRs of the configuration have no address in common, whether
  they come from the same parent or from different ones.\<close>

theorem validated_allocation_disjoint:
  assumes "goipam_alloc G addrs" and "overlap_contract L addrs" and "map_iteration rng"
    and "wf_map (ParentCIDRs (Spec cfg))" and "ValidateCreate rng L (Some cfg) = Ret None" and "reachable G L C x"
    and "known G (ipam_state (sys x)) c = Some p" and "ParentCidr p \<in> set (config_parents cfg)"
    and "known G (ipam_state (sys x)) d = Some q" and "ParentCidr q \<in> set (config_parents cfg)" and "c \<noteq> d"
  shows "addrs c \<inter> addrs d = {}"
proof -
  have valid: "valid_config L cfg"
    using assms(5) ValidateConfig_spec [OF assms(3,2,4)] by (simp add: ValidateCreate_def)
  have "cidr_wellformed a" if "a \<in> set (config_parents cfg)" for a
    using valid that by (simp add: valid_config_def)
  then have ne: "ParentCidr p \<noteq> []" "ParentCidr q \<noteq> []"
    using assms(8,10) by (force simp: cidr_wellformed_def)+
  note alloc = reachable_allocation(2) [OF assms(1,6), unfolded well_allocated_def]
  show ?thesis
  proof (cases "ParentCidr p = ParentCidr q")
    case True
    then have "addrs d \<inter> addrs c = {}" using alloc assms(7,9,11) ne by blast
    then show ?thesis by blast
  next
    case False
    have "addrs c \<subseteq> addrs (ParentCidr p)" "addrs d \<subseteq> addrs (ParentCidr q)" using alloc assms(7,9) ne by blast+
    then show ?thesis using valid_parents_disjoint [OF assms(2) valid assms(8,10) False] by blast
  qed
qed

lemma store_config_waits:
  assumes "store_config rng L C cfg st = Block"
  shows "\<exists>cls st1. FetchRelevantClusters rng L C (Some cfg) st = Ret (Inr cls, st1) \<and>
    ClusterWatch_capacity < length (ClusterWatch st) + length cls"
proof -
  have "FetchRelevantClusters rng L C (Some cfg) st \<noteq> Block"
    using FetchRelevantClusters_runs [of "\<lambda>_. True" st rng L C "Some cfg"] by auto
  then obtain cls st1 where f: "FetchRelevantClusters rng L C (Some cfg) st = Ret (Inr cls, st1)"
    and q: "queue_clusters cls st1 = Block"
    using assms by (auto simp: store_config_def queue_affected_def go_bind_eq_Block split: if_splits option.splits sum.splits)
  have "ClusterWatch st1 = ClusterWatch st" using Fetch_keeps(3) [of st rng L C cfg] f by simp
  then show ?thesis using f q queue_clusters_fits [of st1 cls] by (auto simp: not_le [symmetric])
qed

lemma reconcile_stored_waits:
  assumes "reconcile_stored rng G L C t cfg c st = Block" and "ipam_ready st"
  shows "\<exists>cls st1. FetchRelevantClusters rng L C (Some cfg) st = Ret (Inr cls, st1) \<and>
    ClusterWatch_capacity < length (ClusterWatch st) + length cls"
proof -
  have "refresh_state rng G L C t cfg c st1 \<noteq> Block" if "ipam_ready st1" for st1
  proof -
    have "RestoreIPAMFromClusterState rng G L C st1 \<noteq> Block"
      using ipam_invariant.Restore_sat [OF trivial_invariant, of st1 rng G L C] that
      by (auto simp: ipam_sat_ready)
    then show ?thesis by (auto simp: refresh_state_def go_bind_eq_Block Let_def split: option.splits)
  qed
  moreover have "ipam_ready st1" if "store_config rng L C cfg st = Ret (e, st1)" for e st1
    using store_config_ends [of "ipam_sat False (\<lambda>_. True)" st rng L C cfg] that assms(2)
    by (simp add: ipam_sat_ready)
  ultimately show ?thesis
    using assms(1) store_config_waits [of rng L C cfg st]
    by (auto simp: reconcile_stored_def go_bind_eq_Block split: option.splits)
qed

lemma config_Reconcile_waits:
  assumes "config_Reconcile rng G L C t name c st = Block" and "ipam_ready st"
  shows "\<exists>cfg w cls st1. FetchRelevantClusters rng L C (Some cfg) (st\<lparr>platform := w\<rparr>) = Ret (Inr cls, st1) \<and>
    ClusterWatch_capacity < length (ClusterWatch st) + length cls"
proof -
  have "config_reconcile rng G L C t name c st = Block"
    using assms(1) by (auto simp: config_Reconcile_def go_bind_eq_Block)
  then obtain cfg w where "reconcile_stored rng G L C t cfg c (st\<lparr>platform := w\<rparr>) = Block"
    unfolding config_reconcile_def on_platform_def
    by (auto split: if_splits prod.splits sum.splits option.splits)
  then show ?thesis
    using reconcile_stored_waits [of rng G L C t cfg c "st\<lparr>platform := w\<rparr>"] assms(2)
    by (auto simp: ipam_ready_def)
qed

text \<open>C15: no deadlock: in every reachable state the reconciliation of any Cluster returns or panics, it
  never waits; and the reconciliation of the config waits only if the Clusters its rules select do not
  fit into the queue of the cluster controller, which the cluster controller can always empty.\<close>

theorem reachable_no_deadlock:
  assumes "reachable G L C x"
  shows "Reconcile rng G L C er ns name (sys x) \<noteq> Block \<and>
    (config_Reconcile rng G L C t n (cfgCtrl x) (sys x) = Block \<longrightarrow>
      (\<exists>cfg w cls st1. FetchRelevantClusters rng L C (Some cfg) ((sys x)\<lparr>platform := w\<rparr>) = Ret (Inr cls, st1) \<and>
        ClusterWatch_capacity < length (ClusterWatch (sys x)) + length cls))"
proof -
  have sat: "ipam_sat False (\<lambda>_. True) (IPAM (sys x))"
    by (rule ipam_invariant.reachable_sat [OF trivial_invariant assms])
  then have "ipam_ready (sys x)" by (simp add: ipam_sat_ready)
  moreover have "Reconcile rng G L C er ns name (sys x) \<noteq> Block"
    using ipam_invariant.Reconcile_runs [OF trivial_invariant sat, of rng G L C er ns name] by auto
  ultimately show ?thesis using config_Reconcile_waits by blast
qed

section \<open>Restoring during a reconciliation\<close>

text \<open>The state of the race: one parent network, two Clusters, nothing allocated.\<close>

definition st_race :: "(sim, world) shared" where
  "st_race = sim_state [(''10.0.0.0/16'', [])]
     \<lparr>w_clusters = [sim_cluster ''c1'', sim_cluster ''c2''], w_ccs = [], w_config = Some cfg_restore\<rparr>"


section \<open>Witnesses\<close>

definition w_start :: world where
  "w_start = \<lparr>w_clusters = [sim_cluster ''c''], w_ccs = [sim_cc ''c'' ''r'' [CIDRManagementFinalizer]
     [(''/a'', ''10.0.0.0/24''), (''/b'', ''10.0.1.0/24'')]], w_config = Some cfg_restore\<rparr>"

definition st_start :: "(sim, world) shared" where
  "st_start = (shared_init w_start)\<lparr>environment := ''e'', providerName := ''p''\<rparr>"

lemma start_state:
  obtains x where "reachable sim_goipam sim_lib sim_client x"
    and "known sim_goipam (ipam_state (sys x)) ''10.0.0.0/24'' = Some \<lparr>Cidr = ''10.0.0.0/24'', ParentCidr = ''10.0.0.0/16''\<rparr>"
    and "known sim_goipam (ipam_state (sys x)) ''10.0.1.0/24'' = Some \<lparr>Cidr = ''10.0.1.0/24'', ParentCidr = ''10.0.0.0/16''\<rparr>"
proof -
  let ?r = "Run insertion_order sim_goipam sim_lib sim_client env_test opts_test st_start"
  have "(case ?r of Ret ((_, steps), st) \<Rightarrow> steps \<noteq> [] \<and>
      known sim_goipam (ipam_state st) ''10.0.0.0/24'' = Some \<lparr>Cidr = ''10.0.0.0/24'', ParentCidr = ''10.0.0.0/16''\<rparr> \<and>
      known sim_goipam (ipam_state st) ''10.0.1.0/24'' = Some \<lparr>Cidr = ''10.0.1.0/24'', ParentCidr = ''10.0.0.0/16''\<rparr> | _ \<Rightarrow> False)"
    by code_simp
  then obtain e steps st where r: "?r = Ret ((e, steps), st)" "steps \<noteq> []"
    and k: "known sim_goipam (ipam_state st) ''10.0.0.0/24'' = Some \<lparr>Cidr = ''10.0.0.0/24'', ParentCidr = ''10.0.0.0/16''\<rparr>"
      "known sim_goipam (ipam_state st) ''10.0.1.0/24'' = Some \<lparr>Cidr = ''10.0.1.0/24'', ParentCidr = ''10.0.0.0/16''\<rparr>"
    by (auto split: go.splits prod.splits simp del: known_Some)
  have "IPAM st_start = None" by (simp add: st_start_def shared_init_def)
  from reachable.start [OF this r] show thesis
    by (rule that) (simp_all add: k del: known_Some)
qed

theorem reachable_well_allocated_witness: "cidr_addrs ''10.0.0.0/24'' \<subseteq> cidr_addrs ''10.0.0.0/16''"
proof (rule start_state)
  fix x
  assume "reachable sim_goipam sim_lib sim_client x"
    and "known sim_goipam (ipam_state (sys x)) ''10.0.0.0/24'' = Some \<lparr>Cidr = ''10.0.0.0/24'', ParentCidr = ''10.0.0.0/16''\<rparr>"
  then show ?thesis using reachable_well_allocated [OF sim.goipam_alloc_axioms] by fastforce
qed

theorem validated_allocation_disjoint_witness: "cidr_addrs ''10.0.0.0/24'' \<inter> cidr_addrs ''10.0.1.0/24'' = {}"
proof (rule start_state)
  fix x
  assume "reachable sim_goipam sim_lib sim_client x"
    and "known sim_goipam (ipam_state (sys x)) ''10.0.0.0/24'' = Some \<lparr>Cidr = ''10.0.0.0/24'', ParentCidr = ''10.0.0.0/16''\<rparr>"
    and "known sim_goipam (ipam_state (sys x)) ''10.0.1.0/24'' = Some \<lparr>Cidr = ''10.0.1.0/24'', ParentCidr = ''10.0.0.0/16''\<rparr>"
  moreover have "wf_map (ParentCIDRs (Spec cfg_restore))" "ValidateCreate insertion_order sim_lib (Some cfg_restore) = Ret None"
    "config_parents cfg_restore = [''10.0.0.0/16'']" by code_simp+
  ultimately show ?thesis
    using validated_allocation_disjoint [OF sim.goipam_alloc_axioms sim_overlap.overlap_contract_axioms insertion.map_iteration_axioms,
        of cfg_restore sim_client x "''10.0.0.0/24''" "\<lparr>Cidr = ''10.0.0.0/24'', ParentCidr = ''10.0.0.0/16''\<rparr>"
          "''10.0.1.0/24''" "\<lparr>Cidr = ''10.0.1.0/24'', ParentCidr = ''10.0.0.0/16''\<rparr>"]
    by (simp del: known_Some)
qed

theorem reachable_no_deadlock_witness:
  "\<exists>x :: (sim, world) system. reachable sim_goipam sim_lib sim_client x \<and>
     Reconcile insertion_order sim_goipam sim_lib sim_client True ''test'' ''c'' (sys x) \<noteq> Block"
proof (rule start_state)
  fix x
  assume "reachable sim_goipam sim_lib sim_client x"
  then show ?thesis using reachable_no_deadlock by blast
qed

end
